(* ===== verification/Prelude.thy ===== *)
theory Prelude
  imports Main "HOL-Library.Word"
begin

text \<open>
  Shared vocabulary of the development: Go strings and byte slices as \<open>string\<close>, the outcome of
  a Go call that may panic, the functions of package \<open>strings\<close> that the code uses
  (\<open>Index\<close> and \<open>LastIndex\<close> for a one-byte pattern, \<open>HasPrefix\<close>), the number
  formatting of packages \<open>strconv\<close> and \<open>fmt\<close>, and the lemmas about them that several
  components need.
\<close>

named_theorems synk_simps \<open>unfolding rules for the operations of the components\<close>
named_theorems go_string \<open>facts about the string functions of the Go library\<close>

section \<open>Types\<close>

text \<open>A Go \<open>string\<close> and a Go \<open>[]byte\<close> are both sequences of bytes.\<close>

type_synonym bytes = string

text \<open>A Go \<open>error\<close> value is the text of the error; \<open>nil\<close> is \<open>None\<close>.\<close>

type_synonym error = string

text \<open>\<open>int\<close> and \<open>uint\<close> are 64 bits wide; \<open>sint\<close> and \<open>uint\<close> read them.\<close>

type_synonym go_int = "64 word"
type_synonym go_uint = "64 word"

text \<open>The outcome of a Go call: it returns a value or it panics.\<close>

datatype 'a go = Ret 'a | Panic string

fun panics :: "'a go \<Rightarrow> bool" where
  "panics (Ret _) = False"
| "panics (Panic _) = True"

lemma panics_iff: "panics r \<longleftrightarrow> (\<exists>m. r = Panic m)"
  by (cases r) auto

lemma not_panics_iff: "\<not> panics r \<longleftrightarrow> (\<exists>v. r = Ret v)"
  by (cases r) auto

section \<open>Package strings\<close>

text \<open>\<open>strings.Index(s, c)\<close> for a one-byte \<open>c\<close>; \<open>-1\<close> is \<open>None\<close>.\<close>

fun index_byte :: "char \<Rightarrow> string \<Rightarrow> nat option" where
  "index_byte c [] = None"
| "index_byte c (x # xs) = (if x = c then Some 0 else map_option Suc (index_byte c xs))"

text \<open>\<open>strings.LastIndex(s, c)\<close> for a one-byte \<open>c\<close>.\<close>

fun last_index_byte :: "char \<Rightarrow> string \<Rightarrow> nat option" where
  "last_index_byte c [] = None"
| "last_index_byte c (x # xs) =
     (case last_index_byte c xs of
        Some i \<Rightarrow> Some (Suc i)
      | None \<Rightarrow> if x = c then Some 0 else None)"

text \<open>\<open>strings.HasPrefix(s, p)\<close>.\<close>

definition has_prefix :: "string \<Rightarrow> string \<Rightarrow> bool" where
  "has_prefix s p \<longleftrightarrow> take (length p) s = p"

lemma index_byte_None [go_string]: "index_byte c s = None \<longleftrightarrow> c \<notin> set s"
  by (induction s) auto

lemma index_byte_append [go_string]: "c \<notin> set h \<Longrightarrow> index_byte c (h @ c # r) = Some (length h)"
  by (induction h) auto

lemma index_byte_Some: "index_byte c s = Some i \<Longrightarrow> s = take i s @ c # drop (Suc i) s \<and> c \<notin> set (take i s)"
  by (induction s arbitrary: i) (auto split: if_splits)

lemma last_index_byte_None [go_string]: "last_index_byte c s = None \<longleftrightarrow> c \<notin> set s"
  by (induction s) (auto split: option.splits)

lemma last_index_byte_append [go_string]:
  "c \<notin> set r \<Longrightarrow> last_index_byte c (h @ c # r) = Some (length h)"
  by (induction h) (auto simp: last_index_byte_None split: option.splits)

lemma has_prefix_append [simp]: "has_prefix (p @ s) p"
  by (simp add: has_prefix_def)

lemma has_prefixE: "has_prefix s p \<Longrightarrow> s = p @ drop (length p) s"
  unfolding has_prefix_def by (metis append_take_drop_id)

text \<open>A string cut at the last or the first occurrence of a separator is cut uniquely.\<close>

lemma split_last_unique:
  fixes c :: char
  assumes "a @ c # b = a' @ c # b'" "c \<notin> set b" "c \<notin> set b'"
  shows "a = a' \<and> b = b'"
proof -
  have "length a = length a'"
    using last_index_byte_append [of c b a] last_index_byte_append [of c b' a'] assms by simp
  with assms(1) show ?thesis by simp
qed

lemma split_first_unique:
  fixes c :: char
  assumes "a @ c # b = a' @ c # b'" "c \<notin> set a" "c \<notin> set a'"
  shows "a = a' \<and> b = b'"
proof -
  have "length a = length a'"
    using index_byte_append [of c a b] index_byte_append [of c a' b'] assms by simp
  with assms(1) show ?thesis by simp
qed

section \<open>Number formatting\<close>

text \<open>
  \<open>strconv.FormatInt\<close> and the verb \<open>%v\<close> of \<open>fmt\<close>: digits \<open>0-9a-z\<close>,
  a leading minus sign for negative numbers.
\<close>

definition digit_chars :: string where
  "digit_chars = ''0123456789abcdefghijklmnopqrstuvwxyz''"

definition digit_char :: "nat \<Rightarrow> char" where
  "digit_char d = digit_chars ! d"

fun digits_base :: "nat \<Rightarrow> nat \<Rightarrow> string" where
  "digits_base b n =
     (if b < 2 \<or> n < b then [digit_char n] else digits_base b (n div b) @ [digit_char (n mod b)])"

declare digits_base.simps [simp del]

definition format_int :: "nat \<Rightarrow> int \<Rightarrow> string" where
  "format_int b i = (if i < 0 then CHR ''-'' # digits_base b (nat (- i)) else digits_base b (nat i))"

text \<open>The formatted decimal of an \<open>int\<close> and of a \<open>uint\<close> value.\<close>

definition show_int :: "go_int \<Rightarrow> string" where
  "show_int w = format_int 10 (sint w)"

definition show_uint :: "go_uint \<Rightarrow> string" where
  "show_uint w = digits_base 10 (unat w)"

fun digit_val :: "char \<Rightarrow> nat option" where
  "digit_val c = index_byte c digit_chars"

definition undigits :: "nat \<Rightarrow> string \<Rightarrow> nat" where
  "undigits b s = foldl (\<lambda>n c. n * b + the (digit_val c)) 0 s"

lemma length_digit_chars [simp]: "length digit_chars = 36"
  by (simp add: digit_chars_def)

lemma distinct_digit_chars [simp]: "distinct digit_chars"
  by (simp add: digit_chars_def)

lemma index_byte_nth: "distinct s \<Longrightarrow> i < length s \<Longrightarrow> index_byte (s ! i) s = Some i"
proof (induction s arbitrary: i)
  case Nil
  then show ?case by simp
next
  case (Cons x s)
  then show ?case by (cases i) auto
qed

lemma digit_val_char [simp]: "d < 36 \<Longrightarrow> digit_val (digit_char d) = Some d"
  by (simp add: digit_char_def index_byte_nth)

lemma digit_char_in: "d < b \<Longrightarrow> b \<le> 36 \<Longrightarrow> digit_char d \<in> set (take b digit_chars)"
  by (auto simp: digit_char_def set_conv_nth intro!: exI [of _ d])

lemma undigits_snoc [simp]: "undigits b (s @ [c]) = undigits b s * b + the (digit_val c)"
  by (simp add: undigits_def)

lemma undigits_digits: "2 \<le> b \<Longrightarrow> b \<le> 36 \<Longrightarrow> undigits b (digits_base b n) = n"
proof (induction b n rule: digits_base.induct)
  case (1 b n)
  show ?case
  proof (cases "n < b")
    case True
    with "1.prems" show ?thesis
      by (subst digits_base.simps) (simp add: undigits_def del: digit_val.simps)
  next
    case False
    moreover have "n mod b < 36" using "1.prems" mod_less_divisor [of b n] by linarith
    ultimately show ?thesis
      using "1.IH" "1.prems" by (subst digits_base.simps) (simp del: digit_val.simps)
  qed
qed

lemma digits_base_inj: "2 \<le> b \<Longrightarrow> b \<le> 36 \<Longrightarrow> digits_base b m = digits_base b n \<Longrightarrow> m = n"
  by (metis undigits_digits)

lemma digits_base_not_Nil [simp]: "digits_base b n \<noteq> []"
  by (subst digits_base.simps) simp

lemma digits_base_set:
  "2 \<le> b \<Longrightarrow> b \<le> 36 \<Longrightarrow> set (digits_base b n) \<subseteq> set (take b digit_chars)"
proof (induction b n rule: digits_base.induct)
  case (1 b n)
  show ?case
  proof (cases "n < b")
    case True
    with "1.prems" show ?thesis by (subst digits_base.simps) (simp add: digit_char_in)
  next
    case False
    with "1" show ?thesis
      by (subst digits_base.simps) (simp add: digit_char_in)
  qed
qed

lemma take10_digit_chars: "take 10 digit_chars = ''0123456789''"
  by (simp add: digit_chars_def)

lemma digits10_set: "c \<in> set (digits_base 10 n) \<Longrightarrow> c \<in> set ''0123456789''"
  using digits_base_set [of 10 n] unfolding take10_digit_chars by (simp add: subset_iff)

lemma digits_base_set36: "2 \<le> b \<Longrightarrow> b \<le> 36 \<Longrightarrow> set (digits_base b n) \<subseteq> set digit_chars"
  using digits_base_set [of b n] set_take_subset [of b digit_chars] by blast

lemma format_int_set: "2 \<le> b \<Longrightarrow> b \<le> 36 \<Longrightarrow> set (format_int b i) \<subseteq> insert (CHR ''-'') (set digit_chars)"
  using digits_base_set36 [of b "nat i"] digits_base_set36 [of b "nat (- i)"]
  by (auto simp: format_int_def)

lemma minus_not_digit: "2 \<le> b \<Longrightarrow> b \<le> 36 \<Longrightarrow> CHR ''-'' \<notin> set (digits_base b n)"
  using digits_base_set36 [of b n] by (auto simp: digit_chars_def)

lemma format_int_inj:
  assumes "2 \<le> b" "b \<le> 36" "format_int b i = format_int b j"
  shows "i = j"
proof -
  have ne: "CHR ''-'' # xs \<noteq> digits_base b n" for xs n
    using minus_not_digit [OF assms(1,2), of n] by (metis list.set_intros(1))
  consider "i < 0" "j < 0" | "0 \<le> i" "0 \<le> j"
    using assms(3) ne ne [symmetric] unfolding format_int_def by (metis linorder_not_less)
  then show ?thesis
  proof cases
    case 1
    with assms have "nat (- i) = nat (- j)"
      by (auto simp: format_int_def intro: digits_base_inj)
    with 1 show ?thesis by simp
  next
    case 2
    with assms have "nat i = nat j"
      by (auto simp: format_int_def intro: digits_base_inj)
    with 2 show ?thesis by simp
  qed
qed

lemma show_int_inj: "show_int a = show_int b \<Longrightarrow> a = b"
proof -
  assume "show_int a = show_int b"
  then have "sint a = sint b"
    unfolding show_int_def by (rule format_int_inj [rotated 2]) simp_all
  then show ?thesis by (rule signed_word_eqI)
qed

lemma show_uint_inj: "show_uint a = show_uint b \<Longrightarrow> a = b"
proof -
  assume "show_uint a = show_uint b"
  then have "unat a = unat b"
    unfolding show_uint_def by (rule digits_base_inj [rotated 2]) simp_all
  then show ?thesis by (rule unsigned_word_eqI)
qed

lemma show_int_chars: "c \<in> set (show_int w) \<Longrightarrow> c \<in> insert (CHR ''-'') (set ''0123456789'')"
  unfolding show_int_def format_int_def by (auto dest: digits10_set split: if_splits)

end
