(* ===== verification/Ids.thy ===== *)
theory Ids
  imports Prelude
begin

text \<open>
  \<open>ID.go\<close>: the random identifiers of clients and objects. The source of randomness is the state
  of package \<open>math/rand\<close>: an unknown sequence of draws and a position in it; \<open>rand.Intn(n)\<close>
  reduces the next draw modulo \<open>n\<close>. Every statement about \<open>NewID\<close> holds for every sequence.
\<close>

section \<open>The random source\<close>

record rand =
  draws :: "nat \<Rightarrow> nat"
  drawn :: nat

definition rand_Intn :: "nat \<Rightarrow> rand \<Rightarrow> nat \<times> rand" where
  "rand_Intn n r = (draws r (drawn r) mod n, r\<lparr>drawn := Suc (drawn r)\<rparr>)"

text \<open>
  The package seeds the source with the time in nanoseconds when it is loaded; \<open>rand_Seed\<close>, what
  \<open>math/rand\<close> makes of a seed, is a parameter.
\<close>

definition init_rand :: "(go_int \<Rightarrow> rand) \<Rightarrow> go_int \<Rightarrow> rand" where
  "init_rand rand_Seed UnixNano = rand_Seed UnixNano"

section \<open>NewID\<close>

definition idChars :: string where
  "idChars = ''23456789ABCDEFGHJKLMNPQRSTWXYZabcdefghijkmnopqrstuvwxyz''"

definition idChars2 :: string where
  "idChars2 = ''1234567890abcdefghijklmnopqrstuvwxyzABCDEFGHIJKLMNOPQRSTUVWXYZ''"

definition idLen :: nat where
  "idLen = 16"

type_synonym ID = string

text \<open>The loop \<open>for i := range id\<close> over the positions of the array.\<close>

fun NewID_loop :: "nat list \<Rightarrow> ID \<Rightarrow> rand \<Rightarrow> ID \<times> rand" where
  "NewID_loop [] ident r = (ident, r)"
| "NewID_loop (i # js) ident r =
     (let (k, r') = rand_Intn (length idChars2) r in NewID_loop js (ident[i := idChars2 ! k]) r')"

definition NewID :: "rand \<Rightarrow> ID \<times> rand" where
  "NewID r =
     (let (ident, r') = NewID_loop [0..<idLen] (replicate idLen (CHR 0x00)) r
      in (ident[idLen - 1 := CHR ''!''], r'))"

text \<open>\<open>ID.String()\<close> copies the array into a string.\<close>

definition ID_String :: "ID \<Rightarrow> string" where
  "ID_String ident = ident"

section \<open>What an ID looks like\<close>

text \<open>The character that the draw at position \<open>i\<close> selects.\<close>

definition id_char_at :: "rand \<Rightarrow> nat \<Rightarrow> char" where
  "id_char_at r i = idChars2 ! (draws r (drawn r + i) mod length idChars2)"

lemma length_idChars2 [simp]: "length idChars2 = 62"
  by (simp add: idChars2_def)

lemma distinct_idChars2: "distinct idChars2"
  by (simp add: idChars2_def)

lemma NewID_loop_eq:
  "length ident = n \<Longrightarrow> m \<le> n \<Longrightarrow>
   NewID_loop [m..<n] ident r =
     (take m ident @ map (\<lambda>i. id_char_at r (i - m)) [m..<n], r\<lparr>drawn := drawn r + (n - m)\<rparr>)"
proof (induction "n - m" arbitrary: m ident r)
  case 0
  then show ?case by simp
next
  case (Suc k)
  then have "m < n" by simp
  let ?r = "r\<lparr>drawn := Suc (drawn r)\<rparr>" and ?c = "id_char_at r 0"
  have "NewID_loop [m..<n] ident r = NewID_loop [Suc m..<n] (ident[m := ?c]) ?r"
    using \<open>m < n\<close> by (simp add: upt_rec [of m n] rand_Intn_def id_char_at_def)
  also have "\<dots> = (take (Suc m) (ident[m := ?c]) @ map (\<lambda>i. id_char_at ?r (i - Suc m)) [Suc m..<n],
      ?r\<lparr>drawn := drawn ?r + (n - Suc m)\<rparr>)"
    using Suc.hyps Suc.prems by (intro Suc.hyps(1)) auto
  also have "map (\<lambda>i. id_char_at ?r (i - Suc m)) [Suc m..<n] = map (\<lambda>i. id_char_at r (i - m)) [Suc m..<n]"
    by (auto simp: id_char_at_def Suc_diff_Suc)
  also have "take (Suc m) (ident[m := ?c]) = take m ident @ [?c]"
    using Suc.hyps(2) Suc.prems by (simp add: take_Suc_conv_app_nth)
  finally show ?case using \<open>m < n\<close> by (simp add: upt_rec [of m n])
qed

lemma NewID_eq:
  "NewID r = (map (id_char_at r) [0..<15] @ ''!'', r\<lparr>drawn := drawn r + 16\<rparr>)"
proof -
  have "[0..<16] = [0..<15] @ [15::nat]" by (simp add: upt_rec)
  then have "map (id_char_at r) [0..<16] = map (id_char_at r) [0..<15] @ [id_char_at r 15]" by simp
  then show ?thesis
    by (simp add: NewID_def NewID_loop_eq idLen_def list_update_append)
qed

text \<open>An equation that is faster to evaluate.\<close>

lemma NewID_code [code]:
  "NewID r = (map (\<lambda>i. idChars2 ! (draws r (drawn r + i) mod 62)) [0..<15] @ ''!'', r\<lparr>drawn := drawn r + 16\<rparr>)"
  by (simp add: NewID_eq id_char_at_def)

lemma NewID_length: "length (fst (NewID r)) = 16"
  by (simp add: NewID_eq)

lemma id_char_in: "id_char_at r i \<in> set idChars2"
  by (simp add: id_char_at_def)

lemma NewID_chars: "c \<in> set (fst (NewID r)) \<Longrightarrow> c \<in> insert (CHR ''!'') (set idChars2)"
  using id_char_in by (auto simp: NewID_eq)

lemma NewID_no_special:
  "CHR '':'' \<notin> set (fst (NewID r))" "CHR ''{'' \<notin> set (fst (NewID r))" "fst (NewID r) \<noteq> []"
  using NewID_chars [of _ r] NewID_length [of r] by (auto simp: idChars2_def)

lemma NewID_inj:
  "fst (NewID r) = fst (NewID s) \<longleftrightarrow>
   (\<forall>i < 15. draws r (drawn r + i) mod 62 = draws s (drawn s + i) mod 62)"
  by (auto simp: NewID_eq id_char_at_def nth_eq_iff_index_eq [OF distinct_idChars2])

text \<open>
  C39: a new identifier has sixteen characters, the last one is an exclamation mark, the others are
  digits and letters (so it has no colon and no brace), it takes sixteen draws, and two identifiers
  are the same exactly when their first fifteen draws select the same characters.
\<close>

theorem NewID_shape:
  "length (fst (NewID r)) = 16 \<and> last (fst (NewID r)) = CHR ''!'' \<and>
   set (butlast (fst (NewID r))) \<subseteq> set idChars2 \<and>
   CHR '':'' \<notin> set (fst (NewID r)) \<and> CHR ''{'' \<notin> set (fst (NewID r)) \<and>
   drawn (snd (NewID r)) = drawn r + 16 \<and>
   (fst (NewID r) = fst (NewID s) \<longleftrightarrow>
      map (\<lambda>i. draws r (drawn r + i) mod 62) [0..<15] = map (\<lambda>i. draws s (drawn s + i) mod 62) [0..<15])"
proof -
  have "fst (NewID r) = fst (NewID s) \<longleftrightarrow>
      map (\<lambda>i. draws r (drawn r + i) mod 62) [0..<15] = map (\<lambda>i. draws s (drawn s + i) mod 62) [0..<15]"
    by (auto simp: NewID_inj)
  moreover have "set (butlast (fst (NewID r))) \<subseteq> set idChars2"
    using id_char_in [of r] by (auto simp: NewID_eq butlast_append)
  moreover have "last (fst (NewID r)) = CHR ''!''" "drawn (snd (NewID r)) = drawn r + 16"
    by (simp_all add: NewID_eq)
  ultimately show ?thesis using NewID_no_special NewID_length by blast
qed

end
