(* ===== verification/Tags.thy ===== *)
theory Tags
  imports Ids
begin

text \<open>
  \<open>Tag.go\<close>: the fields every synk object carries (identifier, subscription key as stored in the
  database, type key, version) and the four methods of the \<open>Object\<close> interface that \<open>Tag\<close>
  provides by embedding.
\<close>

record tag =
  TagID :: string
  TagSub :: string
  TagType :: string
  V :: go_uint

definition empty_tag :: tag where
  "empty_tag = \<lparr>TagID = '''', TagSub = '''', TagType = '''', V = 0\<rparr>"

definition TagInit :: "string \<Rightarrow> tag \<Rightarrow> rand \<Rightarrow> tag \<times> rand" where
  "TagInit typeKey t r =
     (let t1 = (if TagType t = '''' then t\<lparr>TagType := typeKey\<rparr> else t)
      in if TagID t1 = '''' then
           (let (ident, r') = NewID r in (t1\<lparr>TagID := ID_String ident\<rparr>, r'))
         else (t1, r))"

definition TagGetID :: "tag \<Rightarrow> string" where
  "TagGetID t = TagID t"

definition TagSetSub :: "string \<Rightarrow> tag \<Rightarrow> tag" where
  "TagSetSub sKey t = t\<lparr>TagSub := sKey\<rparr>"

definition Version :: "tag \<Rightarrow> go_uint" where
  "Version t = V t"

text \<open>The increment of the version in the generated \<open>Resolve\<close> methods; it wraps around.\<close>

definition bump_version :: "tag \<Rightarrow> tag" where
  "bump_version t = t\<lparr>V := V t + 1\<rparr>"

lemmas tag_defs = TagInit_def TagGetID_def TagSetSub_def Version_def bump_version_def ID_String_def

lemma TagInit_simps [simp]:
  "TagSub (fst (TagInit k t r)) = TagSub t"
  "V (fst (TagInit k t r)) = V t"
  "TagType (fst (TagInit k t r)) = (if TagType t = '''' then k else TagType t)"
  "TagID (fst (TagInit k t r)) = (if TagID t = '''' then fst (NewID r) else TagID t)"
  by (simp_all add: tag_defs Let_def split: prod.split)

lemma TagInit_id_nonempty: "TagID (fst (TagInit k t r)) \<noteq> ''''"
  using NewID_no_special(3) by simp

lemma TagInit_idem: "k \<noteq> '''' \<Longrightarrow> TagInit k (fst (TagInit k t r)) r' = (fst (TagInit k t r), r')"
  using TagInit_id_nonempty [of k t r] by (simp add: TagInit_def [of k "fst (TagInit k t r)"])

lemma TagInit_keeps: "TagID t \<noteq> '''' \<Longrightarrow> TagType t \<noteq> '''' \<Longrightarrow> TagInit k t r = (t, r)"
  by (simp add: TagInit_def)

text \<open>
  \<open>TagInit\<close> only fills what is unset: it keeps a given identifier and type, never touches the
  stored subscription key and the version, leaves no empty identifier, draws randomness only for a
  missing identifier, and called again with a non-empty type key it changes nothing.
\<close>

theorem TagInit_fills:
  "TagID (fst (TagInit k t r)) = (if TagID t = '''' then fst (NewID r) else TagID t) \<and>
   TagType (fst (TagInit k t r)) = (if TagType t = '''' then k else TagType t) \<and>
   TagSub (fst (TagInit k t r)) = TagSub t \<and> Version (fst (TagInit k t r)) = Version t \<and>
   TagGetID (fst (TagInit k t r)) \<noteq> '''' \<and>
   snd (TagInit k t r) = (if TagID t = '''' then snd (NewID r) else r) \<and>
   TagInit (c # k') (fst (TagInit (c # k') t r)) r' = (fst (TagInit (c # k') t r), r')"
proof -
  have "snd (TagInit k t r) = (if TagID t = '''' then snd (NewID r) else r)"
    by (simp add: TagInit_def Let_def split: prod.split)
  then show ?thesis
    using TagInit_idem [of "c # k'" t r r'] TagInit_id_nonempty [of k t r] by (simp add: Version_def TagGetID_def)
qed

end
