(* ===== verification/JsonRoundtrip.thy ===== *)
theory JsonRoundtrip
  imports JsonLemmas
begin

text \<open>
  A well-formed tree (its strings and keys are valid UTF-8, its number literals match the JSON
  number grammar) is read back by \<open>json_parse\<close> from what \<open>render\<close> writes. The numbers the
  program renders are decimal \<open>int\<close> and \<open>uint\<close> values, which are well-formed literals and
  convert back to the same machine integer.
\<close>

section \<open>Well-formed trees\<close>

definition number_ok :: "string \<Rightarrow> bool" where
  "number_ok l \<longleftrightarrow> scan_number l = Some (l, [])"

fun wf_json :: "json \<Rightarrow> bool" where
  "wf_json JNull = True"
| "wf_json (JBool b) = True"
| "wf_json (JNum l) = number_ok l"
| "wf_json (JStr s) = valid_utf8 s"
| "wf_json (JArr vs) = list_all wf_json vs"
| "wf_json (JObj ms) = list_all (\<lambda>m. valid_utf8 (fst m) \<and> wf_json (snd m)) ms"

section \<open>Numbers followed by a delimiter\<close>

text \<open>What may follow a value: the end of the input or a comma or a closing bracket.\<close>

definition delimited :: "string \<Rightarrow> bool" where
  "delimited s \<longleftrightarrow> (case s of [] \<Rightarrow> True | c # _ \<Rightarrow> c = CHR '','' \<or> c = CHR '']'' \<or> c = CHR ''}'')"

lemma delimited_simps [simp]:
  "delimited []" "delimited (CHR '','' # s)" "delimited (CHR '']'' # s)" "delimited (CHR ''}'' # s)"
  by (simp_all add: delimited_def)

lemma delimited_not_digit: "delimited (c # s) \<Longrightarrow> \<not> is_digit c \<and> c \<noteq> CHR ''.'' \<and> c \<noteq> CHR ''e'' \<and> c \<noteq> CHR ''E'' \<and> c \<noteq> CHR ''+'' \<and> c \<noteq> CHR ''-''"
  by (auto simp: delimited_def is_digit_def)

lemma dropWhile_digits_append:
  assumes "delimited s"
  shows "takeWhile is_digit (r @ s) = takeWhile is_digit r \<and> dropWhile is_digit (r @ s) = dropWhile is_digit r @ s"
proof -
  have "takeWhile is_digit s = []" "dropWhile is_digit s = s"
    using assms delimited_not_digit by (cases s; simp)+
  then show ?thesis
    by (induction r) simp_all
qed

lemma scan_exp_append:
  assumes "scan_exp acc r = Some (l, [])" "delimited s"
  shows "scan_exp acc (r @ s) = Some (l, s)"
proof (cases r)
  case Nil
  with assms show ?thesis
    using delimited_not_digit by (cases s) (auto simp: scan_exp_def)
next
  case (Cons c u)
  show ?thesis
  proof (cases u)
    case Nil
    with Cons assms show ?thesis by (auto simp: scan_exp_def Let_def split: if_splits)
  next
    case u: (Cons d v)
    show ?thesis
      using Cons assms(1) u dropWhile_digits_append [OF assms(2), of v]
        dropWhile_digits_append [OF assms(2), of u]
      by (auto simp: scan_exp_def Let_def split: if_splits)
  qed
qed

lemma scan_frac_append:
  assumes "scan_frac acc r = Some (l, [])" "delimited s"
  shows "scan_frac acc (r @ s) = Some (l, s)"
proof (cases r)
  case Nil
  with assms show ?thesis
    using delimited_not_digit scan_exp_append [of acc "[]" l s]
    by (cases s) (auto simp: scan_frac_def)
next
  case (Cons c u)
  then show ?thesis
    using assms dropWhile_digits_append [OF assms(2), of u] scan_exp_append [of acc "c # u" l s]
      scan_exp_append [of _ "dropWhile is_digit u" l s]
    by (auto simp: scan_frac_def split: if_splits)
qed

lemma scan_unsigned_append:
  assumes "scan_unsigned sg r = Some (l, [])" "delimited s"
  shows "scan_unsigned sg (r @ s) = Some (l, s)"
proof (cases r)
  case Nil
  with assms show ?thesis by (simp add: scan_unsigned_def)
next
  case (Cons c u)
  then show ?thesis
    using assms dropWhile_digits_append [OF assms(2), of r] scan_frac_append [of _ u l s]
      scan_frac_append [of _ "dropWhile is_digit r" l s]
    by (auto simp: scan_unsigned_def split: if_splits)
qed

lemma scan_number_append:
  assumes "number_ok l" "delimited s"
  shows "scan_number (l @ s) = Some (l, s)"
  using assms scan_unsigned_append [of "[]" l l s] scan_unsigned_append [of "[CHR ''-'']" "tl l" l s]
  by (cases l) (auto simp: number_ok_def scan_number_def split: if_splits)

lemma number_ok_hd: "number_ok l \<Longrightarrow> l \<noteq> [] \<and> (hd l = CHR ''-'' \<or> is_digit (hd l))"
  by (cases l) (auto simp: number_ok_def scan_number_def scan_unsigned_def is_digit_def split: if_splits)

section \<open>The round trip\<close>

lemma expect_Cons: "\<not> is_ws x \<Longrightarrow> expect c (x # r) = (if x = c then Some r else None)"
  by (simp add: expect_def skip_ws_def)

text \<open>The first byte of a rendered value is not white space and tells the kind of the value.\<close>

definition first_byte_ok :: "json \<Rightarrow> char \<Rightarrow> bool" where
  "first_byte_ok j c \<longleftrightarrow> \<not> is_ws c \<and> c \<noteq> CHR '']'' \<and>
     (c = CHR ''['' \<longleftrightarrow> (\<exists>vs. j = JArr vs)) \<and> (c = CHR ''{'' \<longleftrightarrow> (\<exists>ms. j = JObj ms))"

lemma render_first: "wf_json j \<Longrightarrow> \<exists>c s. render j = c # s \<and> first_byte_ok j c"
proof (cases j)
  case (JNum l)
  assume "wf_json j"
  with JNum number_ok_hd [of l] show ?thesis
    by (cases l) (auto simp: first_byte_ok_def is_ws_def is_digit_def)
qed (auto simp: first_byte_ok_def is_ws_def quote_def)

lemma p_scalar_render:
  assumes "wf_json j" "delimited s" "\<nexists>vs. j = JArr vs" "\<nexists>ms. j = JObj ms"
  shows "p_scalar (render j @ s) = Some (j, s)"
proof (cases j)
  case (JStr t)
  with assms show ?thesis by (simp add: p_scalar_def quote_def p_string_escape)
next
  case (JNum l)
  with assms number_ok_hd [of l] scan_number_append [of l s] show ?thesis
    by (cases l) (auto simp: p_scalar_def is_digit_def)
next
  case (JBool b)
  then show ?thesis by (simp add: p_scalar_def literal_at_def has_prefix_def)
qed (use assms in \<open>auto simp: p_scalar_def literal_at_def has_prefix_def\<close>)

lemma p_value_scalar:
  assumes "wf_json j" "delimited s" "\<nexists>vs. j = JArr vs" "\<nexists>ms. j = JObj ms"
  shows "p_value (Suc f) (render j @ s) = Some (j, s)"
proof -
  from render_first [OF assms(1)] obtain c u where c: "render j = c # u" "first_byte_ok j c" by blast
  then have "expect (CHR ''['') (render j @ s) = None" "expect (CHR ''{'') (render j @ s) = None"
    "skip_ws (render j @ s) = render j @ s"
    using assms(3,4) by (simp_all add: first_byte_ok_def expect_Cons skip_ws_def)
  then show ?thesis using p_scalar_render [OF assms] by (simp add: p_value.simps(2))
qed

lemma p_render:
  "wf_json j \<Longrightarrow> delimited s \<Longrightarrow> 2 * length (render j) < f \<Longrightarrow> p_value f (render j @ s) = Some (j, s)"
  "list_all wf_json vs \<Longrightarrow> vs \<noteq> [] \<Longrightarrow> Suc (2 * length (render_elems vs)) < f \<Longrightarrow>
     p_elems f (render_elems vs @ CHR '']'' # s) = Some (vs, s)"
  "list_all (\<lambda>m. valid_utf8 (fst m) \<and> wf_json (snd m)) ms \<Longrightarrow> ms \<noteq> [] \<Longrightarrow> 2 * length (render_members ms) < f \<Longrightarrow>
     p_members f (render_members ms @ CHR ''}'' # s) = Some (ms, s)"
proof (induction j and vs and ms arbitrary: f s and f s and f s
    rule: render_render_elems_render_members.induct)
  case (5 vs)
  then obtain g where f: "f = Suc g" by (cases f) auto
  show ?case
  proof (cases "vs = []")
    case True
    then show ?thesis by (simp add: f p_value.simps(2) expect_Cons is_ws_def)
  next
    case False
    then obtain w ws where w: "vs = w # ws" by (cases vs) auto
    with "5.prems" render_first [of w] obtain c u where "render w = c # u" "first_byte_ok w c" by auto
    then have "expect (CHR '']'') (render_elems vs @ CHR '']'' # s) = None"
      by (simp add: w first_byte_ok_def expect_Cons)
    with "5.IH" [of g s] "5.prems" False show ?thesis
      by (simp add: f p_value.simps(2) expect_Cons is_ws_def)
  qed
next
  case (6 ms)
  then obtain g where f: "f = Suc g" by (cases f) auto
  show ?case
  proof (cases "ms = []")
    case True
    then show ?thesis by (simp add: f p_value.simps(2) expect_Cons is_ws_def)
  next
    case False
    then have "expect (CHR ''}'') (render_members ms @ CHR ''}'' # s) = None"
      by (cases ms) (simp_all add: quote_def expect_Cons is_ws_def)
    with "6.IH" [of g s] "6.prems" False show ?thesis
      by (simp add: f p_value.simps(2) expect_Cons is_ws_def)
  qed
next
  case (8 v vs)
  then obtain g where f: "f = Suc g" by (cases f) auto
  show ?case
  proof (cases "vs = []")
    case True
    with "8.IH"(1) [of "CHR '']'' # s" g] "8.prems" show ?thesis
      by (simp add: f p_elems.simps(2) expect_Cons is_ws_def)
  next
    case False
    with "8.IH"(1) [of "CHR '','' # render_elems vs @ CHR '']'' # s" g] "8.IH"(2) [of g s] "8.prems"
    show ?thesis by (simp add: f p_elems.simps(2) expect_Cons is_ws_def)
  qed
next
  case (10 m ms)
  then obtain g where f: "f = Suc g" by (cases f) auto
  obtain k v where m: "m = (k, v)" by (cases m)
  show ?case
  proof (cases "ms = []")
    case True
    with "10.IH"(1) [of "CHR ''}'' # s" g] "10.prems" show ?thesis
      by (simp add: f m p_members.simps(2) expect_Cons is_ws_def quote_def p_string_escape)
  next
    case False
    with "10.IH"(1) [of "CHR '','' # render_members ms @ CHR ''}'' # s" g] "10.IH"(2) [of g s] "10.prems"
    show ?thesis
      by (simp add: f m p_members.simps(2) expect_Cons is_ws_def quote_def p_string_escape)
  qed
next
  case 1
  then show ?case using p_value_scalar [of JNull s "f - 1"] by (cases f) auto
next
  case (2 b)
  then show ?case using p_value_scalar [of "JBool b" s "f - 1"] by (cases f) (auto split: if_splits)
next
  case (3 l)
  then show ?case using p_value_scalar [of "JNum l" s "f - 1"] by (cases f) auto
next
  case (4 t)
  then show ?case using p_value_scalar [of "JStr t" s "f - 1"] by (cases f) auto
qed simp_all

lemma parse_render: "wf_json j \<Longrightarrow> json_parse (render j) = Some j"
  using p_render(1) [of j "[]" "Suc (2 * length (render j))"] by (simp add: json_parse_def skip_ws_def)

lemma render_inj: "wf_json a \<Longrightarrow> wf_json b \<Longrightarrow> render a = render b \<Longrightarrow> a = b"
  by (metis option.inject parse_render)

end
