(* ===== verification/JsonDecode.thy ===== *)
theory JsonDecode
  imports JsonRoundtrip
begin

text \<open>
  \<open>json.Unmarshal\<close> into Go values of known type: the conversion of number literals to 64-bit
  integers, the matching of object keys to struct fields (an exact match first, then a match up to
  case folding), and the struct decoder, which goes on after a type error and reports the first one
  at the end. Error values carry a short text in place of the exact wording of the Go library.
\<close>

section \<open>Number literals\<close>

definition in_int64 :: "int \<Rightarrow> bool" where
  "in_int64 i \<longleftrightarrow> - (2 ^ 63) \<le> i \<and> i < 2 ^ 63"

text \<open>\<open>strconv.ParseInt(l, 10, 64)\<close> and \<open>strconv.ParseUint(l, 10, 64)\<close> on JSON literals.\<close>

definition parse_int64 :: "string \<Rightarrow> go_int option" where
  "parse_int64 l =
     (let neg = has_prefix l ''-''; ds = (if neg then tl l else l);
          i = (if neg then - int (undigits 10 ds) else int (undigits 10 ds))
      in if ds \<noteq> [] \<and> list_all is_digit ds \<and> in_int64 i then Some (word_of_int i) else None)"

definition parse_uint64 :: "string \<Rightarrow> go_uint option" where
  "parse_uint64 l =
     (if l \<noteq> [] \<and> list_all is_digit l \<and> undigits 10 l < 2 ^ 64
      then Some (of_nat (undigits 10 l)) else None)"

lemma digits10_all: "list_all is_digit (digits_base 10 n)"
  by (auto simp: list_all_iff is_digit_def dest: digits10_set)

lemma digits10_hd: "hd (digits_base 10 n) \<noteq> CHR ''-''"
  using digits10_all [of n] by (cases "digits_base 10 n") (auto simp: is_digit_def)

lemma digits10_zero [simp]: "digits_base 10 0 = ''0''"
  by (simp add: digits_base.simps digit_char_def digit_chars_def)

lemma digits10_hd_zero: "hd (digits_base 10 n) = CHR ''0'' \<Longrightarrow> digits_base 10 n = ''0''"
proof (induction n rule: less_induct)
  case (less n)
  show ?case
  proof (cases "n < 10")
    case True
    with less.prems show ?thesis
      using index_byte_nth [of digit_chars n]
      by (simp add: digits_base.simps [of 10 n] digit_char_def digit_chars_def)
  next
    case False
    then have eq: "digits_base 10 n = digits_base 10 (n div 10) @ [digit_char (n mod 10)]"
      by (simp add: digits_base.simps [of 10 n])
    with less have "digits_base 10 (n div 10) = ''0''" using False by simp
    then have "n div 10 = 0" using digits_base_inj [of 10 "n div 10" 0] by simp
    with False show ?thesis by simp
  qed
qed

lemma all_digits_while:
  "list_all is_digit u \<Longrightarrow> takeWhile is_digit u = u" "list_all is_digit u \<Longrightarrow> dropWhile is_digit u = []"
  by (induction u) simp_all

lemma scan_unsigned_digits: "scan_unsigned sg (digits_base 10 n) = Some (sg @ digits_base 10 n, [])"
proof (cases "hd (digits_base 10 n) = CHR ''0''")
  case True
  then show ?thesis
    by (simp add: digits10_hd_zero scan_unsigned_def scan_frac_def scan_exp_def)
next
  case False
  obtain c u where "digits_base 10 n = c # u" "is_digit c" "list_all is_digit u"
    using digits10_all [of n] by (cases "digits_base 10 n") auto
  with False show ?thesis by (auto simp: all_digits_while scan_unsigned_def scan_frac_def scan_exp_def)
qed

lemma number_ok_digits [simp]: "number_ok (digits_base 10 n)"
  using digits10_hd [of n] scan_unsigned_digits [of "[]" n]
  by (cases "digits_base 10 n") (auto simp: number_ok_def scan_number_def)

lemma number_ok_show_uint [simp]: "number_ok (show_uint w)"
  by (simp add: show_uint_def)

lemma number_ok_show_int [simp]: "number_ok (show_int w)"
  using number_ok_digits scan_unsigned_digits [of "''-''"]
  by (simp add: show_int_def format_int_def) (simp add: number_ok_def scan_number_def)

lemma has_prefix_minus_digits [simp]: "\<not> has_prefix (digits_base 10 n) ''-''"
  using digits10_hd [of n] by (cases "digits_base 10 n") (auto simp: has_prefix_def)

lemma undigits10 [simp]: "undigits 10 (digits_base 10 n) = n"
  by (simp add: undigits_digits)

lemma sint_in_int64: "in_int64 (sint (w :: go_int))"
  using sint_range_size [of w] by (simp add: in_int64_def size_word.rep_eq)

lemma parse_int64_show [simp]: "parse_int64 (show_int w) = Some w"
  using sint_in_int64 [of w]
  by (simp add: parse_int64_def show_int_def format_int_def Let_def digits10_all has_prefix_def [of "_ # _"])

lemma parse_uint64_show [simp]: "parse_uint64 (show_uint w) = Some w"
  using unsigned_less [of w, where ?'a = nat]
  by (simp add: parse_uint64_def show_uint_def digits10_all)

section \<open>Fields\<close>

text \<open>
  Keys match up to ASCII case; the Kelvin sign and the long s, whose simple folds are ASCII
  letters, match \<open>k\<close> and \<open>s\<close>.
\<close>

definition ascii_lower :: "char \<Rightarrow> char" where
  "ascii_lower c = (if byte_in 0x41 c 0x5A then char_of (byte c + 0x20) else c)"

fun fold_key :: "string \<Rightarrow> string" where
  "fold_key [] = []"
| "fold_key (a # r) =
     (if a = CHR 0xC5 \<and> take 1 r = [CHR 0xBF] then CHR ''s'' # fold_key (drop 1 r)
      else if a = CHR 0xE2 \<and> take 2 r = [CHR 0x84, CHR 0xAA] then CHR ''k'' # fold_key (drop 2 r)
      else ascii_lower a # fold_key r)"

definition find_field :: "string list \<Rightarrow> string \<Rightarrow> string option" where
  "find_field names k =
     (if k \<in> set names then Some k else List.find (\<lambda>n. fold_key n = fold_key k) names)"

section \<open>Decoding into Go values\<close>

type_synonym 'a decoded = "error option \<times> 'a"

definition syntax_error :: error where
  "syntax_error = ''json: syntax error''"

definition type_error :: "string \<Rightarrow> error" where
  "type_error t = ''json: cannot unmarshal into Go value of type '' @ t"

text \<open>Scalars: \<open>null\<close> leaves the old value, a value of another kind is a type error.\<close>

definition decode_string :: "json \<Rightarrow> string \<Rightarrow> string decoded" where
  "decode_string j old =
     (case j of JStr s \<Rightarrow> (None, s) | JNull \<Rightarrow> (None, old) | _ \<Rightarrow> (Some (type_error ''string''), old))"

definition decode_int :: "json \<Rightarrow> go_int \<Rightarrow> go_int decoded" where
  "decode_int j old =
     (case j of
        JNum l \<Rightarrow> (case parse_int64 l of Some w \<Rightarrow> (None, w) | None \<Rightarrow> (Some (type_error ''int''), old))
      | JNull \<Rightarrow> (None, old)
      | _ \<Rightarrow> (Some (type_error ''int''), old))"

definition decode_uint :: "json \<Rightarrow> go_uint \<Rightarrow> go_uint decoded" where
  "decode_uint j old =
     (case j of
        JNum l \<Rightarrow> (case parse_uint64 l of Some w \<Rightarrow> (None, w) | None \<Rightarrow> (Some (type_error ''uint''), old))
      | JNull \<Rightarrow> (None, old)
      | _ \<Rightarrow> (Some (type_error ''uint''), old))"

definition first_error :: "error option \<Rightarrow> error option \<Rightarrow> error option" where
  "first_error e e' = (case e of Some _ \<Rightarrow> e | None \<Rightarrow> e')"

lemma first_error_simps [simp]: "first_error None e = e" "first_error (Some x) e = Some x"
  by (simp_all add: first_error_def)

text \<open>\<open>[]string\<close>: \<open>null\<close> is the nil slice, every element starts from the empty string.\<close>

fun decode_elems :: "json list \<Rightarrow> string list decoded" where
  "decode_elems [] = (None, [])"
| "decode_elems (v # vs) =
     (let (e, s) = decode_string v ''''; (e', ss) = decode_elems vs in (first_error e e', s # ss))"

definition decode_strings :: "json \<Rightarrow> string list \<Rightarrow> string list decoded" where
  "decode_strings j old =
     (case j of
        JArr vs \<Rightarrow> decode_elems vs
      | JNull \<Rightarrow> (None, [])
      | _ \<Rightarrow> (Some (type_error ''[]string''), old))"

text \<open>
  Structs: members are stored in the order of the input (a later duplicate overwrites), unknown
  keys are skipped, the first error is kept.
\<close>

type_synonym 'r setter = "string \<Rightarrow> json \<Rightarrow> 'r \<Rightarrow> 'r decoded"

fun decode_members :: "string list \<Rightarrow> 'r setter \<Rightarrow> (string \<times> json) list \<Rightarrow> 'r \<Rightarrow> 'r decoded" where
  "decode_members names set_field [] r = (None, r)"
| "decode_members names set_field (m # ms) r =
     (let (e, r1) = (case find_field names (fst m) of
                       None \<Rightarrow> (None, r)
                     | Some n \<Rightarrow> set_field n (snd m) r);
          (e', r2) = decode_members names set_field ms r1
      in (first_error e e', r2))"

definition decode_struct :: "string list \<Rightarrow> 'r setter \<Rightarrow> json \<Rightarrow> 'r \<Rightarrow> 'r decoded" where
  "decode_struct names set_field j r =
     (case j of
        JObj ms \<Rightarrow> decode_members names set_field ms r
      | JNull \<Rightarrow> (None, r)
      | _ \<Rightarrow> (Some (type_error ''struct''), r))"

text \<open>\<open>json.Unmarshal(data, &v)\<close>: nothing is stored when the input is not valid JSON.\<close>

definition unmarshal :: "string list \<Rightarrow> 'r setter \<Rightarrow> bytes \<Rightarrow> 'r \<Rightarrow> 'r decoded" where
  "unmarshal names set_field data r =
     (case json_parse data of
        None \<Rightarrow> (Some syntax_error, r)
      | Some j \<Rightarrow> decode_struct names set_field j r)"

text \<open>\<open>json.Marshal\<close> where the encoding of a value may fail.\<close>

definition marshal :: "error + json \<Rightarrow> error + bytes" where
  "marshal v = map_sum id render v"

lemma marshal_simps [simp]: "marshal (Inl e) = Inl e" "marshal (Inr j) = Inr (render j)"
  by (simp_all add: marshal_def)

lemma find_field_in [simp]: "n \<in> set names \<Longrightarrow> find_field names n = Some n"
  by (simp add: find_field_def)

lemma find_field_Some: "find_field names k = Some n \<Longrightarrow> n \<in> set names"
  by (auto simp: find_field_def find_Some_iff split: if_splits)

lemma decode_elems_strings [simp]: "decode_elems (map JStr ss) = (None, ss)"
  by (induction ss) (simp_all add: decode_string_def)

lemma decode_simps [simp]:
  "decode_string (JStr s) old = (None, s)"
  "decode_int (JNum (show_int w)) oi = (None, w)"
  "decode_uint (JNum (show_uint w)) oi = (None, w)"
  "decode_strings (JArr (map JStr ss)) os = (None, ss)"
  by (simp_all add: decode_string_def decode_int_def decode_uint_def decode_strings_def)

lemma unmarshal_render:
  "wf_json j \<Longrightarrow> unmarshal names f (render j) r = decode_struct names f j r"
  by (simp add: unmarshal_def parse_render)

end
