(* ===== verification/Objects.thy ===== *)
theory Objects
  imports Tags JsonDecode
begin

text \<open>
  \<open>Interfaces.go\<close>: the interfaces \<open>Object\<close> and \<open>Initializer\<close>. A Go interface value carries
  the methods of its dynamic type; here they are the fields of a record that every operation of the
  library takes as an argument, with \<open>'o\<close> the type of the objects and \<open>'d\<close> that of the
  diffs which \<open>State\<close> and \<open>Resolve\<close> return. The two locales say what the library expects of
  an implementation; the objects of package \<open>stest\<close> interpret them.
\<close>

section \<open>The interface\<close>

record ('o, 'd) object_ops =
  obj_TypeKey :: "'o \<Rightarrow> string"
  obj_GetSubKey :: "'o \<Rightarrow> string"
  obj_GetPrevSubKey :: "'o \<Rightarrow> string"
  obj_State :: "'o \<Rightarrow> 'd"
  obj_Resolve :: "'o \<Rightarrow> 'd \<times> 'o"
  obj_Changed :: "'o \<Rightarrow> bool"
  obj_Init :: "'o \<Rightarrow> 'o"
  obj_Copy :: "'o \<Rightarrow> 'o"
  obj_Version :: "'o \<Rightarrow> go_uint"
  obj_TagInit :: "string \<Rightarrow> 'o \<Rightarrow> rand \<Rightarrow> 'o \<times> rand"
  obj_TagGetID :: "'o \<Rightarrow> string"
  obj_TagSetSub :: "string \<Rightarrow> 'o \<Rightarrow> 'o"
  \<comment> \<open>\<open>obj.(Initializer)\<close> followed by \<open>OnCreate()\<close>; \<open>None\<close> where the assertion fails\<close>
  obj_OnCreate :: "'o \<Rightarrow> 'o option"
  \<comment> \<open>the encoding of \<open>encoding/json\<close> for the diff and the object\<close>
  obj_MarshalDiff :: "'d \<Rightarrow> error + json"
  obj_MarshalObj :: "'o \<Rightarrow> error + json"
  obj_Unmarshal :: "bytes \<Rightarrow> 'o \<Rightarrow> 'o decoded"

text \<open>
  The type assertion \<open>if initer, ok := obj.(Initializer); ok { initer.OnCreate() }\<close> that both
  database back ends perform on a new object.
\<close>

definition run_OnCreate :: "('o, 'd) object_ops \<Rightarrow> 'o \<Rightarrow> 'o" where
  "run_OnCreate ops x = (case obj_OnCreate ops x of Some x' \<Rightarrow> x' | None \<Rightarrow> x)"

text \<open>The members of a JSON object as a map; a diff and a state are objects.\<close>

definition json_fields :: "json \<Rightarrow> string \<rightharpoonup> json" where
  "json_fields j = (case j of JObj ms \<Rightarrow> map_of ms | _ \<Rightarrow> Map.empty)"

text \<open>
  Struct fields tagged \<open>omitempty\<close> whose value may be empty (\<open>None\<close>); the encoder leaves
  the empty ones out.
\<close>

fun omitempty :: "(string \<times> json option) list \<Rightarrow> (string \<times> json) list" where
  "omitempty [] = []"
| "omitempty ((k, Some v) # fs) = (k, v) # omitempty fs"
| "omitempty ((k, None) # fs) = omitempty fs"

lemma omitempty_keys: "(k, v) \<in> set (omitempty fs) \<longleftrightarrow> (k, Some v) \<in> set fs"
  by (induction fs rule: omitempty.induct) auto

lemma map_of_omitempty:
  "distinct (map fst fs) \<Longrightarrow> map_of (omitempty fs) k = Option.bind (map_of fs k) (\<lambda>v. v)"
proof (induction fs rule: omitempty.induct)
  case (3 k' fs)
  then show ?case by (auto simp: map_of_eq_None_iff [THEN iffD2] split: option.splits)
qed auto

text \<open>Overlaying a second list of fields with the same names: its non-empty fields win.\<close>

definition overlay :: "(string \<times> json option) list \<Rightarrow> (string \<times> json option) list \<Rightarrow> (string \<times> json option) list" where
  "overlay fs gs = map2 (\<lambda>f g. (fst f, case snd g of Some v \<Rightarrow> Some v | None \<Rightarrow> snd f)) fs gs"

lemma map_of_overlay:
  "length fs = length gs \<Longrightarrow> map fst fs = map fst gs \<Longrightarrow>
   map_of (overlay fs gs) k =
     (case map_of gs k of
        None \<Rightarrow> None
      | Some b \<Rightarrow> map_option (\<lambda>a. case b of Some v \<Rightarrow> Some v | None \<Rightarrow> a) (map_of fs k))"
  by (induction fs gs rule: list_induct2) (auto simp: overlay_def cong: option.case_cong)

lemma map_fst_overlay: "map fst fs = map fst gs \<Longrightarrow> map fst (overlay fs gs) = map fst fs"
proof -
  assume "map fst fs = map fst gs"
  then have "length fs = length gs" by (rule map_eq_imp_length_eq)
  then show ?thesis by (induction fs gs rule: list_induct2) (simp_all add: overlay_def)
qed

lemma omitempty_overlay:
  assumes "map fst fs = map fst gs" "distinct (map fst fs)"
  shows "map_of (omitempty fs) ++ map_of (omitempty gs) = map_of (omitempty (overlay fs gs))"
proof
  fix k
  have "length fs = length gs" using assms(1) by (rule map_eq_imp_length_eq)
  moreover have "map_of fs k = None \<longleftrightarrow> map_of gs k = None"
    using arg_cong [OF assms(1), of set] by (simp add: map_of_eq_None_iff)
  ultimately show "(map_of (omitempty fs) ++ map_of (omitempty gs)) k = map_of (omitempty (overlay fs gs)) k"
    using assms map_fst_overlay [OF assms(1)]
    by (auto simp: map_of_omitempty map_of_overlay map_add_def split: option.split)
qed

text \<open>The encoding of \<open>int\<close> and \<open>uint\<close> fields.\<close>

abbreviation jint :: "go_int \<Rightarrow> json" where "jint w \<equiv> JNum (show_int w)"
abbreviation juint :: "go_uint \<Rightarrow> json" where "juint w \<equiv> JNum (show_uint w)"

text \<open>A pointer field of a diff: nil when the value did not change.\<close>

definition changed_to :: "'a \<Rightarrow> 'a \<Rightarrow> 'a option" where
  "changed_to old new = (if new = old then None else Some new)"

lemma changed_to_simps [simp]:
  "changed_to p p = None" "q \<noteq> p \<Longrightarrow> changed_to p q = Some q"
  "changed_to p q = None \<longleftrightarrow> q = p"
  by (simp_all add: changed_to_def)

lemma changed_to_case: "d = changed_to p (case d of None \<Rightarrow> p | Some v \<Rightarrow> v) \<longleftrightarrow> d \<noteq> Some p"
  by (cases d) (auto simp: changed_to_def)

lemma get_unchanged: "d \<noteq> Some p \<Longrightarrow> (case d of Some v \<Rightarrow> v | None \<Rightarrow> p) = p \<longleftrightarrow> d = None"
  by (cases d) auto

lemma overlay_entry:
  "Some (f (case d of Some v \<Rightarrow> v | None \<Rightarrow> w)) = (case map_option f d of Some v \<Rightarrow> Some v | None \<Rightarrow> Some (f w))"
  by (cases d) simp_all

text \<open>
  The subscription key stored with an object (the \<open>sub\<close> field of its document) is the one its
  clients know it under.
\<close>

definition sub_agrees :: "('o, 'd) object_ops \<Rightarrow> ('o \<Rightarrow> tag) \<Rightarrow> 'o \<Rightarrow> bool" where
  "sub_agrees ops tag_of x \<longleftrightarrow> TagSub (tag_of x) = obj_GetPrevSubKey ops x"

section \<open>The contract\<close>

text \<open>The methods that come from the embedded \<open>Tag\<close>.\<close>

locale synk_tagged =
  fixes ops :: "('o, 'd) object_ops" and tag_of :: "'o \<Rightarrow> tag"
  assumes get_id: "obj_TagGetID ops x = TagID (tag_of x)"
    and version: "obj_Version ops x = V (tag_of x)"
    and init_tag: "tag_of (fst (obj_TagInit ops k x r)) = fst (TagInit k (tag_of x) r)"
    and init_rand: "snd (obj_TagInit ops k x r) = snd (TagInit k (tag_of x) r)"
    and set_sub_tag: "tag_of (obj_TagSetSub ops s x) = TagSetSub s (tag_of x)"
begin

lemma init_id_nonempty: "obj_TagGetID ops (fst (obj_TagInit ops k x r)) \<noteq> ''''"
  by (simp only: get_id init_tag TagInit_id_nonempty not_False_eq_True)

lemma init_id: "obj_TagGetID ops (fst (obj_TagInit ops k x r)) =
    (if obj_TagGetID ops x = '''' then fst (NewID r) else obj_TagGetID ops x)"
  by (simp add: get_id init_tag)

lemma init_version: "obj_Version ops (fst (obj_TagInit ops k x r)) = obj_Version ops x"
  by (simp add: version init_tag)

lemma set_sub_id: "obj_TagGetID ops (obj_TagSetSub ops s x) = obj_TagGetID ops x"
  by (simp add: get_id set_sub_tag tag_defs)

lemma set_sub_version: "obj_Version ops (obj_TagSetSub ops s x) = obj_Version ops x"
  by (simp add: version set_sub_tag tag_defs)

lemma set_sub_sub: "TagSub (tag_of (obj_TagSetSub ops s x)) = s"
  by (simp add: set_sub_tag tag_defs)

end

text \<open>
  The generated methods: \<open>Resolve\<close> applies the pending changes, so that the current
  subscription key becomes the previous one, empties the diff and counts the version; the tag
  methods leave the rest of the object alone.
\<close>

locale synk_object = synk_tagged ops tag_of
  for ops :: "('o, 'd) object_ops" and tag_of :: "'o \<Rightarrow> tag" +
  assumes resolve_tag: "tag_of (snd (obj_Resolve ops x)) = bump_version (tag_of x)"
    and resolve_sub: "obj_GetSubKey ops (snd (obj_Resolve ops x)) = obj_GetSubKey ops x"
    and resolve_prev: "obj_GetPrevSubKey ops (snd (obj_Resolve ops x)) = obj_GetSubKey ops x"
    and resolve_unchanged: "\<not> obj_Changed ops (snd (obj_Resolve ops x))"
    and resolve_type: "obj_TypeKey ops (snd (obj_Resolve ops x)) = obj_TypeKey ops x"
    and unchanged_sub: "\<not> obj_Changed ops x \<Longrightarrow> obj_GetSubKey ops x = obj_GetPrevSubKey ops x"
    and set_sub_keys: "obj_GetSubKey ops (obj_TagSetSub ops s x) = obj_GetSubKey ops x"
      "obj_GetPrevSubKey ops (obj_TagSetSub ops s x) = obj_GetPrevSubKey ops x"
    and set_sub_type: "obj_TypeKey ops (obj_TagSetSub ops s x) = obj_TypeKey ops x"
    and set_sub_state: "obj_State ops (obj_TagSetSub ops s x) = obj_State ops x"
    and init_keys: "obj_GetSubKey ops (fst (obj_TagInit ops k x r)) = obj_GetSubKey ops x"
      "obj_GetPrevSubKey ops (fst (obj_TagInit ops k x r)) = obj_GetPrevSubKey ops x"
    and init_type: "obj_TypeKey ops (fst (obj_TagInit ops k x r)) = obj_TypeKey ops x"
    and diff_json: "\<exists>ms. obj_MarshalDiff ops d = Inr (JObj ms)"
    and resolve_merge:
      "\<exists>js jd js'. obj_MarshalDiff ops (obj_State ops x) = Inr js \<and>
         obj_MarshalDiff ops (fst (obj_Resolve ops x)) = Inr jd \<and>
         obj_MarshalDiff ops (obj_State ops (snd (obj_Resolve ops x))) = Inr js' \<and>
         json_fields js' = json_fields js ++ json_fields jd"
begin

lemma resolve_id: "obj_TagGetID ops (snd (obj_Resolve ops x)) = obj_TagGetID ops x"
  by (simp add: get_id resolve_tag tag_defs)

lemma resolve_version: "obj_Version ops (snd (obj_Resolve ops x)) = obj_Version ops x + 1"
  by (simp add: version resolve_tag tag_defs)

lemma resolve_stored_sub: "TagSub (tag_of (snd (obj_Resolve ops x))) = TagSub (tag_of x)"
  by (simp add: resolve_tag tag_defs)

text \<open>After \<open>Resolve\<close> the two keys are the same, and stay so when it is called again.\<close>

lemma resolve_settles:
  "obj_GetPrevSubKey ops (snd (obj_Resolve ops x)) = obj_GetSubKey ops (snd (obj_Resolve ops x))"
  by (simp add: resolve_sub resolve_prev)

text \<open>Storing the current key after \<open>Resolve\<close> makes the stored key agree.\<close>

lemma set_sub_agrees:
  "sub_agrees ops tag_of (obj_TagSetSub ops (obj_GetSubKey ops x) (snd (obj_Resolve ops x)))"
  by (simp add: sub_agrees_def set_sub_sub set_sub_keys resolve_prev)

text \<open>Without a change of the key, \<open>Resolve\<close> alone keeps the agreement.\<close>

lemma resolve_agrees:
  "sub_agrees ops tag_of x \<Longrightarrow> obj_GetSubKey ops x = obj_GetPrevSubKey ops x \<Longrightarrow>
   sub_agrees ops tag_of (snd (obj_Resolve ops x))"
  by (simp add: sub_agrees_def resolve_stored_sub resolve_prev)

text \<open>The equational laws, as one simplification set.\<close>

lemmas laws = get_id version init_tag init_rand set_sub_tag resolve_tag resolve_sub resolve_prev
  resolve_unchanged resolve_type unchanged_sub set_sub_keys set_sub_type set_sub_state init_keys init_type

end

end
