(* ===== verification/Human.thy ===== *)
theory Human
  imports Objects
begin

text \<open>
  The test object \<open>Human\<close> of package \<open>stest\<close> (\<open>char.go\<close>) with its generated
  setters, getters, \<open>State\<close>, \<open>Resolve\<close>, \<open>Changed\<close>, \<open>Copy\<close> and \<open>Init\<close>
  (\<open>setters.go\<close>). A pointer field of the diff is an \<open>option\<close>: every pointer that the setters
  store points to a fresh copy of the value, and the pointers that \<open>State\<close> and \<open>Init\<close> take
  point to the field of the same name of the object, which only \<open>Resolve\<close> writes.

  The abstract object is a pair of plain structs, the values the clients know and the values the
  program sees; the lemmas show that the methods implement it.
\<close>

section \<open>Data\<close>

record human_diff =
  dX :: "go_int option"
  dY :: "go_int option"
  dCY :: "go_int option"
  dCX :: "go_int option"
  dCI :: "go_int option"
  dMapID :: "string option"

record human =
  hTag :: tag
  hX :: "go_int"
  hY :: "go_int"
  hCX :: "go_int"
  hCY :: "go_int"
  hCI :: "go_int"
  hMapID :: "string"
  hdiff :: human_diff

definition no_human_diff :: human_diff where
  "no_human_diff = \<lparr>dX = None, dY = None, dCY = None, dCX = None, dCI = None, dMapID = None\<rparr>"

definition new_human :: human where
  "new_human = \<lparr>hTag = empty_tag, hX = 0, hY = 0, hCX = 0, hCY = 0, hCI = 0, hMapID = '''', hdiff = no_human_diff\<rparr>"

section \<open>The generated methods\<close>

definition Human_State :: "human \<Rightarrow> human_diff" where
  "Human_State x = \<lparr>dX = Some (hX x), dY = Some (hY x), dCY = Some (hCY x), dCX = Some (hCX x), dCI = Some (hCI x), dMapID = Some (hMapID x)\<rparr>"

definition Human_Resolve :: "human \<Rightarrow> human_diff \<times> human" where
  "Human_Resolve x =
     (let x1 = (case dX (hdiff x) of Some v \<Rightarrow> x\<lparr>hX := v\<rparr> | None \<Rightarrow> x);
          x2 = (case dY (hdiff x1) of Some v \<Rightarrow> x1\<lparr>hY := v\<rparr> | None \<Rightarrow> x1);
          x3 = (case dCY (hdiff x2) of Some v \<Rightarrow> x2\<lparr>hCY := v\<rparr> | None \<Rightarrow> x2);
          x4 = (case dCX (hdiff x3) of Some v \<Rightarrow> x3\<lparr>hCX := v\<rparr> | None \<Rightarrow> x3);
          x5 = (case dCI (hdiff x4) of Some v \<Rightarrow> x4\<lparr>hCI := v\<rparr> | None \<Rightarrow> x4);
          x6 = (case dMapID (hdiff x5) of Some v \<Rightarrow> x5\<lparr>hMapID := v\<rparr> | None \<Rightarrow> x5);
          x7 = x6\<lparr>hTag := bump_version (hTag x6)\<rparr>;
          diff = hdiff x7;
          x8 = x7\<lparr>hdiff := no_human_diff\<rparr>
      in (diff, x8))"

definition Human_Changed :: "human \<Rightarrow> bool" where
  "Human_Changed x \<longleftrightarrow> dX (hdiff x) \<noteq> None \<or> dY (hdiff x) \<noteq> None \<or> dCY (hdiff x) \<noteq> None \<or> dCX (hdiff x) \<noteq> None \<or> dCI (hdiff x) \<noteq> None \<or> dMapID (hdiff x) \<noteq> None"

definition Human_Diff :: "human \<Rightarrow> human_diff" where
  "Human_Diff x = hdiff x"

definition Human_Copy :: "human \<Rightarrow> human" where
  "Human_Copy x = (let n = x in n)"

definition Human_Init :: "human \<Rightarrow> human" where
  "Human_Init x = x\<lparr>hdiff := Human_State x\<rparr>"

definition Human_SetX :: "go_int \<Rightarrow> human \<Rightarrow> human" where
  "Human_SetX v x =
     (if v \<noteq> hX x then x\<lparr>hdiff := (hdiff x)\<lparr>dX := Some v\<rparr>\<rparr>
      else x\<lparr>hdiff := (hdiff x)\<lparr>dX := None\<rparr>\<rparr>)"

definition Human_GetPrevX :: "human \<Rightarrow> go_int" where
  "Human_GetPrevX x = hX x"

definition Human_GetX :: "human \<Rightarrow> go_int" where
  "Human_GetX x = (case dX (hdiff x) of Some v \<Rightarrow> v | None \<Rightarrow> hX x)"

definition humanDiff_GetX :: "human_diff \<Rightarrow> go_int option" where
  "humanDiff_GetX d = dX d"

definition Human_SetY :: "go_int \<Rightarrow> human \<Rightarrow> human" where
  "Human_SetY v x =
     (if v \<noteq> hY x then x\<lparr>hdiff := (hdiff x)\<lparr>dY := Some v\<rparr>\<rparr>
      else x\<lparr>hdiff := (hdiff x)\<lparr>dY := None\<rparr>\<rparr>)"

definition Human_GetPrevY :: "human \<Rightarrow> go_int" where
  "Human_GetPrevY x = hY x"

definition Human_GetY :: "human \<Rightarrow> go_int" where
  "Human_GetY x = (case dY (hdiff x) of Some v \<Rightarrow> v | None \<Rightarrow> hY x)"

definition humanDiff_GetY :: "human_diff \<Rightarrow> go_int option" where
  "humanDiff_GetY d = dY d"

definition Human_SetCY :: "go_int \<Rightarrow> human \<Rightarrow> human" where
  "Human_SetCY v x =
     (if v \<noteq> hCY x then x\<lparr>hdiff := (hdiff x)\<lparr>dCY := Some v\<rparr>\<rparr>
      else x\<lparr>hdiff := (hdiff x)\<lparr>dCY := None\<rparr>\<rparr>)"

definition Human_GetPrevCY :: "human \<Rightarrow> go_int" where
  "Human_GetPrevCY x = hCY x"

definition Human_GetCY :: "human \<Rightarrow> go_int" where
  "Human_GetCY x = (case dCY (hdiff x) of Some v \<Rightarrow> v | None \<Rightarrow> hCY x)"

definition humanDiff_GetCY :: "human_diff \<Rightarrow> go_int option" where
  "humanDiff_GetCY d = dCY d"

definition Human_SetCX :: "go_int \<Rightarrow> human \<Rightarrow> human" where
  "Human_SetCX v x =
     (if v \<noteq> hCX x then x\<lparr>hdiff := (hdiff x)\<lparr>dCX := Some v\<rparr>\<rparr>
      else x\<lparr>hdiff := (hdiff x)\<lparr>dCX := None\<rparr>\<rparr>)"

definition Human_GetPrevCX :: "human \<Rightarrow> go_int" where
  "Human_GetPrevCX x = hCX x"

definition Human_GetCX :: "human \<Rightarrow> go_int" where
  "Human_GetCX x = (case dCX (hdiff x) of Some v \<Rightarrow> v | None \<Rightarrow> hCX x)"

definition humanDiff_GetCX :: "human_diff \<Rightarrow> go_int option" where
  "humanDiff_GetCX d = dCX d"

definition Human_SetCI :: "go_int \<Rightarrow> human \<Rightarrow> human" where
  "Human_SetCI v x =
     (if v \<noteq> hCI x then x\<lparr>hdiff := (hdiff x)\<lparr>dCI := Some v\<rparr>\<rparr>
      else x\<lparr>hdiff := (hdiff x)\<lparr>dCI := None\<rparr>\<rparr>)"

definition Human_GetPrevCI :: "human \<Rightarrow> go_int" where
  "Human_GetPrevCI x = hCI x"

definition Human_GetCI :: "human \<Rightarrow> go_int" where
  "Human_GetCI x = (case dCI (hdiff x) of Some v \<Rightarrow> v | None \<Rightarrow> hCI x)"

definition humanDiff_GetCI :: "human_diff \<Rightarrow> go_int option" where
  "humanDiff_GetCI d = dCI d"

definition Human_SetMapID :: "string \<Rightarrow> human \<Rightarrow> human" where
  "Human_SetMapID v x =
     (if v \<noteq> hMapID x then x\<lparr>hdiff := (hdiff x)\<lparr>dMapID := Some v\<rparr>\<rparr>
      else x\<lparr>hdiff := (hdiff x)\<lparr>dMapID := None\<rparr>\<rparr>)"

definition Human_GetPrevMapID :: "human \<Rightarrow> string" where
  "Human_GetPrevMapID x = hMapID x"

definition Human_GetMapID :: "human \<Rightarrow> string" where
  "Human_GetMapID x = (case dMapID (hdiff x) of Some v \<Rightarrow> v | None \<Rightarrow> hMapID x)"

definition humanDiff_GetMapID :: "human_diff \<Rightarrow> string option" where
  "humanDiff_GetMapID d = dMapID d"

section \<open>The written methods\<close>

definition Human_TypeKey :: "human \<Rightarrow> string" where
  "Human_TypeKey x = ''c:h''"

definition sub_key_format :: "string \<Rightarrow> go_int \<Rightarrow> go_int \<Rightarrow> string" where
  "sub_key_format m cx cy = m @ CHR '':'' # show_int cx @ CHR ''|'' # show_int cy"

definition Human_GetSubKey :: "human \<Rightarrow> string" where
  "Human_GetSubKey x = sub_key_format (Human_GetMapID x) (Human_GetCX x) (Human_GetCY x)"

definition Human_GetPrevSubKey :: "human \<Rightarrow> string" where
  "Human_GetPrevSubKey x = sub_key_format (Human_GetPrevMapID x) (Human_GetPrevCX x) (Human_GetPrevCY x)"

definition Human_String :: "human \<Rightarrow> string" where
  "Human_String x = ''Human ('' @ TagGetID (hTag x) @ '') at ('' @ show_int (Human_GetX x) @ '', '' @
     show_int (Human_GetY x) @ '') on '' @ Human_GetMapID x"

section \<open>Encoding\<close>

text \<open>Pointer fields tagged \<open>omitempty\<close> are left out when they are nil.\<close>

definition humanDiff_json :: "human_diff \<Rightarrow> json" where
  "humanDiff_json d = JObj (omitempty [
     (''x'', map_option jint (dX d)), (''y'', map_option jint (dY d)), (''cy'', map_option jint (dCY d)),
     (''cx'', map_option jint (dCX d)), (''ci'', map_option jint (dCI d)), (''mapID'', map_option JStr (dMapID d))])"

text \<open>The embedded tag of a \<open>Human\<close> is excluded from its JSON form (\<open>json:"-"\<close>).\<close>

definition Human_json :: "human \<Rightarrow> json" where
  "Human_json x = JObj [
     (''x'', jint (hX x)), (''y'', jint (hY x)), (''cx'', jint (hCX x)),
     (''cy'', jint (hCY x)), (''ci'', jint (hCI x)), (''mapID'', JStr (hMapID x))]"

definition Human_fields :: "string list" where
  "Human_fields = [''x'', ''y'', ''cx'', ''cy'', ''ci'', ''mapID'']"

definition Human_set_field :: "human setter" where
  "Human_set_field n j x =
     (if n = ''x'' then map_prod id (\<lambda>v. x\<lparr>hX := v\<rparr>) (decode_int j (hX x))
      else if n = ''y'' then map_prod id (\<lambda>v. x\<lparr>hY := v\<rparr>) (decode_int j (hY x))
      else if n = ''cx'' then map_prod id (\<lambda>v. x\<lparr>hCX := v\<rparr>) (decode_int j (hCX x))
      else if n = ''cy'' then map_prod id (\<lambda>v. x\<lparr>hCY := v\<rparr>) (decode_int j (hCY x))
      else if n = ''ci'' then map_prod id (\<lambda>v. x\<lparr>hCI := v\<rparr>) (decode_int j (hCI x))
      else map_prod id (\<lambda>v. x\<lparr>hMapID := v\<rparr>) (decode_string j (hMapID x)))"

definition Human_Unmarshal :: "bytes \<Rightarrow> human \<Rightarrow> human decoded" where
  "Human_Unmarshal data x = unmarshal Human_fields Human_set_field data x"

definition Human_ops :: "(human, human_diff) object_ops" where
  "Human_ops = \<lparr>
     obj_TypeKey = Human_TypeKey, obj_GetSubKey = Human_GetSubKey, obj_GetPrevSubKey = Human_GetPrevSubKey,
     obj_State = Human_State, obj_Resolve = Human_Resolve, obj_Changed = Human_Changed,
     obj_Init = Human_Init, obj_Copy = Human_Copy,
     obj_Version = (\<lambda>x. Version (hTag x)),
     obj_TagInit = (\<lambda>k x r. let (t, r') = TagInit k (hTag x) r in (x\<lparr>hTag := t\<rparr>, r')),
     obj_TagGetID = (\<lambda>x. TagGetID (hTag x)),
     obj_TagSetSub = (\<lambda>s x. x\<lparr>hTag := TagSetSub s (hTag x)\<rparr>),
     obj_OnCreate = (\<lambda>x. None),
     obj_MarshalDiff = (\<lambda>d. Inr (humanDiff_json d)),
     obj_MarshalObj = (\<lambda>x. Inr (Human_json x)),
     obj_Unmarshal = Human_Unmarshal\<rparr>"

lemmas Human_get_defs = Human_GetX_def Human_GetPrevX_def Human_GetY_def Human_GetPrevY_def Human_GetCY_def Human_GetPrevCY_def Human_GetCX_def Human_GetPrevCX_def Human_GetCI_def Human_GetPrevCI_def Human_GetMapID_def Human_GetPrevMapID_def

lemmas Human_set_defs = Human_SetX_def Human_SetY_def Human_SetCY_def Human_SetCX_def Human_SetCI_def Human_SetMapID_def

lemmas Human_key_defs = Human_GetSubKey_def Human_GetPrevSubKey_def Human_TypeKey_def

section \<open>The abstract object\<close>

text \<open>A plain struct of the six fields; the clients know one, the program sees another.\<close>

record human_core =
  cX :: "go_int"
  cY :: "go_int"
  cCY :: "go_int"
  cCX :: "go_int"
  cCI :: "go_int"
  cMapID :: "string"

definition known :: "human \<Rightarrow> human_core" where
  "known x = \<lparr>cX = Human_GetPrevX x, cY = Human_GetPrevY x, cCY = Human_GetPrevCY x, cCX = Human_GetPrevCX x, cCI = Human_GetPrevCI x, cMapID = Human_GetPrevMapID x\<rparr>"

definition current :: "human \<Rightarrow> human_core" where
  "current x = \<lparr>cX = Human_GetX x, cY = Human_GetY x, cCY = Human_GetCY x, cCX = Human_GetCX x, cCI = Human_GetCI x, cMapID = Human_GetMapID x\<rparr>"

text \<open>The diff between two structs: the fields that differ, with their new value.\<close>

definition core_diff :: "human_core \<Rightarrow> human_core \<Rightarrow> human_diff" where
  "core_diff p q = \<lparr>dX = changed_to (cX p) (cX q), dY = changed_to (cY p) (cY q), dCY = changed_to (cCY p) (cCY q), dCX = changed_to (cCX p) (cCX q), dCI = changed_to (cCI p) (cCI q), dMapID = changed_to (cMapID p) (cMapID q)\<rparr>"

text \<open>A minimal diff has no entry that equals the stored value; only \<open>Init\<close> makes others.\<close>

definition minimal :: "human \<Rightarrow> bool" where
  "minimal x \<longleftrightarrow> hdiff x = core_diff (known x) (current x)"

lemmas human_abs_defs = known_def current_def Human_get_defs

lemma minimal_iff:
  "minimal x \<longleftrightarrow> dX (hdiff x) \<noteq> Some (hX x) \<and> dY (hdiff x) \<noteq> Some (hY x) \<and> dCY (hdiff x) \<noteq> Some (hCY x) \<and> dCX (hdiff x) \<noteq> Some (hCX x) \<and> dCI (hdiff x) \<noteq> Some (hCI x) \<and> dMapID (hdiff x) \<noteq> Some (hMapID x)"
  by (cases "hdiff x") (simp add: minimal_def core_diff_def human_abs_defs changed_to_case [symmetric])

lemma Human_SetX_abs [simp]:
  "known (Human_SetX v x) = known x" "current (Human_SetX v x) = (current x)\<lparr>cX := v\<rparr>"
  "hTag (Human_SetX v x) = hTag x"
  by (simp_all add: human_abs_defs Human_SetX_def cong: option.case_cong)

lemma Human_SetX_minimal [simp]: "minimal x \<Longrightarrow> minimal (Human_SetX v x)"
  by (simp add: minimal_iff Human_SetX_def)

lemma Human_SetY_abs [simp]:
  "known (Human_SetY v x) = known x" "current (Human_SetY v x) = (current x)\<lparr>cY := v\<rparr>"
  "hTag (Human_SetY v x) = hTag x"
  by (simp_all add: human_abs_defs Human_SetY_def cong: option.case_cong)

lemma Human_SetY_minimal [simp]: "minimal x \<Longrightarrow> minimal (Human_SetY v x)"
  by (simp add: minimal_iff Human_SetY_def)

lemma Human_SetCY_abs [simp]:
  "known (Human_SetCY v x) = known x" "current (Human_SetCY v x) = (current x)\<lparr>cCY := v\<rparr>"
  "hTag (Human_SetCY v x) = hTag x"
  by (simp_all add: human_abs_defs Human_SetCY_def cong: option.case_cong)

lemma Human_SetCY_minimal [simp]: "minimal x \<Longrightarrow> minimal (Human_SetCY v x)"
  by (simp add: minimal_iff Human_SetCY_def)

lemma Human_SetCX_abs [simp]:
  "known (Human_SetCX v x) = known x" "current (Human_SetCX v x) = (current x)\<lparr>cCX := v\<rparr>"
  "hTag (Human_SetCX v x) = hTag x"
  by (simp_all add: human_abs_defs Human_SetCX_def cong: option.case_cong)

lemma Human_SetCX_minimal [simp]: "minimal x \<Longrightarrow> minimal (Human_SetCX v x)"
  by (simp add: minimal_iff Human_SetCX_def)

lemma Human_SetCI_abs [simp]:
  "known (Human_SetCI v x) = known x" "current (Human_SetCI v x) = (current x)\<lparr>cCI := v\<rparr>"
  "hTag (Human_SetCI v x) = hTag x"
  by (simp_all add: human_abs_defs Human_SetCI_def cong: option.case_cong)

lemma Human_SetCI_minimal [simp]: "minimal x \<Longrightarrow> minimal (Human_SetCI v x)"
  by (simp add: minimal_iff Human_SetCI_def)

lemma Human_SetMapID_abs [simp]:
  "known (Human_SetMapID v x) = known x" "current (Human_SetMapID v x) = (current x)\<lparr>cMapID := v\<rparr>"
  "hTag (Human_SetMapID v x) = hTag x"
  by (simp_all add: human_abs_defs Human_SetMapID_def cong: option.case_cong)

lemma Human_SetMapID_minimal [simp]: "minimal x \<Longrightarrow> minimal (Human_SetMapID v x)"
  by (simp add: minimal_iff Human_SetMapID_def)

text \<open>One conditional assignment of \<open>Resolve\<close> stores the getter's value.\<close>

lemma Human_apply_steps:
  "(case dX e of Some v \<Rightarrow> x\<lparr>hX := v\<rparr> | None \<Rightarrow> x) = x\<lparr>hX := case dX e of Some v \<Rightarrow> v | None \<Rightarrow> hX x\<rparr>"
  "(case dY e of Some v \<Rightarrow> x\<lparr>hY := v\<rparr> | None \<Rightarrow> x) = x\<lparr>hY := case dY e of Some v \<Rightarrow> v | None \<Rightarrow> hY x\<rparr>"
  "(case dCY e of Some v \<Rightarrow> x\<lparr>hCY := v\<rparr> | None \<Rightarrow> x) = x\<lparr>hCY := case dCY e of Some v \<Rightarrow> v | None \<Rightarrow> hCY x\<rparr>"
  "(case dCX e of Some v \<Rightarrow> x\<lparr>hCX := v\<rparr> | None \<Rightarrow> x) = x\<lparr>hCX := case dCX e of Some v \<Rightarrow> v | None \<Rightarrow> hCX x\<rparr>"
  "(case dCI e of Some v \<Rightarrow> x\<lparr>hCI := v\<rparr> | None \<Rightarrow> x) = x\<lparr>hCI := case dCI e of Some v \<Rightarrow> v | None \<Rightarrow> hCI x\<rparr>"
  "(case dMapID e of Some v \<Rightarrow> x\<lparr>hMapID := v\<rparr> | None \<Rightarrow> x) = x\<lparr>hMapID := case dMapID e of Some v \<Rightarrow> v | None \<Rightarrow> hMapID x\<rparr>"
  by (simp_all split: option.split)

lemma Human_Resolve_eq:
  "Human_Resolve x = (hdiff x,
     \<lparr>hTag = bump_version (hTag x), hX = Human_GetX x, hY = Human_GetY x, hCX = Human_GetCX x,
      hCY = Human_GetCY x, hCI = Human_GetCI x, hMapID = Human_GetMapID x, hdiff = no_human_diff\<rparr>)"
  by (simp only: Human_Resolve_def Let_def Human_apply_steps)
    (auto intro!: human.equality simp: Human_get_defs cong: option.case_cong)

lemma Human_Resolve_abs [simp]:
  "known (snd (Human_Resolve x)) = current x" "current (snd (Human_Resolve x)) = current x"
  "hTag (snd (Human_Resolve x)) = bump_version (hTag x)"
  "fst (Human_Resolve x) = hdiff x" "hdiff (snd (Human_Resolve x)) = no_human_diff"
  by (simp_all add: Human_Resolve_eq human_abs_defs no_human_diff_def)

lemma Human_Resolve_minimal [simp]: "minimal (snd (Human_Resolve x))"
  by (simp add: minimal_def core_diff_def no_human_diff_def)

lemma minimal_Changed: "minimal x \<Longrightarrow> Human_Changed x \<longleftrightarrow> current x \<noteq> known x"
  by (simp add: minimal_iff Human_Changed_def human_abs_defs get_unchanged)

lemma core_keys:
  "Human_GetSubKey x = sub_key_format (cMapID (current x)) (cCX (current x)) (cCY (current x))"
  "Human_GetPrevSubKey x = sub_key_format (cMapID (known x)) (cCX (known x)) (cCY (known x))"
  by (simp_all add: Human_key_defs known_def current_def)

lemma Human_State_known: "Human_State x = Human_State y \<longleftrightarrow> known x = known y"
  by (auto simp: Human_State_def known_def Human_get_defs)

lemma Human_Init_abs [simp]:
  "known (Human_Init x) = known x" "current (Human_Init x) = known x" "hTag (Human_Init x) = hTag x"
  by (simp_all add: Human_Init_def Human_State_def human_abs_defs)

section \<open>The subscription key determines its parts\<close>

lemma sub_key_format_inj:
  assumes "sub_key_format m cx cy = sub_key_format m' cx' cy'"
  shows "m = m' \<and> cx = cx' \<and> cy = cy'"
proof -
  have bar: "CHR ''|'' \<notin> set (show_int w)" and colon: "CHR '':'' \<notin> set (show_int w)" for w
    using show_int_chars [of "CHR ''|''" w] show_int_chars [of "CHR '':''" w] by auto
  have "m @ CHR '':'' # show_int cx = m' @ CHR '':'' # show_int cx' \<and> show_int cy = show_int cy'"
    using assms by (intro split_last_unique [OF _ bar bar]) (simp add: sub_key_format_def)
  moreover from this have "m = m' \<and> show_int cx = show_int cx'"
    by (intro split_last_unique [OF _ colon colon]) simp
  ultimately show ?thesis by (simp add: show_int_inj)
qed

lemma sub_key_format_brace: "CHR ''{'' \<in> set (sub_key_format m cx cy) \<longleftrightarrow> CHR ''{'' \<in> set m"
  using show_int_chars [of "CHR ''{''"] by (auto simp: sub_key_format_def)

section \<open>The contract of the interface\<close>

lemma known_Init_tag [simp]: "known (x\<lparr>hTag := t\<rparr>) = known x" "current (x\<lparr>hTag := t\<rparr>) = current x"
  by (simp_all add: human_abs_defs cong: option.case_cong)

lemma Human_tag_frame [simp]:
  "Human_State (x\<lparr>hTag := t\<rparr>) = Human_State x" "Human_TypeKey y = ''c:h''"
  by (simp_all add: Human_State_def Human_TypeKey_def)

lemma Human_unchanged: "\<not> Human_Changed x \<Longrightarrow> current x = known x"
  by (simp add: Human_Changed_def human_abs_defs)

text \<open>Each field of the new state is the field of the diff, or the old one where the diff has none.\<close>

definition humanDiff_entries :: "human_diff \<Rightarrow> (string \<times> json option) list" where
  "humanDiff_entries d = [
     (''x'', map_option jint (dX d)), (''y'', map_option jint (dY d)), (''cy'', map_option jint (dCY d)),
     (''cx'', map_option jint (dCX d)), (''ci'', map_option jint (dCI d)), (''mapID'', map_option JStr (dMapID d))]"

lemma humanDiff_entries_resolve:
  "humanDiff_entries (Human_State (snd (Human_Resolve x))) =
   overlay (humanDiff_entries (Human_State x)) (humanDiff_entries (hdiff x))"
  unfolding overlay_def humanDiff_entries_def
  by (simp only: list.map zip_Cons_Cons zip_Nil prod.case fst_conv snd_conv)
    (simp only: Human_State_def Human_Resolve_eq Human_get_defs human.simps human_diff.simps snd_conv
      option.map overlay_entry [where f = jint] overlay_entry [where f = JStr])

lemma humanDiff_entries_names:
  "map fst (humanDiff_entries d) = map fst (humanDiff_entries e)" "distinct (map fst (humanDiff_entries d))"
  by (simp_all add: humanDiff_entries_def)

lemma humanDiff_json_entries: "json_fields (humanDiff_json d) = map_of (omitempty (humanDiff_entries d))"
  by (simp only: json_fields_def humanDiff_json_def humanDiff_entries_def json.case)

lemma humanDiff_merge:
  "json_fields (humanDiff_json (Human_State (snd (Human_Resolve x)))) =
   json_fields (humanDiff_json (Human_State x)) ++ json_fields (humanDiff_json (fst (Human_Resolve x)))"
  by (simp only: humanDiff_json_entries humanDiff_entries_resolve Human_Resolve_abs(4)
      omitempty_overlay [OF humanDiff_entries_names])

interpretation human: synk_object Human_ops hTag
proof unfold_locales
  fix x
  show "\<exists>js jd js'. obj_MarshalDiff Human_ops (obj_State Human_ops x) = Inr js \<and>
      obj_MarshalDiff Human_ops (fst (obj_Resolve Human_ops x)) = Inr jd \<and>
      obj_MarshalDiff Human_ops (obj_State Human_ops (snd (obj_Resolve Human_ops x))) = Inr js' \<and>
      json_fields js' = json_fields js ++ json_fields jd"
    using humanDiff_merge [of x] by (simp add: Human_ops_def)
qed (simp_all add: Human_ops_def Let_def tag_defs core_keys Human_unchanged humanDiff_json_def
    Human_Changed_def no_human_diff_def split: prod.split)

end
