(* ===== verification/Orc.thy ===== *)
theory Orc
  imports Objects
begin

text \<open>
  The test object \<open>Orc\<close> of package \<open>stest\<close>, whose subscription key is a generated string
  field and whose tag is part of its JSON form. Same treatment as \<open>Human\<close>: pointer fields of
  the diff are options, and a pair of plain structs is the abstract object.
\<close>

section \<open>Data\<close>

record orc_diff =
  eID :: "string option"
  eSubKey :: "string option"
  eName :: "string option"

record orc =
  oTag :: tag
  oID :: string
  oSubKey :: string
  oName :: string
  odiff :: orc_diff

definition no_orc_diff :: orc_diff where
  "no_orc_diff = \<lparr>eID = None, eSubKey = None, eName = None\<rparr>"

definition new_orc :: orc where
  "new_orc = \<lparr>oTag = empty_tag, oID = '''', oSubKey = '''', oName = '''', odiff = no_orc_diff\<rparr>"

section \<open>The generated methods\<close>

definition Orc_State :: "orc \<Rightarrow> orc_diff" where
  "Orc_State x = \<lparr>eID = Some (oID x), eSubKey = Some (oSubKey x), eName = Some (oName x)\<rparr>"

definition Orc_Resolve :: "orc \<Rightarrow> orc_diff \<times> orc" where
  "Orc_Resolve x =
     (let x1 = (case eID (odiff x) of Some v \<Rightarrow> x\<lparr>oID := v\<rparr> | None \<Rightarrow> x);
          x2 = (case eSubKey (odiff x1) of Some v \<Rightarrow> x1\<lparr>oSubKey := v\<rparr> | None \<Rightarrow> x1);
          x3 = (case eName (odiff x2) of Some v \<Rightarrow> x2\<lparr>oName := v\<rparr> | None \<Rightarrow> x2);
          x4 = x3\<lparr>oTag := bump_version (oTag x3)\<rparr>;
          diff = odiff x4;
          x5 = x4\<lparr>odiff := no_orc_diff\<rparr>
      in (diff, x5))"

definition Orc_Changed :: "orc \<Rightarrow> bool" where
  "Orc_Changed x \<longleftrightarrow> eID (odiff x) \<noteq> None \<or> eSubKey (odiff x) \<noteq> None \<or> eName (odiff x) \<noteq> None"

definition Orc_Diff :: "orc \<Rightarrow> orc_diff" where
  "Orc_Diff x = odiff x"

definition Orc_Copy :: "orc \<Rightarrow> orc" where
  "Orc_Copy x = (let n = x in n)"

definition Orc_Init :: "orc \<Rightarrow> orc" where
  "Orc_Init x = x\<lparr>odiff := Orc_State x\<rparr>"

definition Orc_SetID :: "string \<Rightarrow> orc \<Rightarrow> orc" where
  "Orc_SetID v x =
     (if v \<noteq> oID x then x\<lparr>odiff := (odiff x)\<lparr>eID := Some v\<rparr>\<rparr>
      else x\<lparr>odiff := (odiff x)\<lparr>eID := None\<rparr>\<rparr>)"

definition Orc_GetPrevID :: "orc \<Rightarrow> string" where
  "Orc_GetPrevID x = oID x"

definition Orc_GetID :: "orc \<Rightarrow> string" where
  "Orc_GetID x = (case eID (odiff x) of Some v \<Rightarrow> v | None \<Rightarrow> oID x)"

definition orcDiff_GetID :: "orc_diff \<Rightarrow> string option" where
  "orcDiff_GetID d = eID d"

definition Orc_SetSubKey :: "string \<Rightarrow> orc \<Rightarrow> orc" where
  "Orc_SetSubKey v x =
     (if v \<noteq> oSubKey x then x\<lparr>odiff := (odiff x)\<lparr>eSubKey := Some v\<rparr>\<rparr>
      else x\<lparr>odiff := (odiff x)\<lparr>eSubKey := None\<rparr>\<rparr>)"

definition Orc_GetPrevSubKey :: "orc \<Rightarrow> string" where
  "Orc_GetPrevSubKey x = oSubKey x"

definition Orc_GetSubKey :: "orc \<Rightarrow> string" where
  "Orc_GetSubKey x = (case eSubKey (odiff x) of Some v \<Rightarrow> v | None \<Rightarrow> oSubKey x)"

definition orcDiff_GetSubKey :: "orc_diff \<Rightarrow> string option" where
  "orcDiff_GetSubKey d = eSubKey d"

definition Orc_SetName :: "string \<Rightarrow> orc \<Rightarrow> orc" where
  "Orc_SetName v x =
     (if v \<noteq> oName x then x\<lparr>odiff := (odiff x)\<lparr>eName := Some v\<rparr>\<rparr>
      else x\<lparr>odiff := (odiff x)\<lparr>eName := None\<rparr>\<rparr>)"

definition Orc_GetPrevName :: "orc \<Rightarrow> string" where
  "Orc_GetPrevName x = oName x"

definition Orc_GetName :: "orc \<Rightarrow> string" where
  "Orc_GetName x = (case eName (odiff x) of Some v \<Rightarrow> v | None \<Rightarrow> oName x)"

definition orcDiff_GetName :: "orc_diff \<Rightarrow> string option" where
  "orcDiff_GetName d = eName d"

section \<open>The written methods\<close>

definition Orc_TypeKey :: "orc \<Rightarrow> string" where
  "Orc_TypeKey x = ''c:o''"

definition Orc_String :: "orc \<Rightarrow> string" where
  "Orc_String x = ''Orc ('' @ TagGetID (oTag x) @ '') named '' @ oName x"

section \<open>Encoding\<close>

definition orcDiff_json :: "orc_diff \<Rightarrow> json" where
  "orcDiff_json d = JObj (omitempty [
     (''id'', map_option JStr (eID d)), (''subKey'', map_option JStr (eSubKey d)), (''name'', map_option JStr (eName d))])"

text \<open>
  The embedded tag has no JSON name, so its fields are promoted; the fields without a JSON tag
  keep their Go names.
\<close>

definition Orc_json :: "orc \<Rightarrow> json" where
  "Orc_json x = JObj [
     (''_id'', JStr (TagID (oTag x))), (''sub'', JStr (TagSub (oTag x))), (''t'', JStr (TagType (oTag x))),
     (''v'', juint (V (oTag x))), (''id'', JStr (oID x)), (''SubKey'', JStr (oSubKey x)), (''Name'', JStr (oName x))]"

definition Orc_fields :: "string list" where
  "Orc_fields = [''_id'', ''sub'', ''t'', ''v'', ''id'', ''SubKey'', ''Name'']"

definition Orc_set_tag :: "(tag \<Rightarrow> tag) \<Rightarrow> orc \<Rightarrow> orc" where
  "Orc_set_tag f x = x\<lparr>oTag := f (oTag x)\<rparr>"

definition Orc_set_field :: "orc setter" where
  "Orc_set_field n j x =
     (if n = ''_id'' then map_prod id (\<lambda>v. Orc_set_tag (TagID_update (\<lambda>_. v)) x) (decode_string j (TagID (oTag x)))
      else if n = ''sub'' then map_prod id (\<lambda>v. Orc_set_tag (TagSub_update (\<lambda>_. v)) x) (decode_string j (TagSub (oTag x)))
      else if n = ''t'' then map_prod id (\<lambda>v. Orc_set_tag (TagType_update (\<lambda>_. v)) x) (decode_string j (TagType (oTag x)))
      else if n = ''v'' then map_prod id (\<lambda>v. Orc_set_tag (V_update (\<lambda>_. v)) x) (decode_uint j (V (oTag x)))
      else if n = ''id'' then map_prod id (\<lambda>v. x\<lparr>oID := v\<rparr>) (decode_string j (oID x))
      else if n = ''SubKey'' then map_prod id (\<lambda>v. x\<lparr>oSubKey := v\<rparr>) (decode_string j (oSubKey x))
      else map_prod id (\<lambda>v. x\<lparr>oName := v\<rparr>) (decode_string j (oName x)))"

definition Orc_Unmarshal :: "bytes \<Rightarrow> orc \<Rightarrow> orc decoded" where
  "Orc_Unmarshal data x = unmarshal Orc_fields Orc_set_field data x"

definition Orc_ops :: "(orc, orc_diff) object_ops" where
  "Orc_ops = \<lparr>
     obj_TypeKey = Orc_TypeKey, obj_GetSubKey = Orc_GetSubKey, obj_GetPrevSubKey = Orc_GetPrevSubKey,
     obj_State = Orc_State, obj_Resolve = Orc_Resolve, obj_Changed = Orc_Changed,
     obj_Init = Orc_Init, obj_Copy = Orc_Copy,
     obj_Version = (\<lambda>x. Version (oTag x)),
     obj_TagInit = (\<lambda>k x r. let (t, r') = TagInit k (oTag x) r in (x\<lparr>oTag := t\<rparr>, r')),
     obj_TagGetID = (\<lambda>x. TagGetID (oTag x)),
     obj_TagSetSub = (\<lambda>s x. x\<lparr>oTag := TagSetSub s (oTag x)\<rparr>),
     obj_OnCreate = (\<lambda>x. None),
     obj_MarshalDiff = (\<lambda>d. Inr (orcDiff_json d)),
     obj_MarshalObj = (\<lambda>x. Inr (Orc_json x)),
     obj_Unmarshal = Orc_Unmarshal\<rparr>"

lemmas Orc_get_defs = Orc_GetID_def Orc_GetPrevID_def Orc_GetSubKey_def Orc_GetPrevSubKey_def
  Orc_GetName_def Orc_GetPrevName_def

section \<open>The abstract object\<close>

record orc_core =
  kID :: string
  kSubKey :: string
  kName :: string

definition orc_known :: "orc \<Rightarrow> orc_core" where
  "orc_known x = \<lparr>kID = Orc_GetPrevID x, kSubKey = Orc_GetPrevSubKey x, kName = Orc_GetPrevName x\<rparr>"

definition orc_current :: "orc \<Rightarrow> orc_core" where
  "orc_current x = \<lparr>kID = Orc_GetID x, kSubKey = Orc_GetSubKey x, kName = Orc_GetName x\<rparr>"

definition orc_core_diff :: "orc_core \<Rightarrow> orc_core \<Rightarrow> orc_diff" where
  "orc_core_diff p q = \<lparr>eID = changed_to (kID p) (kID q), eSubKey = changed_to (kSubKey p) (kSubKey q),
     eName = changed_to (kName p) (kName q)\<rparr>"

definition orc_minimal :: "orc \<Rightarrow> bool" where
  "orc_minimal x \<longleftrightarrow> odiff x = orc_core_diff (orc_known x) (orc_current x)"

lemmas orc_abs_defs = orc_known_def orc_current_def Orc_get_defs

lemma orc_minimal_iff:
  "orc_minimal x \<longleftrightarrow> eID (odiff x) \<noteq> Some (oID x) \<and> eSubKey (odiff x) \<noteq> Some (oSubKey x) \<and>
     eName (odiff x) \<noteq> Some (oName x)"
  by (cases "odiff x") (simp add: orc_minimal_def orc_core_diff_def orc_abs_defs changed_to_case [symmetric])

lemma Orc_SetID_abs [simp]:
  "orc_known (Orc_SetID v x) = orc_known x" "orc_current (Orc_SetID v x) = (orc_current x)\<lparr>kID := v\<rparr>"
  "oTag (Orc_SetID v x) = oTag x"
  by (simp_all add: orc_abs_defs Orc_SetID_def cong: option.case_cong)

lemma Orc_SetID_minimal [simp]: "orc_minimal x \<Longrightarrow> orc_minimal (Orc_SetID v x)"
  by (simp add: orc_minimal_iff Orc_SetID_def)

lemma Orc_SetSubKey_abs [simp]:
  "orc_known (Orc_SetSubKey v x) = orc_known x" "orc_current (Orc_SetSubKey v x) = (orc_current x)\<lparr>kSubKey := v\<rparr>"
  "oTag (Orc_SetSubKey v x) = oTag x"
  by (simp_all add: orc_abs_defs Orc_SetSubKey_def cong: option.case_cong)

lemma Orc_SetSubKey_minimal [simp]: "orc_minimal x \<Longrightarrow> orc_minimal (Orc_SetSubKey v x)"
  by (simp add: orc_minimal_iff Orc_SetSubKey_def)

lemma Orc_SetName_abs [simp]:
  "orc_known (Orc_SetName v x) = orc_known x" "orc_current (Orc_SetName v x) = (orc_current x)\<lparr>kName := v\<rparr>"
  "oTag (Orc_SetName v x) = oTag x"
  by (simp_all add: orc_abs_defs Orc_SetName_def cong: option.case_cong)

lemma Orc_SetName_minimal [simp]: "orc_minimal x \<Longrightarrow> orc_minimal (Orc_SetName v x)"
  by (simp add: orc_minimal_iff Orc_SetName_def)

lemma Orc_apply_steps:
  "(case eID e of Some v \<Rightarrow> x\<lparr>oID := v\<rparr> | None \<Rightarrow> x) = x\<lparr>oID := case eID e of Some v \<Rightarrow> v | None \<Rightarrow> oID x\<rparr>"
  "(case eSubKey e of Some v \<Rightarrow> x\<lparr>oSubKey := v\<rparr> | None \<Rightarrow> x) = x\<lparr>oSubKey := case eSubKey e of Some v \<Rightarrow> v | None \<Rightarrow> oSubKey x\<rparr>"
  "(case eName e of Some v \<Rightarrow> x\<lparr>oName := v\<rparr> | None \<Rightarrow> x) = x\<lparr>oName := case eName e of Some v \<Rightarrow> v | None \<Rightarrow> oName x\<rparr>"
  by (simp_all split: option.split)

lemma Orc_Resolve_eq:
  "Orc_Resolve x = (odiff x,
     \<lparr>oTag = bump_version (oTag x), oID = Orc_GetID x, oSubKey = Orc_GetSubKey x, oName = Orc_GetName x,
      odiff = no_orc_diff\<rparr>)"
  by (simp only: Orc_Resolve_def Let_def Orc_apply_steps)
    (auto intro!: orc.equality simp: Orc_get_defs cong: option.case_cong)

lemma Orc_Resolve_abs [simp]:
  "orc_known (snd (Orc_Resolve x)) = orc_current x" "orc_current (snd (Orc_Resolve x)) = orc_current x"
  "oTag (snd (Orc_Resolve x)) = bump_version (oTag x)"
  "fst (Orc_Resolve x) = odiff x" "odiff (snd (Orc_Resolve x)) = no_orc_diff"
  by (simp_all add: Orc_Resolve_eq orc_abs_defs no_orc_diff_def)

lemma Orc_Resolve_minimal [simp]: "orc_minimal (snd (Orc_Resolve x))"
  by (simp add: orc_minimal_def orc_core_diff_def no_orc_diff_def)

lemma orc_minimal_Changed: "orc_minimal x \<Longrightarrow> Orc_Changed x \<longleftrightarrow> orc_current x \<noteq> orc_known x"
  by (simp add: orc_minimal_iff Orc_Changed_def orc_abs_defs get_unchanged)

lemma orc_core_keys:
  "Orc_GetSubKey x = kSubKey (orc_current x)" "Orc_GetPrevSubKey x = kSubKey (orc_known x)"
  by (simp_all add: orc_known_def orc_current_def)

lemma Orc_Init_abs [simp]:
  "orc_known (Orc_Init x) = orc_known x" "orc_current (Orc_Init x) = orc_known x" "oTag (Orc_Init x) = oTag x"
  by (simp_all add: Orc_Init_def Orc_State_def orc_abs_defs)

section \<open>The contract of the interface\<close>

lemma Orc_tag_frame [simp]:
  "orc_known (x\<lparr>oTag := t\<rparr>) = orc_known x" "orc_current (x\<lparr>oTag := t\<rparr>) = orc_current x"
  "Orc_State (x\<lparr>oTag := t\<rparr>) = Orc_State x" "Orc_TypeKey y = ''c:o''"
  by (simp_all add: orc_abs_defs Orc_State_def Orc_TypeKey_def cong: option.case_cong)

lemma Orc_unchanged: "\<not> Orc_Changed x \<Longrightarrow> orc_current x = orc_known x"
  by (simp add: Orc_Changed_def orc_abs_defs)

definition orcDiff_entries :: "orc_diff \<Rightarrow> (string \<times> json option) list" where
  "orcDiff_entries d =
     [(''id'', map_option JStr (eID d)), (''subKey'', map_option JStr (eSubKey d)), (''name'', map_option JStr (eName d))]"

lemma orcDiff_entries_resolve:
  "orcDiff_entries (Orc_State (snd (Orc_Resolve x))) =
   overlay (orcDiff_entries (Orc_State x)) (orcDiff_entries (odiff x))"
  unfolding overlay_def orcDiff_entries_def
  by (simp only: list.map zip_Cons_Cons zip_Nil prod.case fst_conv snd_conv)
    (simp only: Orc_State_def Orc_Resolve_eq Orc_get_defs orc.simps orc_diff.simps snd_conv
      option.map overlay_entry [where f = JStr])

lemma orcDiff_entries_names:
  "map fst (orcDiff_entries d) = map fst (orcDiff_entries e)" "distinct (map fst (orcDiff_entries d))"
  by (simp_all add: orcDiff_entries_def)

lemma orcDiff_json_entries: "json_fields (orcDiff_json d) = map_of (omitempty (orcDiff_entries d))"
  by (simp only: json_fields_def orcDiff_json_def orcDiff_entries_def json.case)

lemma orcDiff_merge:
  "json_fields (orcDiff_json (Orc_State (snd (Orc_Resolve x)))) =
   json_fields (orcDiff_json (Orc_State x)) ++ json_fields (orcDiff_json (fst (Orc_Resolve x)))"
  by (simp only: orcDiff_json_entries orcDiff_entries_resolve Orc_Resolve_abs(4)
      omitempty_overlay [OF orcDiff_entries_names])

interpretation orc: synk_object Orc_ops oTag
proof unfold_locales
  fix x
  show "\<exists>js jd js'. obj_MarshalDiff Orc_ops (obj_State Orc_ops x) = Inr js \<and>
      obj_MarshalDiff Orc_ops (fst (obj_Resolve Orc_ops x)) = Inr jd \<and>
      obj_MarshalDiff Orc_ops (obj_State Orc_ops (snd (obj_Resolve Orc_ops x))) = Inr js' \<and>
      json_fields js' = json_fields js ++ json_fields jd"
    using orcDiff_merge [of x] by (simp add: Orc_ops_def)
qed (simp_all add: Orc_ops_def Let_def tag_defs orc_core_keys Orc_unchanged orcDiff_json_def
    Orc_Changed_def no_orc_diff_def split: prod.split)

end
