(* ===== verification/Entities.thy ===== *)
theory Entities
  imports Human Orc
begin

text \<open>
  The objects of package \<open>stest\<close> together: an \<open>Object\<close> value holds a \<open>*Human\<close> or a
  \<open>*Orc\<close>, a method call dispatches on which, and \<open>creator\<close> (\<open>char_test.go\<close>) makes an
  empty container from a type key. This is the instance on which the witnesses run the library.
\<close>

datatype entity = EHuman human | EOrc orc
datatype entity_diff = DHuman human_diff | DOrc orc_diff

fun creator :: "string \<Rightarrow> entity option" where
  "creator k =
     (if k = ''c:h'' then Some (EHuman new_human)
      else if k = ''c:o'' then Some (EOrc new_orc)
      else None)"

fun entity_tag :: "entity \<Rightarrow> tag" where
  "entity_tag (EHuman h) = hTag h"
| "entity_tag (EOrc x) = oTag x"

text \<open>Dispatch: a query and an update of the object held.\<close>

fun dispatch :: "(human \<Rightarrow> 'a) \<Rightarrow> (orc \<Rightarrow> 'a) \<Rightarrow> entity \<Rightarrow> 'a" where
  "dispatch f g (EHuman h) = f h"
| "dispatch f g (EOrc x) = g x"

definition entity_ops :: "(entity, entity_diff) object_ops" where
  "entity_ops = \<lparr>
     obj_TypeKey = dispatch (obj_TypeKey Human_ops) (obj_TypeKey Orc_ops),
     obj_GetSubKey = dispatch (obj_GetSubKey Human_ops) (obj_GetSubKey Orc_ops),
     obj_GetPrevSubKey = dispatch (obj_GetPrevSubKey Human_ops) (obj_GetPrevSubKey Orc_ops),
     obj_State = dispatch (DHuman \<circ> obj_State Human_ops) (DOrc \<circ> obj_State Orc_ops),
     obj_Resolve = dispatch (map_prod DHuman EHuman \<circ> obj_Resolve Human_ops) (map_prod DOrc EOrc \<circ> obj_Resolve Orc_ops),
     obj_Changed = dispatch (obj_Changed Human_ops) (obj_Changed Orc_ops),
     obj_Init = dispatch (EHuman \<circ> obj_Init Human_ops) (EOrc \<circ> obj_Init Orc_ops),
     obj_Copy = dispatch (EHuman \<circ> obj_Copy Human_ops) (EOrc \<circ> obj_Copy Orc_ops),
     obj_Version = dispatch (obj_Version Human_ops) (obj_Version Orc_ops),
     obj_TagInit = (\<lambda>k e r. dispatch (\<lambda>x. map_prod EHuman id (obj_TagInit Human_ops k x r))
                               (\<lambda>x. map_prod EOrc id (obj_TagInit Orc_ops k x r)) e),
     obj_TagGetID = dispatch (obj_TagGetID Human_ops) (obj_TagGetID Orc_ops),
     obj_TagSetSub = (\<lambda>s. dispatch (EHuman \<circ> obj_TagSetSub Human_ops s) (EOrc \<circ> obj_TagSetSub Orc_ops s)),
     obj_OnCreate = dispatch (map_option EHuman \<circ> obj_OnCreate Human_ops) (map_option EOrc \<circ> obj_OnCreate Orc_ops),
     obj_MarshalDiff = (\<lambda>d. case d of DHuman x \<Rightarrow> obj_MarshalDiff Human_ops x | DOrc x \<Rightarrow> obj_MarshalDiff Orc_ops x),
     obj_MarshalObj = dispatch (obj_MarshalObj Human_ops) (obj_MarshalObj Orc_ops),
     obj_Unmarshal = (\<lambda>b. dispatch (map_prod id EHuman \<circ> obj_Unmarshal Human_ops b)
                              (map_prod id EOrc \<circ> obj_Unmarshal Orc_ops b))\<rparr>"

lemma dispatch_cases: "dispatch f g e = (case e of EHuman h \<Rightarrow> f h | EOrc x \<Rightarrow> g x)"
  by (cases e) simp_all

lemma entity_resolve_merge:
  "\<exists>js jd js'. obj_MarshalDiff entity_ops (obj_State entity_ops x) = Inr js \<and>
      obj_MarshalDiff entity_ops (fst (obj_Resolve entity_ops x)) = Inr jd \<and>
      obj_MarshalDiff entity_ops (obj_State entity_ops (snd (obj_Resolve entity_ops x))) = Inr js' \<and>
      json_fields js' = json_fields js ++ json_fields jd"
  using human.resolve_merge orc.resolve_merge by (cases x) (simp_all add: entity_ops_def)

lemma entity_diff_json: "\<exists>ms. obj_MarshalDiff entity_ops d = Inr (JObj ms)"
  using human.diff_json orc.diff_json by (cases d) (simp_all add: entity_ops_def)

interpretation entity: synk_object entity_ops entity_tag
proof (unfold_locales, goal_cases)
  case (19 d)
  show ?case by (rule entity_diff_json)
next
  case (20 x)
  show ?case by (rule entity_resolve_merge)
qed (case_tac x; simp add: entity_ops_def human.laws orc.laws)+

end
