(* ===== verification/Services.thy ===== *)
theory Services
  imports Entities
begin

text \<open>
  The two services behind the library, which are not part of the repository. A MongoDB collection
  and a Redis server are records of functions on an unknown state type: the calls the code makes
  through \<open>mgo\<close> and \<open>redigo\<close>. What the code relies on is stated by \<open>mongo_behaves\<close> and
  \<open>redis_behaves\<close>, the documented behaviour of the calls through a view of the state (the
  documents of the collection by identifier; the key space of the server and the messages published
  so far). Theorems take these as hypotheses. \<open>mem_redis\<close> and \<open>mem_mongo\<close> are concrete
  functions that satisfy them, for the witnesses.
\<close>

section \<open>Redis\<close>

datatype redis_cmd =
    SADD string string
  | SREM string string
  | SET string bytes
  | SET_NX string bytes
  | DEL string
  | PUBLISH string bytes
  | SUNION "string list"
  | MGET "string list"
  | INCR string

datatype redis_reply =
    RStatus string
  | RInt int
  | RNil
  | RBulk bytes
  | RArr "redis_reply list"
  | RErr error

text \<open>
  What happens to a request on the wire: it is answered, it is lost before the server sees it, or
  the server runs it and the answer is lost.
\<close>

datatype link = Up | Down error | Cut error

record 'r redis =
  rd_Get :: "'r \<Rightarrow> string option \<times> 'r"
  rd_net :: "'r \<Rightarrow> link \<times> 'r"
  rd_call :: "redis_cmd \<Rightarrow> 'r \<Rightarrow> redis_reply \<times> 'r"

text \<open>
  \<open>rd_Get\<close> is \<open>Get\<close> of the connection pool: it hands out an idle connection or calls the \<open>Dial\<close> function of
  the pool, which panics when the server cannot be reached (\<open>DialRedisPool\<close> in \<open>Node.go\<close>); the panic goes
  through \<open>Get\<close>. A method that takes a connection for the time of a call:
\<close>

definition with_conn :: "'r redis \<Rightarrow> ('r \<Rightarrow> 'a \<times> 'r) \<Rightarrow> 'r \<Rightarrow> 'a go \<times> 'r" where
  "with_conn rd body r =
     (case rd_Get rd r of
        (Some p, r1) \<Rightarrow> (Panic p, r1)
      | (None, r1) \<Rightarrow> (let (v, r2) = body r1 in (Ret v, r2)))"

text \<open>A request that the server runs as one step, over a connection of the pool.\<close>

definition on_server :: "'r redis \<Rightarrow> ('r \<Rightarrow> redis_reply \<times> 'r) \<Rightarrow> 'r \<Rightarrow> (error + redis_reply) \<times> 'r" where
  "on_server rd body r =
     (case rd_net rd r of
        (Down e, r1) \<Rightarrow> (Inl e, r1)
      | (Cut e, r1) \<Rightarrow> (Inl e, snd (body r1))
      | (Up, r1) \<Rightarrow>
          (case body r1 of
             (RErr e, r2) \<Rightarrow> (Inl e, r2)
           | (reply, r2) \<Rightarrow> (Inr reply, r2)))"

text \<open>\<open>conn.Do(command, args...)\<close>.\<close>

definition conn_Do :: "'r redis \<Rightarrow> redis_cmd \<Rightarrow> 'r \<Rightarrow> (error + redis_reply) \<times> 'r" where
  "conn_Do rd c r = on_server rd (rd_call rd c) r"

text \<open>
  \<open>conn.Send("MULTI")\<close>, further \<open>Send\<close>s and \<open>conn.Do("EXEC")\<close>: the queued commands are
  run in order; an error of one of them is an entry of the reply array and not an error of
  \<open>EXEC\<close>.
\<close>

fun run_commands :: "'r redis \<Rightarrow> redis_cmd list \<Rightarrow> 'r \<Rightarrow> redis_reply list \<times> 'r" where
  "run_commands rd [] r = ([], r)"
| "run_commands rd (c # cs) r =
     (let (reply, r1) = rd_call rd c r; (replies, r2) = run_commands rd cs r1 in (reply # replies, r2))"

definition conn_Exec :: "'r redis \<Rightarrow> redis_cmd list \<Rightarrow> 'r \<Rightarrow> (error + redis_reply) \<times> 'r" where
  "conn_Exec rd cs r = on_server rd (\<lambda>r. map_prod RArr id (run_commands rd cs r)) r"

text \<open>The error that a Go call returns beside its reply.\<close>

definition err_of :: "error + 'a \<Rightarrow> error option" where
  "err_of x = (case x of Inl e \<Rightarrow> Some e | Inr _ \<Rightarrow> None)"

lemma err_of_simps [simp]: "err_of (Inl e) = Some e" "err_of (Inr v) = None"
  "err_of x = None \<longleftrightarrow> (\<exists>v. x = Inr v)"
  by (simp_all add: err_of_def split: sum.splits)

subsection \<open>Documented behaviour\<close>

datatype redis_value = StrVal bytes | SetVal "string set"

record redis_db =
  db_keys :: "string \<rightharpoonup> redis_value"
  db_published :: "(string \<times> bytes) list"

definition set_at :: "redis_db \<Rightarrow> string \<Rightarrow> string set" where
  "set_at db k = (case db_keys db k of Some (SetVal s) \<Rightarrow> s | _ \<Rightarrow> {})"

definition holds_string :: "redis_db \<Rightarrow> string \<Rightarrow> bool" where
  "holds_string db k \<longleftrightarrow> (\<exists>b. db_keys db k = Some (StrVal b))"

text \<open>A set without members does not exist as a key.\<close>

definition put_set :: "string \<Rightarrow> string set \<Rightarrow> redis_db \<Rightarrow> redis_db" where
  "put_set k s db = db\<lparr>db_keys := (db_keys db)(k := if s = {} then None else Some (SetVal s))\<rparr>"

definition put_string :: "string \<Rightarrow> bytes \<Rightarrow> redis_db \<Rightarrow> redis_db" where
  "put_string k b db = db\<lparr>db_keys := (db_keys db)(k \<mapsto> StrVal b)\<rparr>"

definition del_key :: "string \<Rightarrow> redis_db \<Rightarrow> redis_db" where
  "del_key k db = db\<lparr>db_keys := (db_keys db)(k := None)\<rparr>"

definition add_published :: "string \<Rightarrow> bytes \<Rightarrow> redis_db \<Rightarrow> redis_db" where
  "add_published ch b db = db\<lparr>db_published := db_published db @ [(ch, b)]\<rparr>"

definition is_error :: "redis_reply \<Rightarrow> bool" where
  "is_error r \<longleftrightarrow> (\<exists>e. r = RErr e)"

definition bulk_of :: "redis_db \<Rightarrow> string \<Rightarrow> redis_reply" where
  "bulk_of db k = (case db_keys db k of Some (StrVal b) \<Rightarrow> RBulk b | _ \<Rightarrow> RNil)"

text \<open>
  The reply and the new contents of each command. A set command on a key that holds a string
  is refused (\<open>WRONGTYPE\<close>); the order of \<open>SUNION\<close> and the receiver count of
  \<open>PUBLISH\<close> are not specified.
\<close>

fun redis_spec :: "redis_cmd \<Rightarrow> redis_db \<Rightarrow> redis_reply \<Rightarrow> redis_db \<Rightarrow> bool" where
  "redis_spec (SADD k m) db rep db' \<longleftrightarrow>
     (if holds_string db k then is_error rep \<and> db' = db
      else \<not> is_error rep \<and> db' = put_set k (insert m (set_at db k)) db)"
| "redis_spec (SREM k m) db rep db' \<longleftrightarrow>
     (if holds_string db k then is_error rep \<and> db' = db
      else \<not> is_error rep \<and> db' = put_set k (set_at db k - {m}) db)"
| "redis_spec (SET k b) db rep db' \<longleftrightarrow> rep = RStatus ''OK'' \<and> db' = put_string k b db"
| "redis_spec (SET_NX k b) db rep db' \<longleftrightarrow>
     (if db_keys db k = None then rep = RStatus ''OK'' \<and> db' = put_string k b db
      else rep = RNil \<and> db' = db)"
| "redis_spec (DEL k) db rep db' \<longleftrightarrow> \<not> is_error rep \<and> db' = del_key k db"
| "redis_spec (PUBLISH ch b) db rep db' \<longleftrightarrow> \<not> is_error rep \<and> db' = add_published ch b db"
| "redis_spec (SUNION ks) db rep db' \<longleftrightarrow> db' = db \<and>
     (if ks = [] \<or> list_ex (holds_string db) ks then is_error rep
      else \<exists>ms. rep = RArr (map RBulk ms) \<and> distinct ms \<and> set ms = (\<Union>k \<in> set ks. set_at db k))"
| "redis_spec (MGET ks) db rep db' \<longleftrightarrow> db' = db \<and>
     (if ks = [] then is_error rep else rep = RArr (map (bulk_of db) ks))"
| "redis_spec (INCR k) db rep db' \<longleftrightarrow>
     (case db_keys db k of
        None \<Rightarrow> rep = RInt 1 \<and> db' = put_string k (format_int 10 1) db
      | Some (StrVal b) \<Rightarrow>
          (case parse_int64 b of
             Some w \<Rightarrow>
               if in_int64 (sint w + 1)
               then rep = RInt (sint w + 1) \<and> db' = put_string k (format_int 10 (sint w + 1)) db
               else is_error rep \<and> db' = db
           | None \<Rightarrow> is_error rep \<and> db' = db)
      | Some (SetVal _) \<Rightarrow> is_error rep \<and> db' = db)"

definition redis_behaves :: "'r redis \<Rightarrow> ('r \<Rightarrow> redis_db) \<Rightarrow> bool" where
  "redis_behaves rd db \<longleftrightarrow>
     (\<forall>r. db (snd (rd_Get rd r)) = db r) \<and> (\<forall>r. db (snd (rd_net rd r)) = db r) \<and>
     (\<forall>c r. redis_spec c (db r) (fst (rd_call rd c r)) (db (snd (rd_call rd c r))))"

lemma redis_GetD: "redis_behaves rd db \<Longrightarrow> db (snd (rd_Get rd r)) = db r"
  by (simp add: redis_behaves_def)

lemma with_conn_Ret:
  "with_conn rd body r = (Ret v, r') \<longleftrightarrow> (\<exists>r1. rd_Get rd r = (None, r1) \<and> body r1 = (v, r'))"
  by (auto simp: with_conn_def split: prod.splits option.splits)

lemma with_conn_Panic:
  "with_conn rd body r = (Panic p, r') \<longleftrightarrow> rd_Get rd r = (Some p, r')"
  by (auto simp: with_conn_def split: prod.splits option.splits)

lemma redis_netD [dest]: "redis_behaves rd db \<Longrightarrow> db (snd (rd_net rd r)) = db r"
  by (simp add: redis_behaves_def)

lemma redis_callD:
  "redis_behaves rd db \<Longrightarrow> redis_spec c (db r) (fst (rd_call rd c r)) (db (snd (rd_call rd c r)))"
  by (simp add: redis_behaves_def)

text \<open>A request that returns no error was run exactly once, from the state before it.\<close>

lemma on_server_Inr:
  assumes "redis_behaves rd db" "on_server rd body r = (Inr reply, r')"
  obtains r1 where "db r1 = db r" "body r1 = (reply, r')"
  using assms redis_netD [OF assms(1), of r]
  by (auto simp: on_server_def split: prod.splits link.splits redis_reply.splits)

lemma conn_Do_Inr:
  assumes "redis_behaves rd db" "conn_Do rd c r = (Inr reply, r')"
  shows "redis_spec c (db r) reply (db r')"
  using assms(2) unfolding conn_Do_def
  by (rule on_server_Inr [OF assms(1)]) (use redis_callD [OF assms(1)] in \<open>metis fst_conv snd_conv\<close>)

text \<open>A server that can always be reached and always answers.\<close>

definition link_up :: "'r redis \<Rightarrow> bool" where
  "link_up rd \<longleftrightarrow> (\<forall>r. fst (rd_Get rd r) = None) \<and> (\<forall>r. fst (rd_net rd r) = Up)"

lemma on_server_up:
  "link_up rd \<Longrightarrow> on_server rd body r =
     (case body (snd (rd_net rd r)) of (RErr e, r2) \<Rightarrow> (Inl e, r2) | (reply, r2) \<Rightarrow> (Inr reply, r2))"
  by (auto simp: on_server_def link_up_def split: prod.splits link.splits) (metis fst_conv link.distinct)+

subsection \<open>An instance\<close>

text \<open>The key space as an association list, sets as lists without repetition.\<close>

datatype mem_value = MemStr bytes | MemSet "string list"

record mem_db =
  mem_keys :: "(string \<times> mem_value) list"
  mem_published :: "(string \<times> bytes) list"

definition mem_empty :: mem_db where
  "mem_empty = \<lparr>mem_keys = [], mem_published = []\<rparr>"

fun mem_value_view :: "mem_value \<Rightarrow> redis_value option" where
  "mem_value_view (MemStr b) = Some (StrVal b)"
| "mem_value_view (MemSet ms) = (if ms = [] then None else Some (SetVal (set ms)))"

definition mem_view :: "mem_db \<Rightarrow> redis_db" where
  "mem_view m = \<lparr>db_keys = (\<lambda>k. Option.bind (map_of (mem_keys m) k) mem_value_view),
     db_published = mem_published m\<rparr>"

definition mem_put :: "string \<Rightarrow> mem_value \<Rightarrow> mem_db \<Rightarrow> mem_db" where
  "mem_put k v m = m\<lparr>mem_keys := (k, v) # mem_keys m\<rparr>"

definition mem_set :: "mem_db \<Rightarrow> string \<Rightarrow> string list" where
  "mem_set m k = (case map_of (mem_keys m) k of Some (MemSet ms) \<Rightarrow> ms | _ \<Rightarrow> [])"

definition mem_string :: "mem_db \<Rightarrow> string \<Rightarrow> bytes option" where
  "mem_string m k = (case map_of (mem_keys m) k of Some (MemStr b) \<Rightarrow> Some b | _ \<Rightarrow> None)"

definition wrong_type :: redis_reply where
  "wrong_type = RErr ''WRONGTYPE''"

fun mem_call :: "redis_cmd \<Rightarrow> mem_db \<Rightarrow> redis_reply \<times> mem_db" where
  "mem_call (SADD k m) d =
     (if mem_string d k \<noteq> None then (wrong_type, d) else (RInt 1, mem_put k (MemSet (m # mem_set d k)) d))"
| "mem_call (SREM k m) d =
     (if mem_string d k \<noteq> None then (wrong_type, d)
      else (RInt 1, mem_put k (MemSet (filter (\<lambda>x. x \<noteq> m) (mem_set d k))) d))"
| "mem_call (SET k b) d = (RStatus ''OK'', mem_put k (MemStr b) d)"
| "mem_call (SET_NX k b) d =
     (if mem_string d k = None \<and> mem_set d k = [] then (RStatus ''OK'', mem_put k (MemStr b) d) else (RNil, d))"
| "mem_call (DEL k) d = (RInt 1, mem_put k (MemSet []) d)"
| "mem_call (PUBLISH ch b) d = (RInt 0, d\<lparr>mem_published := mem_published d @ [(ch, b)]\<rparr>)"
| "mem_call (SUNION ks) d =
     (if ks = [] \<or> list_ex (\<lambda>k. mem_string d k \<noteq> None) ks then (wrong_type, d)
      else (RArr (map RBulk (remdups (concat (map (mem_set d) ks)))), d))"
| "mem_call (MGET ks) d =
     (if ks = [] then (wrong_type, d)
      else (RArr (map (\<lambda>k. case mem_string d k of Some b \<Rightarrow> RBulk b | None \<Rightarrow> RNil) ks), d))"
| "mem_call (INCR k) d =
     (if mem_set d k \<noteq> [] then (wrong_type, d)
      else case mem_string d k of
        None \<Rightarrow> (RInt 1, mem_put k (MemStr (format_int 10 1)) d)
      | Some b \<Rightarrow>
          (case parse_int64 b of
             None \<Rightarrow> (wrong_type, d)
           | Some w \<Rightarrow>
               if in_int64 (sint w + 1)
               then (RInt (sint w + 1), mem_put k (MemStr (format_int 10 (sint w + 1))) d)
               else (wrong_type, d)))"

definition mem_redis :: "mem_db redis" where
  "mem_redis = \<lparr>rd_Get = (\<lambda>d. (None, d)), rd_net = (\<lambda>d. (Up, d)), rd_call = mem_call\<rparr>"

lemma mem_view_keys:
  "db_keys (mem_view d) k =
     (case map_of (mem_keys d) k of
        None \<Rightarrow> None
      | Some (MemStr b) \<Rightarrow> Some (StrVal b)
      | Some (MemSet ms) \<Rightarrow> if ms = [] then None else Some (SetVal (set ms)))"
  by (simp add: mem_view_def split: option.split mem_value.split)

lemma mem_view_simps:
  "holds_string (mem_view d) k \<longleftrightarrow> mem_string d k \<noteq> None"
  "set_at (mem_view d) k = set (mem_set d k)"
  "bulk_of (mem_view d) k = (case mem_string d k of Some b \<Rightarrow> RBulk b | None \<Rightarrow> RNil)"
  "db_keys (mem_view d) k = None \<longleftrightarrow> mem_string d k = None \<and> mem_set d k = []"
  by (simp_all add: holds_string_def set_at_def bulk_of_def mem_view_keys mem_string_def mem_set_def
      split: option.split mem_value.split)

lemma mem_view_put:
  "mem_view (mem_put k (MemStr b) d) = put_string k b (mem_view d)"
  "mem_view (mem_put k (MemSet ms) d) = put_set k (set ms) (mem_view d)"
  "put_set k {} db = del_key k db"
  "mem_view (d\<lparr>mem_published := mem_published d @ [(ch, b)]\<rparr>) = add_published ch b (mem_view d)"
  by (simp_all add: mem_view_def mem_put_def put_string_def put_set_def del_key_def add_published_def fun_eq_iff)

lemma mem_call_spec: "redis_spec c (mem_view d) (fst (mem_call c d)) (mem_view (snd (mem_call c d)))"
proof (cases c)
  case (INCR k)
  have "db_keys (mem_view d) k =
      (case mem_string d k of Some b \<Rightarrow> Some (StrVal b)
       | None \<Rightarrow> if mem_set d k = [] then None else Some (SetVal (set (mem_set d k))))"
    by (simp add: mem_view_keys mem_string_def mem_set_def split: option.split mem_value.split)
  moreover have "mem_set d k \<noteq> [] \<Longrightarrow> mem_string d k = None"
    by (auto simp: mem_string_def mem_set_def split: option.splits mem_value.splits)
  ultimately show ?thesis
    by (auto simp: INCR mem_view_put is_error_def wrong_type_def split: option.splits)
next
  case (SUNION ks)
  then show ?thesis
    by (auto simp: mem_view_simps is_error_def wrong_type_def list_ex_iff intro!: exI [of _ "remdups (concat (map (mem_set d) ks))"])
qed (auto simp: mem_view_simps mem_view_put is_error_def wrong_type_def filter_set set_diff_eq)

lemma mem_redis_behaves: "redis_behaves mem_redis mem_view"
  using mem_call_spec by (simp add: redis_behaves_def mem_redis_def)

lemma mem_redis_up: "link_up mem_redis"
  by (simp add: link_up_def mem_redis_def)

section \<open>MongoDB\<close>

text \<open>
  The collection of the objects. \<open>mg_findSub keys\<close> is \<open>Find(bson.M{"sub": bson.M{"$in":
  keys}}).All(&raws)\<close>; a raw document is decoded twice, into the struct that only has the type and
  into a container.
\<close>

record typeOnly =
  to_Type :: string

record ('m, 'o, 'raw) mongo =
  mg_insert :: "'o \<Rightarrow> 'm \<Rightarrow> error option \<times> 'm"
  mg_updateId :: "string \<Rightarrow> 'o \<Rightarrow> 'm \<Rightarrow> error option \<times> 'm"
  mg_removeId :: "string \<Rightarrow> 'm \<Rightarrow> error option \<times> 'm"
  mg_findSub :: "string list \<Rightarrow> 'm \<Rightarrow> (error + 'raw list) \<times> 'm"
  mg_close :: "'m \<Rightarrow> 'm"
  raw_type :: "'raw \<Rightarrow> error option \<times> typeOnly"
  raw_into :: "'raw \<Rightarrow> 'o \<Rightarrow> error option \<times> 'o"

subsection \<open>Documented behaviour\<close>

text \<open>
  \<open>docs m\<close> is the collection by identifier, each document as the object that reading it back
  gives; \<open>stored x\<close> is that object for a document written from \<open>x\<close> (the unexported diff is
  not written). An operation that reports no error took effect; a duplicate or a missing identifier
  is an error. A document decodes into an empty container of its own type.
\<close>

definition reads_as :: "('o, 'd) object_ops \<Rightarrow> ('o \<Rightarrow> tag) \<Rightarrow> (string \<Rightarrow> 'o option) \<Rightarrow>
    ('m, 'o, 'raw) mongo \<Rightarrow> 'raw \<Rightarrow> 'o \<Rightarrow> bool" where
  "reads_as ops tag_of mk mg raw x \<longleftrightarrow>
     raw_type mg raw = (None, \<lparr>to_Type = TagType (tag_of x)\<rparr>) \<and>
     (\<forall>c. mk (TagType (tag_of x)) = Some c \<longrightarrow> obj_TypeKey ops c = obj_TypeKey ops x \<longrightarrow>
        raw_into mg raw c = (None, x))"

definition ids_with_sub :: "('o \<Rightarrow> tag) \<Rightarrow> (string \<rightharpoonup> 'o) \<Rightarrow> string list \<Rightarrow> string set" where
  "ids_with_sub tag_of D keys = {i. \<exists>x. D i = Some x \<and> TagSub (tag_of x) \<in> set keys}"

definition mongo_behaves :: "('o, 'd) object_ops \<Rightarrow> ('o \<Rightarrow> tag) \<Rightarrow> (string \<Rightarrow> 'o option) \<Rightarrow>
    ('o \<Rightarrow> 'o) \<Rightarrow> ('m, 'o, 'raw) mongo \<Rightarrow> ('m \<Rightarrow> string \<rightharpoonup> 'o) \<Rightarrow> bool" where
  "mongo_behaves ops tag_of mk stored mg docs \<longleftrightarrow>
     (\<forall>x m. (if fst (mg_insert mg x m) = None
             then docs m (obj_TagGetID ops x) = None \<and>
                  docs (snd (mg_insert mg x m)) = (docs m)(obj_TagGetID ops x \<mapsto> stored x)
             else docs m (obj_TagGetID ops x) \<noteq> None \<longrightarrow> docs (snd (mg_insert mg x m)) = docs m)) \<and>
     (\<forall>i x m. fst (mg_updateId mg i x m) = None \<longrightarrow>
        docs m i \<noteq> None \<and> docs (snd (mg_updateId mg i x m)) = (docs m)(i \<mapsto> stored x)) \<and>
     (\<forall>i m. fst (mg_removeId mg i m) = None \<longrightarrow>
        docs m i \<noteq> None \<and> docs (snd (mg_removeId mg i m)) = (docs m)(i := None)) \<and>
     (\<forall>keys m. docs (snd (mg_findSub mg keys m)) = docs m \<and>
        (\<forall>raws. fst (mg_findSub mg keys m) = Inr raws \<longrightarrow>
           (\<exists>ids. distinct ids \<and> set ids = ids_with_sub tag_of (docs m) keys \<and>
              list_all2 (\<lambda>raw i. reads_as ops tag_of mk mg raw (the (docs m i))) raws ids)))"

lemma mongo_insertD:
  "mongo_behaves ops tag_of mk stored mg docs \<Longrightarrow> mg_insert mg x m = (None, m') \<Longrightarrow>
   docs m (obj_TagGetID ops x) = None \<and> docs m' = (docs m)(obj_TagGetID ops x \<mapsto> stored x)"
  unfolding mongo_behaves_def by (metis fst_conv snd_conv)

lemma mongo_updateD:
  "mongo_behaves ops tag_of mk stored mg docs \<Longrightarrow> mg_updateId mg i x m = (None, m') \<Longrightarrow>
   docs m i \<noteq> None \<and> docs m' = (docs m)(i \<mapsto> stored x)"
  unfolding mongo_behaves_def by (metis fst_conv snd_conv)

lemma mongo_removeD:
  "mongo_behaves ops tag_of mk stored mg docs \<Longrightarrow> mg_removeId mg i m = (None, m') \<Longrightarrow>
   docs m i \<noteq> None \<and> docs m' = (docs m)(i := None)"
  unfolding mongo_behaves_def by (metis fst_conv snd_conv)

lemma mongo_findD:
  assumes "mongo_behaves ops tag_of mk stored mg docs" "mg_findSub mg keys m = (Inr raws, m')"
  shows "docs m' = docs m"
    and "\<exists>ids. distinct ids \<and> set ids = ids_with_sub tag_of (docs m) keys \<and>
           list_all2 (\<lambda>raw i. reads_as ops tag_of mk mg raw (the (docs m i))) raws ids"
  using assms unfolding mongo_behaves_def by (metis fst_conv snd_conv)+

text \<open>
  Writes of one document are atomic, also when they report an error (the answer may be lost): they took
  effect or they changed nothing.
\<close>

definition mongo_atomic :: "('o, 'd) object_ops \<Rightarrow> ('o \<Rightarrow> 'o) \<Rightarrow> ('m, 'o, 'raw) mongo \<Rightarrow> ('m \<Rightarrow> string \<rightharpoonup> 'o) \<Rightarrow> bool" where
  "mongo_atomic ops stored mg docs \<longleftrightarrow>
     (\<forall>x m. fst (mg_insert mg x m) \<noteq> None \<longrightarrow>
        docs (snd (mg_insert mg x m)) \<in> {docs m, (docs m)(obj_TagGetID ops x \<mapsto> stored x)}) \<and>
     (\<forall>i x m. fst (mg_updateId mg i x m) \<noteq> None \<longrightarrow>
        docs (snd (mg_updateId mg i x m)) \<in> {docs m, (docs m)(i \<mapsto> stored x)}) \<and>
     (\<forall>i m. fst (mg_removeId mg i m) \<noteq> None \<longrightarrow>
        docs (snd (mg_removeId mg i m)) \<in> {docs m, (docs m)(i := None)})"

lemma mongo_insert_any:
  "mongo_behaves ops tag_of mk stored mg docs \<Longrightarrow> mongo_atomic ops stored mg docs \<Longrightarrow>
   docs (snd (mg_insert mg x m)) \<in> {docs m, (docs m)(obj_TagGetID ops x \<mapsto> stored x)}"
  unfolding mongo_behaves_def mongo_atomic_def by (metis insertCI)

lemma mongo_update_any:
  "mongo_behaves ops tag_of mk stored mg docs \<Longrightarrow> mongo_atomic ops stored mg docs \<Longrightarrow>
   docs (snd (mg_updateId mg i x m)) \<in> {docs m, (docs m)(i \<mapsto> stored x)}"
  unfolding mongo_behaves_def mongo_atomic_def by (metis insertCI)

lemma mongo_remove_any:
  "mongo_behaves ops tag_of mk stored mg docs \<Longrightarrow> mongo_atomic ops stored mg docs \<Longrightarrow>
   docs (snd (mg_removeId mg i m)) \<in> {docs m, (docs m)(i := None)}"
  unfolding mongo_behaves_def mongo_atomic_def by (metis insertCI)

subsection \<open>An instance\<close>

text \<open>A collection of the test objects; documents are the objects without their diff.\<close>

fun entity_stored :: "entity \<Rightarrow> entity" where
  "entity_stored (EHuman h) = EHuman (h\<lparr>hdiff := no_human_diff\<rparr>)"
| "entity_stored (EOrc x) = EOrc (x\<lparr>odiff := no_orc_diff\<rparr>)"

definition mem_find :: "string list \<Rightarrow> (string \<times> entity) list \<Rightarrow> entity list" where
  "mem_find keys m =
     map (\<lambda>i. the (map_of m i))
       (filter (\<lambda>i. TagSub (entity_tag (the (map_of m i))) \<in> set keys) (remdups (map fst m)))"

definition mem_mongo :: "((string \<times> entity) list, entity, entity) mongo" where
  "mem_mongo = \<lparr>
     mg_insert = (\<lambda>x m. if map_of m (obj_TagGetID entity_ops x) = None
                        then (None, (obj_TagGetID entity_ops x, entity_stored x) # m)
                        else (Some ''duplicate key'', m)),
     mg_updateId = (\<lambda>i x m. if map_of m i = None then (Some ''not found'', m) else (None, (i, entity_stored x) # m)),
     mg_removeId = (\<lambda>i m. if map_of m i = None then (Some ''not found'', m)
                          else (None, filter (\<lambda>d. fst d \<noteq> i) m)),
     mg_findSub = (\<lambda>keys m. (Inr (mem_find keys m), m)),
     mg_close = (\<lambda>m. m),
     raw_type = (\<lambda>raw. (None, \<lparr>to_Type = TagType (entity_tag raw)\<rparr>)),
     raw_into = (\<lambda>raw c. if obj_TypeKey entity_ops c = obj_TypeKey entity_ops raw
                         then (None, raw) else (Some ''type mismatch'', c))\<rparr>"

lemma map_of_filter_neq: "map_of (filter (\<lambda>d. fst d \<noteq> i) m) = (map_of m)(i := None)"
  by (induction m) (auto simp: fun_eq_iff)

lemma mem_find_list_all2:
  "list_all2 (\<lambda>raw i. reads_as entity_ops entity_tag creator mem_mongo raw (the (map_of m i)))
     (map (\<lambda>i. the (map_of m i)) ids) ids"
  by (induction ids) (auto simp: reads_as_def mem_mongo_def)

lemma mem_mongo_behaves:
  "mongo_behaves entity_ops entity_tag creator entity_stored mem_mongo map_of"
  unfolding mongo_behaves_def
proof (intro conjI allI impI)
  fix keys m raws
  assume raws: "fst (mg_findSub mem_mongo keys m) = Inr raws"
  let ?ids = "filter (\<lambda>i. TagSub (entity_tag (the (map_of m i))) \<in> set keys) (remdups (map fst m))"
  have "set ?ids = ids_with_sub entity_tag (map_of m) keys"
  proof (rule set_eqI)
    fix i
    have "i \<in> fst ` set m \<longleftrightarrow> (\<exists>x. map_of m i = Some x)"
      by (metis map_of_eq_None_iff not_None_eq)
    then show "i \<in> set ?ids \<longleftrightarrow> i \<in> ids_with_sub entity_tag (map_of m) keys"
      by (simp only: set_filter set_remdups set_map mem_Collect_eq ids_with_sub_def) auto
  qed
  moreover have "raws = map (\<lambda>i. the (map_of m i)) ?ids"
    using raws by (simp add: mem_mongo_def mem_find_def)
  ultimately show "\<exists>ids. distinct ids \<and> set ids = ids_with_sub entity_tag (map_of m) keys \<and>
      list_all2 (\<lambda>raw i. reads_as entity_ops entity_tag creator mem_mongo raw (the (map_of m i))) raws ids"
    using mem_find_list_all2 by (intro exI [of _ ?ids]) simp
qed (auto simp: mem_mongo_def map_of_filter_neq split: if_splits)

lemma mem_mongo_atomic: "mongo_atomic entity_ops entity_stored mem_mongo map_of"
  by (auto simp: mongo_atomic_def mem_mongo_def)

end
