(* ===== verification/Messages.thy ===== *)
theory Messages
  imports Objects
begin

text \<open>
  The messages of the protocol: those the server publishes (\<open>addMsg\<close>, \<open>modMsg\<close>,
  \<open>remMsg\<close> of \<open>MongoSynk.go\<close>) with their JSON encoding, and those a browser sends
  (\<open>Message.go\<close>) with \<open>MessageFromBytes\<close>, which classifies raw bytes by their method.
\<close>

section \<open>Messages to clients\<close>

record 'd addMsg =
  add_State :: 'd
  add_ID :: string
  add_SKey :: string
  add_PSKey :: string
  add_Version :: go_uint
  add_Type :: string

record 'd modMsg =
  mod_Diff :: 'd
  mod_ID :: string
  mod_Version :: go_uint
  mod_SKey :: string
  mod_NSKey :: string

record remMsg =
  rem_SKey :: string
  rem_Type :: string
  rem_ID :: string

text \<open>A string field tagged \<open>omitempty\<close>.\<close>

definition nonempty :: "string \<Rightarrow> json option" where
  "nonempty s = (if s = '''' then None else Some (JStr s))"

definition addMethod_json :: json where "addMethod_json = JStr ''add''"
definition modMethod_json :: json where "modMethod_json = JStr ''mod''"
definition remMethod_json :: json where "remMethod_json = JStr ''rem''"

text \<open>
  The trees of the three messages; the state and the diff are of an interface type, so their
  encoding is that of the dynamic type and may fail.
\<close>

definition addMsg_json :: "('o, 'd) object_ops \<Rightarrow> 'd addMsg \<Rightarrow> error + json" where
  "addMsg_json ops m =
     map_sum id (\<lambda>state. JObj (omitempty [
       (''method'', Some addMethod_json), (''state'', Some state), (''id'', Some (JStr (add_ID m))),
       (''sKey'', Some (JStr (add_SKey m))), (''psKey'', nonempty (add_PSKey m)),
       (''v'', Some (juint (add_Version m))), (''t'', Some (JStr (add_Type m)))]))
     (obj_MarshalDiff ops (add_State m))"

definition modMsg_json :: "('o, 'd) object_ops \<Rightarrow> 'd modMsg \<Rightarrow> error + json" where
  "modMsg_json ops m =
     map_sum id (\<lambda>diff. JObj (omitempty [
       (''method'', Some modMethod_json), (''diff'', Some diff), (''id'', Some (JStr (mod_ID m))),
       (''v'', Some (juint (mod_Version m))), (''sKey'', Some (JStr (mod_SKey m))),
       (''nsKey'', nonempty (mod_NSKey m))]))
     (obj_MarshalDiff ops (mod_Diff m))"

definition remMsg_json :: "remMsg \<Rightarrow> error + json" where
  "remMsg_json m = Inr (JObj [
     (''method'', remMethod_json), (''sKey'', JStr (rem_SKey m)), (''t'', JStr (rem_Type m)),
     (''id'', JStr (rem_ID m))])"

text \<open>What \<open>json.Marshal\<close> returns for a message always starts with a brace.\<close>

lemma render_obj_brace: "\<exists>r. render (JObj ms) = CHR ''{'' # r"
  by simp

lemma marshal_msg_brace:
  "marshal (addMsg_json ops a) = Inr b \<Longrightarrow> \<exists>r. b = CHR ''{'' # r"
  "marshal (modMsg_json ops m) = Inr b \<Longrightarrow> \<exists>r. b = CHR ''{'' # r"
  "marshal (remMsg_json k) = Inr b \<Longrightarrow> \<exists>r. b = CHR ''{'' # r"
  by (auto simp: marshal_def addMsg_json_def modMsg_json_def remMsg_json_def sum.map_comp
      simp del: omitempty.simps dest!: sym [of _ "Inr b"] split: sum.splits)
    (auto simp: map_sum_def split: sum.splits)

section \<open>Messages from clients\<close>

record MethodMessage =
  mm_Method :: string

record CustomMessage =
  cm_Method :: string
  cm_Data :: bytes

record UpdateSubscriptionMessage =
  us_Method :: string
  us_MapID :: string
  us_Add :: "string list"
  us_Remove :: "string list"

text \<open>The dynamic types of the \<open>interface{}\<close> that \<open>MessageFromBytes\<close> returns.\<close>

datatype client_msg =
    MethodMsg MethodMessage
  | CustomMsg CustomMessage
  | UpdateSubscriptionMsg UpdateSubscriptionMessage

definition MethodMessage_fields :: "string list" where
  "MethodMessage_fields = [''method'']"

definition MethodMessage_set_field :: "MethodMessage setter" where
  "MethodMessage_set_field n j m = map_prod id (\<lambda>v. m\<lparr>mm_Method := v\<rparr>) (decode_string j (mm_Method m))"

definition UpdateSubscriptionMessage_fields :: "string list" where
  "UpdateSubscriptionMessage_fields = [''method'', ''mapID'', ''add'', ''remove'']"

definition UpdateSubscriptionMessage_set_field :: "UpdateSubscriptionMessage setter" where
  "UpdateSubscriptionMessage_set_field n j m =
     (if n = ''method'' then map_prod id (\<lambda>v. m\<lparr>us_Method := v\<rparr>) (decode_string j (us_Method m))
      else if n = ''mapID'' then map_prod id (\<lambda>v. m\<lparr>us_MapID := v\<rparr>) (decode_string j (us_MapID m))
      else if n = ''add'' then map_prod id (\<lambda>v. m\<lparr>us_Add := v\<rparr>) (decode_strings j (us_Add m))
      else map_prod id (\<lambda>v. m\<lparr>us_Remove := v\<rparr>) (decode_strings j (us_Remove m)))"

definition empty_update :: UpdateSubscriptionMessage where
  "empty_update = \<lparr>us_Method = '''', us_MapID = '''', us_Add = [], us_Remove = []\<rparr>"

definition MessageFromBytes :: "bytes \<Rightarrow> client_msg \<times> error option" where
  "MessageFromBytes raw =
     (let (err, mm) = unmarshal MethodMessage_fields MethodMessage_set_field raw \<lparr>mm_Method = ''''\<rparr>
      in case err of
           Some e \<Rightarrow> (MethodMsg mm, Some e)
         | None \<Rightarrow>
             if mm_Method mm = '''' then
               (MethodMsg mm, Some ''MessageFromBytes received a message with no 'method' json'')
             else if mm_Method mm = ''updateSubscription'' then
               (let (err', msg) = unmarshal UpdateSubscriptionMessage_fields
                      UpdateSubscriptionMessage_set_field raw empty_update
                in (UpdateSubscriptionMsg msg, err'))
             else (CustomMsg \<lparr>cm_Method = mm_Method mm, cm_Data = raw\<rparr>, None))"

text \<open>The document that \<open>json.Marshal\<close> writes for an \<open>UpdateSubscriptionMessage\<close>.\<close>

definition UpdateSubscriptionMessage_json :: "UpdateSubscriptionMessage \<Rightarrow> json" where
  "UpdateSubscriptionMessage_json m = JObj [
     (''method'', JStr (us_Method m)), (''mapID'', JStr (us_MapID m)),
     (''add'', JArr (map JStr (us_Add m))), (''remove'', JArr (map JStr (us_Remove m)))]"

definition valid_update :: "UpdateSubscriptionMessage \<Rightarrow> bool" where
  "valid_update m \<longleftrightarrow> us_Method m = ''updateSubscription'' \<and> valid_utf8 (us_MapID m) \<and>
     list_all valid_utf8 (us_Add m) \<and> list_all valid_utf8 (us_Remove m)"

section \<open>What MessageFromBytes returns\<close>

lemma ascii_valid: "list_all (\<lambda>c. byte c < 0x80) s \<Longrightarrow> valid_utf8 s"
  by (induction s) (simp_all add: utf8_size.simps(2))

lemma MessageFromBytes_roundtrip_lib:
  assumes "valid_update m"
  shows "MessageFromBytes (render (UpdateSubscriptionMessage_json m)) = (UpdateSubscriptionMsg m, None)"
proof -
  have names: "valid_utf8 ''method''" "valid_utf8 ''mapID''" "valid_utf8 ''add''" "valid_utf8 ''remove''"
    "valid_utf8 ''updateSubscription''"
    by (rule ascii_valid, simp)+
  have wf: "wf_json (UpdateSubscriptionMessage_json m)"
    using assms names
    by (simp add: UpdateSubscriptionMessage_json_def valid_update_def list_all_iff del: valid_utf8.simps)
  have other: "find_field [''method''] ''mapID'' = None" "find_field [''method''] ''add'' = None"
      "find_field [''method''] ''remove'' = None"
    by (simp_all add: find_field_def ascii_lower_def byte_in_def)
  have one: "unmarshal MethodMessage_fields MethodMessage_set_field (render (UpdateSubscriptionMessage_json m)) \<lparr>mm_Method = ''''\<rparr>
      = (None, \<lparr>mm_Method = us_Method m\<rparr>)"
    unfolding unmarshal_render [OF wf] using other
    by (simp add: UpdateSubscriptionMessage_json_def decode_struct_def MethodMessage_fields_def MethodMessage_set_field_def)
  have "unmarshal UpdateSubscriptionMessage_fields UpdateSubscriptionMessage_set_field
      (render (UpdateSubscriptionMessage_json m)) empty_update = (None, m)"
    unfolding unmarshal_render [OF wf]
    by (simp add: UpdateSubscriptionMessage_json_def decode_struct_def UpdateSubscriptionMessage_fields_def
        UpdateSubscriptionMessage_set_field_def empty_update_def)
  then show ?thesis using one assms by (simp add: MessageFromBytes_def valid_update_def del: render.simps)
qed

lemma fold_field_names:
  "fold_key ''method'' = ''method''" "fold_key ''mapID'' = ''mapid''"
  "fold_key ''add'' = ''add''" "fold_key ''remove'' = ''remove''"
  by code_simp+

text \<open>A key that the four-field struct stores in \<open>Method\<close> is stored there by the one-field struct.\<close>

lemma find_method:
  "find_field UpdateSubscriptionMessage_fields k = Some ''method'' \<longleftrightarrow> find_field MethodMessage_fields k = Some ''method''"
  by (cases "fold_key k = ''method''")
    (auto simp: find_field_def UpdateSubscriptionMessage_fields_def MethodMessage_fields_def fold_field_names
      simp del: fold_key.simps split: if_splits)

lemma decode_members_method:
  "us_Method u = mm_Method m \<Longrightarrow>
   us_Method (snd (decode_members UpdateSubscriptionMessage_fields UpdateSubscriptionMessage_set_field ms u)) =
   mm_Method (snd (decode_members MethodMessage_fields MethodMessage_set_field ms m))"
proof (induction ms arbitrary: u m)
  case Nil
  then show ?case by simp
next
  case (Cons x ms)
  let ?u = "snd (case find_field UpdateSubscriptionMessage_fields (fst x) of None \<Rightarrow> (None, u)
      | Some n \<Rightarrow> UpdateSubscriptionMessage_set_field n (snd x) u)"
  let ?m = "snd (case find_field MethodMessage_fields (fst x) of None \<Rightarrow> (None, m)
      | Some n \<Rightarrow> MethodMessage_set_field n (snd x) m)"
  have "us_Method ?u = mm_Method ?m"
  proof (cases "find_field MethodMessage_fields (fst x) = Some ''method''")
    case True
    then show ?thesis using find_method [of "fst x"] Cons.prems
      by (simp add: MethodMessage_set_field_def UpdateSubscriptionMessage_set_field_def)
  next
    case False
    then have "find_field MethodMessage_fields (fst x) = None"
      using find_field_Some [of MethodMessage_fields "fst x"]
      by (cases "find_field MethodMessage_fields (fst x)") (auto simp: MethodMessage_fields_def)
    moreover have "find_field UpdateSubscriptionMessage_fields (fst x) \<noteq> Some ''method''"
      using False find_method [of "fst x"] by simp
    ultimately show ?thesis using Cons.prems
      by (auto simp: UpdateSubscriptionMessage_set_field_def split: option.split)
  qed
  from Cons.IH [OF this] show ?case by (simp add: case_prod_unfold Let_def)
qed

lemma unmarshal_method:
  "us_Method (snd (unmarshal UpdateSubscriptionMessage_fields UpdateSubscriptionMessage_set_field raw empty_update)) =
   mm_Method (snd (unmarshal MethodMessage_fields MethodMessage_set_field raw \<lparr>mm_Method = ''''\<rparr>))"
  using decode_members_method [of empty_update "\<lparr>mm_Method = ''''\<rparr>"]
  by (auto simp: unmarshal_def decode_struct_def empty_update_def split: option.split json.split)

text \<open>A message accepted without error has a method, and its kind is decided by that method.\<close>

lemma MessageFromBytes_ok:
  assumes "MessageFromBytes raw = (msg, None)"
  shows "(\<exists>u. msg = UpdateSubscriptionMsg u \<and> us_Method u = ''updateSubscription'') \<or>
         (\<exists>k. msg = CustomMsg \<lparr>cm_Method = k, cm_Data = raw\<rparr> \<and> k \<noteq> '''' \<and> k \<noteq> ''updateSubscription'')"
  using assms unmarshal_method [of raw]
  by (auto simp: MessageFromBytes_def Let_def case_prod_unfold split: option.splits if_splits)

lemma MessageFromBytes_syntax: "json_parse raw = None \<Longrightarrow> \<exists>m e. MessageFromBytes raw = (MethodMsg m, Some e)"
  by (simp add: MessageFromBytes_def unmarshal_def)

section \<open>What is accepted\<close>

text \<open>The values of the members of an object that match a field, which they do up to case.\<close>

definition values_of :: "string \<Rightarrow> (string \<times> json) list \<Rightarrow> json list" where
  "values_of n ms = map snd (filter (\<lambda>m. fold_key (fst m) = fold_key n) ms)"

text \<open>What a field of type \<open>string\<close> and one of type \<open>[]string\<close> can be given, and what they hold in the end.\<close>

fun text_or_null :: "json \<Rightarrow> bool" where
  "text_or_null JNull = True"
| "text_or_null (JStr s) = True"
| "text_or_null j = False"

fun texts_or_null :: "json \<Rightarrow> bool" where
  "texts_or_null JNull = True"
| "texts_or_null (JArr l) = list_all text_or_null l"
| "texts_or_null j = False"

fun text_of :: "json \<Rightarrow> string" where
  "text_of (JStr s) = s"
| "text_of j = ''''"

fun texts_of :: "json \<Rightarrow> string list" where
  "texts_of (JArr l) = map text_of l"
| "texts_of j = []"

definition last_text :: "json list \<Rightarrow> string" where
  "last_text vs = last ('''' # map text_of (filter (\<lambda>v. v \<noteq> JNull) vs))"

definition last_texts :: "json list \<Rightarrow> string list" where
  "last_texts vs = last ([] # map texts_of vs)"

lemma values_of_simps [simp]:
  "values_of n [] = []"
  "values_of n (m # ms) = (if fold_key (fst m) = fold_key n then snd m # values_of n ms else values_of n ms)"
  by (simp_all add: values_of_def)

lemma find_method_field:
  "find_field MethodMessage_fields k = (if fold_key k = fold_key ''method'' then Some ''method'' else None)"
  by (auto simp: find_field_def MethodMessage_fields_def simp del: fold_key.simps)

lemma find_update_field:
  "find_field UpdateSubscriptionMessage_fields k =
     (if fold_key k = fold_key ''method'' then Some ''method'' else if fold_key k = fold_key ''mapID'' then Some ''mapID''
      else if fold_key k = fold_key ''add'' then Some ''add'' else if fold_key k = fold_key ''remove'' then Some ''remove''
      else None)"
  by (auto simp: find_field_def UpdateSubscriptionMessage_fields_def fold_field_names simp del: fold_key.simps)

lemma decode_string_spec:
  "fst (decode_string j old) = None \<longleftrightarrow> text_or_null j"
  "text_or_null j \<Longrightarrow> snd (decode_string j old) = (if j = JNull then old else text_of j)"
  by (cases j; simp add: decode_string_def type_error_def)+

lemma decode_elems_spec:
  "(fst (decode_elems l) = None \<longleftrightarrow> list_all text_or_null l) \<and> (list_all text_or_null l \<longrightarrow> snd (decode_elems l) = map text_of l)"
proof (induction l)
  case (Cons j l)
  then show ?case
    using decode_string_spec [of j "''''"]
    by (cases "decode_string j ''''"; cases "decode_elems l"; cases "fst (decode_string j '''')") (auto split: if_splits)
qed simp

lemma decode_strings_spec:
  "fst (decode_strings j old) = None \<longleftrightarrow> texts_or_null j"
  "texts_or_null j \<Longrightarrow> snd (decode_strings j old) = texts_of j"
  using decode_elems_spec by (cases j; simp add: decode_strings_def type_error_def)+

lemma first_error_None [simp]: "first_error a b = None \<longleftrightarrow> a = None \<and> b = None"
  by (cases a) simp_all

lemma decode_method_members:
  "(fst (decode_members MethodMessage_fields MethodMessage_set_field ms r) = None \<longleftrightarrow> list_all text_or_null (values_of ''method'' ms)) \<and>
   (list_all text_or_null (values_of ''method'' ms) \<longrightarrow>
      mm_Method (snd (decode_members MethodMessage_fields MethodMessage_set_field ms r)) =
        last (mm_Method r # map text_of (filter (\<lambda>v. v \<noteq> JNull) (values_of ''method'' ms))))"
proof (induction ms arbitrary: r)
  case (Cons m ms)
  show ?case
    using Cons.IH decode_string_spec [of "snd m" "mm_Method r"]
    by (auto simp: find_method_field MethodMessage_set_field_def case_prod_unfold Let_def simp del: fold_key.simps)
qed simp

text \<open>The four fields of the request are stored independently of each other.\<close>

lemma decode_update_members:
  "(fst (decode_members UpdateSubscriptionMessage_fields UpdateSubscriptionMessage_set_field ms r) = None \<longleftrightarrow>
      list_all text_or_null (values_of ''method'' ms) \<and> list_all text_or_null (values_of ''mapID'' ms) \<and>
      list_all texts_or_null (values_of ''add'' ms) \<and> list_all texts_or_null (values_of ''remove'' ms)) \<and>
   (list_all text_or_null (values_of ''method'' ms) \<longrightarrow> list_all text_or_null (values_of ''mapID'' ms) \<longrightarrow>
    list_all texts_or_null (values_of ''add'' ms) \<longrightarrow> list_all texts_or_null (values_of ''remove'' ms) \<longrightarrow>
      snd (decode_members UpdateSubscriptionMessage_fields UpdateSubscriptionMessage_set_field ms r) =
        \<lparr>us_Method = last (us_Method r # map text_of (filter (\<lambda>v. v \<noteq> JNull) (values_of ''method'' ms))),
         us_MapID = last (us_MapID r # map text_of (filter (\<lambda>v. v \<noteq> JNull) (values_of ''mapID'' ms))),
         us_Add = last (us_Add r # map texts_of (values_of ''add'' ms)),
         us_Remove = last (us_Remove r # map texts_of (values_of ''remove'' ms))\<rparr>)"
proof (induction ms arbitrary: r)
  case (Cons m ms)
  show ?case
    using Cons.IH decode_string_spec [of "snd m" "us_Method r"] decode_string_spec [of "snd m" "us_MapID r"]
      decode_strings_spec [of "snd m" "us_Add r"] decode_strings_spec [of "snd m" "us_Remove r"]
    by (auto simp: find_update_field UpdateSubscriptionMessage_set_field_def fold_field_names case_prod_unfold Let_def
        simp del: fold_key.simps)
qed simp

section \<open>Properties\<close>

text \<open>
  The decoder reads back every JSON document that the encoder writes for a well-formed tree,
  whatever its strings contain, so different trees have different encodings.
\<close>

theorem json_roundtrip:
  assumes "wf_json a" "wf_json b"
  shows "json_parse (render a) = Some a \<and> (render a = render b \<longleftrightarrow> a = b)"
  using parse_render [OF assms(1)] render_inj [OF assms] by blast

lemma json_roundtrip_witness:
  "json_parse (render (JObj [(''k'', JArr [JNum ''-12'', JStr [CHR 0x22, CHR 0x0A, CHR ''<'']])])) =
     Some (JObj [(''k'', JArr [JNum ''-12'', JStr [CHR 0x22, CHR 0x0A, CHR ''<'']])])"
proof -
  have "wf_json (JObj [(''k'', JArr [JNum ''-12'', JStr [CHR 0x22, CHR 0x0A, CHR ''<'']])])" by code_simp
  from json_roundtrip [OF this this] show ?thesis by simp
qed

text \<open>
  C32: an encoded subscription request whose strings are valid UTF-8 is read back as the same request
  without error.
\<close>

theorem MessageFromBytes_roundtrip:
  assumes "valid_update m"
  shows "MessageFromBytes (render (UpdateSubscriptionMessage_json m)) = (UpdateSubscriptionMsg m, None)"
  by (rule MessageFromBytes_roundtrip_lib [OF assms])

definition sample_update :: UpdateSubscriptionMessage where
  "sample_update = \<lparr>us_Method = ''updateSubscription'', us_MapID = ''m'', us_Add = [''m:0|0''], us_Remove = [''m:1|0'']\<rparr>"

lemma MessageFromBytes_roundtrip_witness:
  "MessageFromBytes (render (UpdateSubscriptionMessage_json sample_update)) = (UpdateSubscriptionMsg sample_update, None)"
proof -
  have "valid_update sample_update" by code_simp
  from MessageFromBytes_roundtrip [OF this] show ?thesis .
qed

text \<open>
  C33: \<open>MessageFromBytes\<close> accepts exactly the JSON objects whose members that match \<open>method\<close> are strings
  or null, and which have a non-empty method, the last of these strings. With the method
  \<open>updateSubscription\<close> the members that match \<open>mapID\<close>, \<open>add\<close> and \<open>remove\<close> must be strings and lists of
  strings, or null, too, and the result is the subscription request with the last of each; with any
  other method it is a custom message with that method and the raw bytes. All other input, valid JSON or
  not, is refused with an error.
\<close>

theorem MessageFromBytes_classifies:
  "MessageFromBytes raw = (msg, None) \<longleftrightarrow>
     (\<exists>ms. json_parse raw = Some (JObj ms) \<and> list_all text_or_null (values_of ''method'' ms) \<and>
       last_text (values_of ''method'' ms) \<noteq> '''' \<and>
       (if last_text (values_of ''method'' ms) = ''updateSubscription''
        then list_all text_or_null (values_of ''mapID'' ms) \<and> list_all texts_or_null (values_of ''add'' ms) \<and>
          list_all texts_or_null (values_of ''remove'' ms) \<and>
          msg = UpdateSubscriptionMsg \<lparr>us_Method = ''updateSubscription'', us_MapID = last_text (values_of ''mapID'' ms),
            us_Add = last_texts (values_of ''add'' ms), us_Remove = last_texts (values_of ''remove'' ms)\<rparr>
        else msg = CustomMsg \<lparr>cm_Method = last_text (values_of ''method'' ms), cm_Data = raw\<rparr>))"
proof (cases "\<exists>ms. json_parse raw = Some (JObj ms)")
  case True
  then obtain ms where parsed: "json_parse raw = Some (JObj ms)" by blast
  let ?k = "last_text (values_of ''method'' ms)"
  let ?ok = "list_all text_or_null (values_of ''method'' ms)"
  let ?ok' = "list_all text_or_null (values_of ''mapID'' ms) \<and> list_all texts_or_null (values_of ''add'' ms) \<and>
      list_all texts_or_null (values_of ''remove'' ms)"
  let ?u = "\<lparr>us_Method = ?k, us_MapID = last_text (values_of ''mapID'' ms),
      us_Add = last_texts (values_of ''add'' ms), us_Remove = last_texts (values_of ''remove'' ms)\<rparr>"
  obtain e mm where one: "decode_members MethodMessage_fields MethodMessage_set_field ms \<lparr>mm_Method = ''''\<rparr> = (e, mm)" by fastforce
  obtain e' u where four: "decode_members UpdateSubscriptionMessage_fields UpdateSubscriptionMessage_set_field ms empty_update = (e', u)"
    by fastforce
  have mm: "e = None \<longleftrightarrow> ?ok" "?ok \<Longrightarrow> mm_Method mm = ?k"
    using decode_method_members [of ms "\<lparr>mm_Method = ''''\<rparr>"] unfolding one by (simp_all add: last_text_def)
  have u: "e' = None \<longleftrightarrow> ?ok \<and> ?ok'" "?ok \<Longrightarrow> ?ok' \<Longrightarrow> u = ?u"
    using decode_update_members [of ms empty_update] unfolding four by (simp_all add: last_text_def last_texts_def empty_update_def)
  have calls: "unmarshal MethodMessage_fields MethodMessage_set_field raw \<lparr>mm_Method = ''''\<rparr> = (e, mm)"
      "unmarshal UpdateSubscriptionMessage_fields UpdateSubscriptionMessage_set_field raw empty_update = (e', u)"
    by (simp_all add: unmarshal_def decode_struct_def parsed one four)
  have whole: "MessageFromBytes raw =
      (case e of Some x \<Rightarrow> (MethodMsg mm, Some x)
       | None \<Rightarrow> if mm_Method mm = '''' then (MethodMsg mm, Some ''MessageFromBytes received a message with no 'method' json'')
           else if mm_Method mm = ''updateSubscription'' then (UpdateSubscriptionMsg u, e')
           else (CustomMsg \<lparr>cm_Method = mm_Method mm, cm_Data = raw\<rparr>, None))"
    by (simp add: MessageFromBytes_def calls split: option.split)
  have "MessageFromBytes raw = (msg, None) \<longleftrightarrow> ?ok \<and> ?k \<noteq> '''' \<and>
      (if ?k = ''updateSubscription'' then ?ok' \<and> msg = UpdateSubscriptionMsg ?u
       else msg = CustomMsg \<lparr>cm_Method = ?k, cm_Data = raw\<rparr>)"
  proof (cases ?ok)
    case False
    with mm(1) whole show ?thesis by (cases e) auto
  next
    case True
    note k = mm(2) [OF True]
    have e: "e = None" using mm(1) True by simp
    show ?thesis
    proof (cases "?k = ''updateSubscription''")
      case upd: True
      then have w: "MessageFromBytes raw = (UpdateSubscriptionMsg u, e')" unfolding whole e k by simp
      from upd True u show ?thesis unfolding w by (cases ?ok') auto
    next
      case False
      with True show ?thesis unfolding whole e k by auto
    qed
  qed
  then show ?thesis unfolding parsed by (cases "?k = ''updateSubscription''") auto
next
  case False
  then have "MessageFromBytes raw \<noteq> (msg, None)"
    by (auto simp: MessageFromBytes_def unmarshal_def decode_struct_def split: option.splits json.splits)
  with False show ?thesis by blast
qed

text \<open>A custom message, one whose method is not a string, a request with a bad key, and one that is accepted.\<close>

definition move_object :: "(string \<times> json) list" where
  "move_object = [(''Method'', JStr ''move''), (''add'', JNum ''1'')]"

definition bad_request :: "(string \<times> json) list" where
  "bad_request = [(''method'', JStr ''updateSubscription''), (''add'', JArr [JNum ''1''])]"

definition good_request :: "(string \<times> json) list" where
  "good_request = [(''method'', JStr ''updateSubscription''), (''Add'', JArr [JStr ''k'', JNull]), (''add'', JArr [JStr ''m''])]"

lemma demo_objects_parse:
  "json_parse (render (JObj move_object)) = Some (JObj move_object)"
  "json_parse (render (JObj bad_request)) = Some (JObj bad_request)"
  "json_parse (render (JObj good_request)) = Some (JObj good_request)"
  "json_parse (render (JObj [(''method'', JNum ''1'')])) = Some (JObj [(''method'', JNum ''1'')])"
  by code_simp+

lemma demo_objects_values:
  "last_text (values_of ''method'' move_object) = ''move''" "list_all text_or_null (values_of ''method'' move_object)"
  "last_text (values_of ''method'' bad_request) = ''updateSubscription''" "\<not> list_all texts_or_null (values_of ''add'' bad_request)"
  "last_text (values_of ''method'' good_request) = ''updateSubscription''" "list_all text_or_null (values_of ''method'' good_request)"
  "list_all text_or_null (values_of ''mapID'' good_request)" "list_all texts_or_null (values_of ''add'' good_request)"
  "list_all texts_or_null (values_of ''remove'' good_request)" "last_text (values_of ''mapID'' good_request) = ''''"
  "last_texts (values_of ''add'' good_request) = [''m'']" "last_texts (values_of ''remove'' good_request) = []"
  "\<not> list_all text_or_null (values_of ''method'' [(''method'', JNum ''1'')])"
  by code_simp+

lemma MessageFromBytes_classifies_witness:
  "MessageFromBytes (render (JObj move_object)) = (CustomMsg \<lparr>cm_Method = ''move'', cm_Data = render (JObj move_object)\<rparr>, None) \<and>
   MessageFromBytes (render (JObj good_request)) =
     (UpdateSubscriptionMsg \<lparr>us_Method = ''updateSubscription'', us_MapID = '''', us_Add = [''m''], us_Remove = []\<rparr>, None) \<and>
   snd (MessageFromBytes (render (JObj bad_request))) \<noteq> None \<and>
   snd (MessageFromBytes (render (JObj [(''method'', JNum ''1'')]))) \<noteq> None"
proof (intro conjI notI)
  show "MessageFromBytes (render (JObj move_object)) = (CustomMsg \<lparr>cm_Method = ''move'', cm_Data = render (JObj move_object)\<rparr>, None)"
    by (rule MessageFromBytes_classifies [THEN iffD2], rule exI [of _ move_object])
      (simp add: demo_objects_parse demo_objects_values del: render.simps)
  show "MessageFromBytes (render (JObj good_request)) =
      (UpdateSubscriptionMsg \<lparr>us_Method = ''updateSubscription'', us_MapID = '''', us_Add = [''m''], us_Remove = []\<rparr>, None)"
    by (rule MessageFromBytes_classifies [THEN iffD2], rule exI [of _ good_request])
      (simp add: demo_objects_parse demo_objects_values del: render.simps)
next
  assume "snd (MessageFromBytes (render (JObj bad_request))) = None"
  then obtain msg where "MessageFromBytes (render (JObj bad_request)) = (msg, None)"
    by (cases "MessageFromBytes (render (JObj bad_request))") (simp del: render.simps)
  with MessageFromBytes_classifies [of "render (JObj bad_request)" msg] show False
    by (simp add: demo_objects_parse demo_objects_values del: render.simps)
next
  assume "snd (MessageFromBytes (render (JObj [(''method'', JNum ''1'')]))) = None"
  then obtain msg where "MessageFromBytes (render (JObj [(''method'', JNum ''1'')])) = (msg, None)"
    by (cases "MessageFromBytes (render (JObj [(''method'', JNum ''1'')]))") (simp del: render.simps)
  with MessageFromBytes_classifies [of "render (JObj [(''method'', JNum ''1'')])" msg] show False
    by (simp add: demo_objects_parse demo_objects_values del: render.simps values_of_simps)
qed

end
