(* ===== verification/Mongo_Synk.thy ===== *)
theory Mongo_Synk
  imports Services Messages
begin

text \<open>
  \<open>MongoSynk.go\<close>: the database back end. The state of an operation is the object it works on
  (Go passes a pointer), the random source, the collection and the Redis server; an operation
  returns its error, or panics through \<open>epanic\<close>, together with the state it leaves behind.
  The lemmas are proved for every implementation of the \<open>Object\<close> interface.
\<close>

section \<open>State and helpers\<close>

record ('o, 'm, 'r) mstate =
  ms_obj :: 'o
  ms_rand :: rand
  ms_mongo :: 'm
  ms_redis :: 'r

text \<open>\<open>epanic\<close>: the text of the panic that \<open>log.Panicln(reason, err.Error())\<close> raises.\<close>

definition epanic :: "string \<Rightarrow> error option \<Rightarrow> string option" where
  "epanic reason err = map_option (\<lambda>e. reason @ '' '' @ e @ [CHR 0x0A]) err"

text \<open>
  A call whose error is handed to \<open>epanic\<close>; without an error the method goes on. A panic of the call
  itself ends the method.
\<close>

definition checked :: "string \<Rightarrow> error option go \<times> 's \<Rightarrow> ('s \<Rightarrow> 'a go \<times> 's) \<Rightarrow> 'a go \<times> 's" where
  "checked reason call k =
     (case fst call of
        Panic p \<Rightarrow> (Panic p, snd call)
      | Ret err \<Rightarrow> (case epanic reason err of Some p \<Rightarrow> (Panic p, snd call) | None \<Rightarrow> k (snd call)))"

lemma checked_Ret:
  "checked reason (err, s) k = (Ret v, s') \<longleftrightarrow> err = Ret None \<and> k s = (Ret v, s')"
  by (auto simp: checked_def epanic_def split: go.split option.split)

lemma checked_simps [simp]:
  "checked reason (Ret None, s) k = k s"
  "checked reason (Ret (Some e), s) k = (Panic (reason @ '' '' @ e @ [CHR 0x0A]), s)"
  "checked reason (Panic p, s) k = (Panic p, s)"
  by (simp_all add: checked_def epanic_def)

text \<open>Calls on the collection and on Redis as steps of the whole state.\<close>

definition on_mongo :: "('m \<Rightarrow> error option \<times> 'm) \<Rightarrow> ('o, 'm, 'r) mstate \<Rightarrow> error option go \<times> ('o, 'm, 'r) mstate" where
  "on_mongo f s = (let (e, m) = f (ms_mongo s) in (Ret e, s\<lparr>ms_mongo := m\<rparr>))"

definition on_redis :: "('r \<Rightarrow> error option go \<times> 'r) \<Rightarrow> ('o, 'm, 'r) mstate \<Rightarrow> error option go \<times> ('o, 'm, 'r) mstate" where
  "on_redis f s = (let (e, r) = f (ms_redis s) in (e, s\<lparr>ms_redis := r\<rparr>))"

section \<open>Sending\<close>

text \<open>A connection of the pool is taken, which may panic, and the message is sent over it.\<close>

definition publish_on :: "'r redis \<Rightarrow> string \<Rightarrow> bytes \<Rightarrow> 'r \<Rightarrow> error option \<times> 'r" where
  "publish_on rd channel b r = (let (res, r') = conn_Do rd (PUBLISH channel b) r in (err_of res, r'))"

definition publish_bytes :: "'r redis \<Rightarrow> string \<Rightarrow> bytes \<Rightarrow> 'r \<Rightarrow> error option go \<times> 'r" where
  "publish_bytes rd channel b r = with_conn rd (publish_on rd channel b) r"

text \<open>
  \<open>Publish(channel, msg)\<close>: a byte slice is sent as it is, anything else is marshalled, after the connection
  was taken.
\<close>

datatype payload = RawBytes bytes | GoValue "error + json"

definition MongoSynk_Publish :: "'r redis \<Rightarrow> string \<Rightarrow> payload \<Rightarrow> 'r \<Rightarrow> error option go \<times> 'r" where
  "MongoSynk_Publish rd channel msg r =
     with_conn rd (\<lambda>r1.
       case msg of
         RawBytes b \<Rightarrow> publish_on rd channel b r1
       | GoValue v \<Rightarrow> (case marshal v of Inl e \<Rightarrow> (Some e, r1) | Inr b \<Rightarrow> publish_on rd channel b r1)) r"

definition MongoSynk_send :: "('o, 'd) object_ops \<Rightarrow> 'r redis \<Rightarrow> 'd addMsg \<Rightarrow> 'r \<Rightarrow> error option go \<times> 'r" where
  "MongoSynk_send ops rd msg r =
     (case marshal (addMsg_json ops msg) of
        Inl e \<Rightarrow> (Ret (Some e), r)
      | Inr b \<Rightarrow> publish_bytes rd (add_SKey msg) b r)"

definition MongoSynk_sendMod :: "('o, 'd) object_ops \<Rightarrow> 'r redis \<Rightarrow> 'd modMsg \<Rightarrow> 'r \<Rightarrow> error option go \<times> 'r" where
  "MongoSynk_sendMod ops rd msg r =
     (case marshal (modMsg_json ops msg) of
        Inl e \<Rightarrow> (Ret (Some e), r)
      | Inr b \<Rightarrow> publish_bytes rd (mod_SKey msg) b r)"

definition MongoSynk_sendAddFrom :: "('o, 'd) object_ops \<Rightarrow> 'r redis \<Rightarrow> 'd addMsg \<Rightarrow> string \<Rightarrow> 'r \<Rightarrow> error option go \<times> 'r" where
  "MongoSynk_sendAddFrom ops rd msg from r =
     (case marshal (addMsg_json ops msg) of
        Inl e \<Rightarrow> (Ret (Some e), r)
      | Inr b \<Rightarrow> publish_bytes rd (add_SKey msg) (''from '' @ add_PSKey msg @ b) r)"

definition MongoSynk_sendRem :: "'r redis \<Rightarrow> remMsg \<Rightarrow> 'r \<Rightarrow> error option go \<times> 'r" where
  "MongoSynk_sendRem rd msg r =
     (case marshal (remMsg_json msg) of
        Inl e \<Rightarrow> (Ret (Some e), r)
      | Inr b \<Rightarrow> publish_bytes rd (rem_SKey msg) b r)"

section \<open>Create, Modify, Delete\<close>

definition MongoSynk_Create :: "('o, 'd) object_ops \<Rightarrow> ('m, 'o, 'raw) mongo \<Rightarrow> 'r redis \<Rightarrow>
    ('o, 'm, 'r) mstate \<Rightarrow> error option go \<times> ('o, 'm, 'r) mstate" where
  "MongoSynk_Create ops mg rd s =
     (let typeKey = obj_TypeKey ops (ms_obj s);
          (x1, rand1) = obj_TagInit ops typeKey (ms_obj s) (ms_rand s);
          x2 = run_OnCreate ops x1;
          x3 = snd (obj_Resolve ops x2);
          subscription = obj_GetSubKey ops x3;
          x4 = obj_TagSetSub ops subscription x3;
          msg = \<lparr>add_State = obj_State ops x4, add_ID = obj_TagGetID ops x4, add_SKey = subscription,
                 add_PSKey = '''', add_Version = obj_Version ops x4, add_Type = typeKey\<rparr>;
          s1 = s\<lparr>ms_obj := x4, ms_rand := rand1\<rparr>
      in checked ''Failed to create new object in Mongodb'' (on_mongo (mg_insert mg x4) s1)
           (\<lambda>s2. checked ''Failed to send addMsg'' (on_redis (MongoSynk_send ops rd msg) s2)
              (\<lambda>s3. (Ret None, s3))))"

definition MongoSynk_Modify :: "('o, 'd) object_ops \<Rightarrow> ('m, 'o, 'raw) mongo \<Rightarrow> 'r redis \<Rightarrow>
    ('o, 'm, 'r) mstate \<Rightarrow> error option go \<times> ('o, 'm, 'r) mstate" where
  "MongoSynk_Modify ops mg rd s =
     (let x = ms_obj s;
          nsk = obj_GetSubKey ops x;
          psk = obj_GetPrevSubKey ops x;
          ident = obj_TagGetID ops x;
          simple = (nsk = psk);
          (diff, x1) = obj_Resolve ops x;
          msg = \<lparr>mod_Diff = diff, mod_ID = ident, mod_Version = obj_Version ops x1, mod_SKey = psk,
                 mod_NSKey = (if simple then '''' else nsk)\<rparr>
      in if simple then
           checked ''Mongosynk.Modify failed to insert object''
             (on_mongo (mg_updateId mg ident x1) (s\<lparr>ms_obj := x1\<rparr>))
             (\<lambda>s2. checked ''MongoSynk.Modify failed to send message'' (on_redis (MongoSynk_sendMod ops rd msg) s2)
                (\<lambda>s3. (Ret None, s3)))
         else
           (let x2 = obj_TagSetSub ops nsk x1;
                amsg = \<lparr>add_State = obj_State ops x2, add_ID = ident, add_SKey = nsk, add_PSKey = psk,
                        add_Version = obj_Version ops x2, add_Type = obj_TypeKey ops x2\<rparr>;
                x3 = obj_TagSetSub ops nsk x2
            in checked ''MongoSynk.Modify failed to insert on a non-simple Modify''
                 (on_mongo (mg_updateId mg ident x3) (s\<lparr>ms_obj := x3\<rparr>))
                 (\<lambda>s2. checked ''MongoSynk.Modify failed to send mod message on a non-simple Modify''
                    (on_redis (MongoSynk_sendMod ops rd msg) s2)
                    (\<lambda>s3. checked ''MongoSynk.Modify failed to send add message on a non-simple Modify''
                       (on_redis (MongoSynk_sendAddFrom ops rd amsg psk) s3)
                       (\<lambda>s4. (Ret None, s4))))))"

definition MongoSynk_Delete :: "('o, 'd) object_ops \<Rightarrow> ('m, 'o, 'raw) mongo \<Rightarrow> 'r redis \<Rightarrow>
    ('o, 'm, 'r) mstate \<Rightarrow> error option go \<times> ('o, 'm, 'r) mstate" where
  "MongoSynk_Delete ops mg rd s =
     (let x = ms_obj s;
          msg = \<lparr>rem_SKey = obj_GetPrevSubKey ops x, rem_Type = obj_TypeKey ops x, rem_ID = obj_TagGetID ops x\<rparr>
      in checked ''MongoSynk.Delete failed to Remove an object''
           (on_mongo (mg_removeId mg (obj_TagGetID ops x)) s)
           (\<lambda>s2. checked ''MongoSynk.Delete failed to send rem message'' (on_redis (MongoSynk_sendRem rd msg) s2)
              (\<lambda>s3. (Ret None, s3))))"

text \<open>\<open>Close\<close>; the collection may be nil.\<close>

definition MongoSynk_Close :: "('m, 'o, 'raw) mongo option \<Rightarrow> 'm \<Rightarrow> error option \<times> 'm" where
  "MongoSynk_Close coll m = (None, case coll of Some mg \<Rightarrow> mg_close mg m | None \<Rightarrow> m)"

section \<open>Load\<close>

text \<open>The loop over the raw documents; each \<open>continue\<close> of the source skips a document.\<close>

fun load_loop :: "(string \<Rightarrow> 'o option) \<Rightarrow> ('m, 'o, 'raw) mongo \<Rightarrow> 'raw list \<Rightarrow> 'o list" where
  "load_loop Creator mg [] = []"
| "load_loop Creator mg (raw # raws) =
     (case raw_type mg raw of
        (Some e, _) \<Rightarrow> load_loop Creator mg raws
      | (None, temp) \<Rightarrow>
          (case Creator (to_Type temp) of
             None \<Rightarrow> load_loop Creator mg raws
           | Some container \<Rightarrow>
               (case raw_into mg raw container of
                  (Some e, _) \<Rightarrow> load_loop Creator mg raws
                | (None, x) \<Rightarrow> x # load_loop Creator mg raws)))"

definition MongoSynk_Load :: "(string \<Rightarrow> 'o option) \<Rightarrow> ('m, 'o, 'raw) mongo \<Rightarrow> string list \<Rightarrow>
    'm \<Rightarrow> ('o list \<times> error option) go \<times> 'm" where
  "MongoSynk_Load Creator mg sKeys m =
     (let (found, m1) = mg_findSub mg sKeys m
      in case epanic ''MongoSynk.GetObjects: error with .All mongo query'' (err_of found) of
           Some p \<Rightarrow> (Panic p, m1)
         | None \<Rightarrow> (Ret (load_loop Creator mg (case found of Inr raws \<Rightarrow> raws | Inl e \<Rightarrow> []), None), m1))"

end
