(* ===== verification/Config.thy ===== *)
theory Config
  imports Prelude
begin

text \<open>
  The package configuration of \<open>Interfaces.go\<close>: variables initialised from the environment, and
  \<open>init\<close>, which fills in the defaults and prints them.
\<close>

record config =
  RedisAddr :: string
  MongoAddr :: string
  MongoDBName :: string
  mongoUser :: string
  mongoPass :: string
  mongoLoginRequired :: bool

text \<open>The initial values; \<open>os.Getenv\<close> gives the empty string for a variable that is not set.\<close>

definition config_vars :: "(string \<Rightarrow> string) \<Rightarrow> config" where
  "config_vars Getenv = \<lparr>
     RedisAddr = Getenv ''SYNK_REDIS_ADDR'',
     MongoAddr = Getenv ''SYNK_MONGO_ADDR'',
     MongoDBName = Getenv ''SYNK_MONGO_DB'',
     mongoUser = Getenv ''SYNK_MONGO_USER'',
     mongoPass = Getenv ''SYNK_MONGO_PASS'',
     mongoLoginRequired = False\<rparr>"

definition init_config :: "config \<Rightarrow> config" where
  "init_config c =
     (let c1 = (if index_byte (CHR '':'') (RedisAddr c) = None then c\<lparr>RedisAddr := RedisAddr c @ '':6379''\<rparr> else c);
          c2 = (if MongoAddr c1 = '''' then c1\<lparr>MongoAddr := ''localhost''\<rparr> else c1);
          c3 = (if MongoDBName c2 = '''' then c2\<lparr>MongoDBName := ''synk''\<rparr> else c2)
      in if mongoUser c3 \<noteq> '''' \<or> mongoPass c3 \<noteq> '''' then c3\<lparr>mongoLoginRequired := True\<rparr> else c3)"

text \<open>\<open>fmt.Println\<close> puts a space between its operands and a newline behind them.\<close>

definition Println :: "string list \<Rightarrow> string" where
  "Println ws = (case ws of [] \<Rightarrow> '''' | w # vs \<Rightarrow> w @ concat (map (\<lambda>v. '' '' @ v) vs)) @ [CHR 0x0A]"

definition init_output :: "config \<Rightarrow> string" where
  "init_output c =
     Println [''Redis Address:'', RedisAddr c] @ Println [''Mongo Address:'', MongoAddr c] @
     Println [''Mongo DB Name:'', MongoDBName c] @
     (if mongoLoginRequired c then Println [''Mongo User:'', mongoUser c]
      else Println [''Mongo will not attempt to authenticate''])"

text \<open>What a process has set up and printed when its \<open>main\<close> starts.\<close>

definition init_package :: "(string \<Rightarrow> string) \<Rightarrow> config \<times> string" where
  "init_package Getenv = (let c = init_config (config_vars Getenv) in (c, init_output c))"

lemma init_config_eq:
  "init_config c =
     \<lparr>RedisAddr = (if CHR '':'' \<in> set (RedisAddr c) then RedisAddr c else RedisAddr c @ '':6379''),
      MongoAddr = (if MongoAddr c = '''' then ''localhost'' else MongoAddr c),
      MongoDBName = (if MongoDBName c = '''' then ''synk'' else MongoDBName c),
      mongoUser = mongoUser c, mongoPass = mongoPass c,
      mongoLoginRequired = (if mongoUser c = '''' \<and> mongoPass c = '''' then mongoLoginRequired c else True)\<rparr>"
  by (rule config.equality) (simp_all add: init_config_def Let_def index_byte_None, blast)

text \<open>
  After initialisation the Redis address names a port (the configured one, else 6379 behind the
  configured host), the MongoDB address and database are not empty and are the configured ones where
  those were given, a login is required exactly when a user or a password is configured, and
  initialising again changes nothing.
\<close>

theorem init_config_defaults:
  "CHR '':'' \<in> set (RedisAddr (init_config (config_vars env))) \<and>
   RedisAddr (init_config (config_vars env)) =
     (if CHR '':'' \<in> set (env ''SYNK_REDIS_ADDR'') then env ''SYNK_REDIS_ADDR'' else env ''SYNK_REDIS_ADDR'' @ '':6379'') \<and>
   MongoAddr (init_config (config_vars env)) =
     (if env ''SYNK_MONGO_ADDR'' = '''' then ''localhost'' else env ''SYNK_MONGO_ADDR'') \<and>
   MongoDBName (init_config (config_vars env)) =
     (if env ''SYNK_MONGO_DB'' = '''' then ''synk'' else env ''SYNK_MONGO_DB'') \<and>
   mongoLoginRequired (init_config (config_vars env)) =
     (\<not> (env ''SYNK_MONGO_USER'' = '''' \<and> env ''SYNK_MONGO_PASS'' = '''')) \<and>
   init_config (init_config (config_vars env)) = init_config (config_vars env)"
  by (simp add: init_config_eq config_vars_def)

text \<open>
  The password is not printed: what the package prints at its start is the same for any two
  environments that differ only in the password, as long as a user is configured or both or neither of
  the passwords are empty.
\<close>

theorem password_not_printed:
  assumes "\<And>v. v \<noteq> ''SYNK_MONGO_PASS'' \<Longrightarrow> env v = env' v"
    and "env ''SYNK_MONGO_USER'' \<noteq> '''' \<or> (env ''SYNK_MONGO_PASS'' = '''' \<longleftrightarrow> env' ''SYNK_MONGO_PASS'' = '''')"
  shows "snd (init_package env) = snd (init_package env')"
  using assms(2)
  by (auto simp: init_package_def init_output_def init_config_eq config_vars_def Let_def assms(1))

lemma password_not_printed_witness:
  "snd (init_package ((\<lambda>_. '''')(''SYNK_MONGO_USER'' := ''me'', ''SYNK_MONGO_PASS'' := ''secret''))) =
   snd (init_package ((\<lambda>_. '''')(''SYNK_MONGO_USER'' := ''me'', ''SYNK_MONGO_PASS'' := ''other'')))"
  by (rule password_not_printed) simp_all

end
