(* ===== verification/Node.thy ===== *)
theory Node
  imports Mongo_Synk Config
begin

text \<open>
  \<open>Node.go\<close>: the access point that holds the connections to the services and the two
  constructors that the application registers. The drivers (\<open>mgo\<close>, \<open>redigo\<close>,
  \<open>pubsub\<close>) are parameters: what dialling and logging in return, and how a session is cloned
  into a collection.
\<close>

section \<open>Dialling\<close>

record credential =
  cred_Username :: string
  cred_Password :: string
  cred_Source :: string
  cred_Mechanism :: string

record ('s, 'c, 'm, 'a) drivers =
  mgo_Dial :: "string \<Rightarrow> error + 's"
  mgo_Login :: "credential \<Rightarrow> 's \<Rightarrow> error option \<times> 's"
  redis_Dial :: "string \<Rightarrow> error + 'c"
  NewRedisAgents :: "'c \<Rightarrow> 'a"
  session_Coll :: "'s \<Rightarrow> string \<Rightarrow> string \<Rightarrow> 'm"  \<comment> \<open>\<open>Clone().DB(name).C(coll)\<close>\<close>

definition DialMongo :: "('s, 'c, 'm, 'a) drivers \<Rightarrow> config \<Rightarrow> 's go" where
  "DialMongo dr cfg =
     (case mgo_Dial dr (MongoAddr cfg) of
        Inl e \<Rightarrow> Panic (''Error Dialing mongodb: '' @ e)
      | Inr session \<Rightarrow>
          if mongoLoginRequired cfg then
            (case mgo_Login dr \<lparr>cred_Username = mongoUser cfg, cred_Password = mongoPass cfg,
                cred_Source = MongoDBName cfg, cred_Mechanism = ''SCRAM-SHA-1''\<rparr> session of
               (Some e, _) \<Rightarrow> Panic (''Error Authorizing mongodb: '' @ e)
             | (None, session') \<Rightarrow> Ret session')
          else Ret session)"

definition DialRedis :: "('s, 'c, 'm, 'a) drivers \<Rightarrow> config \<Rightarrow> 'c go" where
  "DialRedis dr cfg =
     (case redis_Dial dr (RedisAddr cfg) of
        Inl e \<Rightarrow> Panic (''Failed to connect to redis: '' @ e)
      | Inr conn \<Rightarrow> Ret conn)"

text \<open>
  The pool dials when a connection is needed; its \<open>Dial\<close> function is the same code as
  \<open>DialRedis\<close>. The timeouts and the number of idle connections are kept as data.
\<close>

record 'c redis_pool =
  MaxIdle :: nat
  IdleTimeout :: nat
  pool_Dial :: "unit \<Rightarrow> 'c go"

definition DialRedisPool :: "('s, 'c, 'm, 'a) drivers \<Rightarrow> config \<Rightarrow> 'c redis_pool" where
  "DialRedisPool dr cfg = \<lparr>MaxIdle = 100, IdleTimeout = 240,
     pool_Dial = (\<lambda>_. case redis_Dial dr (RedisAddr cfg) of
        Inl e \<Rightarrow> Panic (''Failed to connect to redis: '' @ e)
      | Inr conn \<Rightarrow> Ret conn)\<rparr>"

section \<open>The node\<close>

text \<open>
  A constructor that is not registered is nil. \<open>'o\<close> is the type of objects, \<open>'cl\<close> that of a
  client handle and \<open>'cc\<close> that of a custom client.
\<close>

record ('s, 'c, 'a, 'o, 'cl, 'cc) node =
  mongoSession :: 's
  redisPool :: "'c redis_pool"
  redisAgents :: 'a
  newContainer :: "(string \<Rightarrow> 'o option) option"
  newClientFn :: "('cl \<Rightarrow> 'cc option) option"

definition NewNode :: "('s, 'c, 'm, 'a) drivers \<Rightarrow> config \<Rightarrow> ('s, 'c, 'a, 'o, 'cl, 'cc) node go" where
  "NewNode dr cfg =
     (case DialMongo dr cfg of
        Panic p \<Rightarrow> Panic p
      | Ret session \<Rightarrow>
          (case DialRedis dr cfg of
             Panic p \<Rightarrow> Panic p
           | Ret conn \<Rightarrow> Ret \<lparr>mongoSession = session, redisPool = DialRedisPool dr cfg,
               redisAgents = NewRedisAgents dr conn, newContainer = None, newClientFn = None\<rparr>))"

text \<open>
  The \<open>MongoSynk\<close> that a node hands out. Its creator is either the method value
  \<open>node.NewContainer\<close>, which looks up the registered constructor when it is called, or that
  constructor itself.
\<close>

datatype 'o creator_fn = NodeMethod | Constructor "string \<Rightarrow> 'o option"

record ('o, 'c, 'm) MongoSynk =
  synk_Creator :: "'o creator_fn"
  synk_Coll :: 'm
  synk_RedisPool :: "'c redis_pool"

definition CreateMutator :: "('s, 'c, 'm, 'a) drivers \<Rightarrow> config \<Rightarrow> ('s, 'c, 'a, 'o, 'cl, 'cc) node \<Rightarrow> ('o, 'c, 'm) MongoSynk go" where
  "CreateMutator dr cfg n =
     (if newContainer n = None then Panic ''Tried to get a mutator, but not NewContainer is not set''
      else Ret \<lparr>synk_Creator = NodeMethod,
             synk_Coll = session_Coll dr (mongoSession n) (MongoDBName cfg) ''objects'',
             synk_RedisPool = redisPool n\<rparr>)"

definition CreateLoader :: "('s, 'c, 'm, 'a) drivers \<Rightarrow> config \<Rightarrow> ('s, 'c, 'a, 'o, 'cl, 'cc) node \<Rightarrow> ('o, 'c, 'm) MongoSynk go" where
  "CreateLoader dr cfg n =
     (case newContainer n of
        None \<Rightarrow> Panic ''Tried to get a Loader, but not NewContainer is not set''
      | Some f \<Rightarrow> Ret \<lparr>synk_Creator = Constructor f,
             synk_Coll = session_Coll dr (mongoSession n) (MongoDBName cfg) ''objects'',
             synk_RedisPool = redisPool n\<rparr>)"

text \<open>A constructor to be registered may be nil, which leaves the node without one.\<close>

definition RegisterClientConstructor :: "('cl \<Rightarrow> 'cc option) option \<Rightarrow> ('s, 'c, 'a, 'o, 'cl, 'cc) node \<Rightarrow> ('s, 'c, 'a, 'o, 'cl, 'cc) node go" where
  "RegisterClientConstructor f n =
     (if newClientFn n \<noteq> None then Panic ''synk.Node cannot register an additional ClientConstructor''
      else Ret (n\<lparr>newClientFn := f\<rparr>))"

definition RegisterContainerConstructor :: "(string \<Rightarrow> 'o option) option \<Rightarrow> ('s, 'c, 'a, 'o, 'cl, 'cc) node \<Rightarrow> ('s, 'c, 'a, 'o, 'cl, 'cc) node go" where
  "RegisterContainerConstructor f n =
     (if newContainer n \<noteq> None then Panic ''synk.Node cannot register an additional ContainerConstructor''
      else Ret (n\<lparr>newContainer := f\<rparr>))"

text \<open>Calling a nil constructor is a nil dereference.\<close>

definition nil_call :: string where
  "nil_call = ''invalid memory address or nil pointer dereference''"

definition NewContainer :: "('s, 'c, 'a, 'o, 'cl, 'cc) node \<Rightarrow> string \<Rightarrow> 'o option go" where
  "NewContainer n typeKey = (case newContainer n of None \<Rightarrow> Panic nil_call | Some f \<Rightarrow> Ret (f typeKey))"

definition NewClient :: "('s, 'c, 'a, 'o, 'cl, 'cc) node \<Rightarrow> 'cl \<Rightarrow> 'cc option go" where
  "NewClient n c = (case newClientFn n of None \<Rightarrow> Panic nil_call | Some f \<Rightarrow> Ret (f c))"

text \<open>Calling the creator of a \<open>MongoSynk\<close>, with the node as it is at that time.\<close>

fun call_creator :: "('s, 'c, 'a, 'o, 'cl, 'cc) node \<Rightarrow> 'o creator_fn \<Rightarrow> string \<Rightarrow> 'o option go" where
  "call_creator n NodeMethod k = NewContainer n k"
| "call_creator n (Constructor f) k = Ret (f k)"

section \<open>Registrations\<close>

text \<open>A history of registrations; the first panic ends it.\<close>

datatype ('o, 'cl, 'cc) registration =
    RegContainer "(string \<Rightarrow> 'o option) option" | RegClient "('cl \<Rightarrow> 'cc option) option"

fun register :: "('o, 'cl, 'cc) registration \<Rightarrow> ('s, 'c, 'a, 'o, 'cl, 'cc) node \<Rightarrow> ('s, 'c, 'a, 'o, 'cl, 'cc) node go" where
  "register (RegContainer f) n = RegisterContainerConstructor f n"
| "register (RegClient g) n = RegisterClientConstructor g n"

fun register_all :: "('o, 'cl, 'cc) registration list \<Rightarrow> ('s, 'c, 'a, 'o, 'cl, 'cc) node \<Rightarrow> ('s, 'c, 'a, 'o, 'cl, 'cc) node go" where
  "register_all [] n = Ret n"
| "register_all (x # xs) n = (case register x n of Panic p \<Rightarrow> Panic p | Ret n' \<Rightarrow> register_all xs n')"

lemma register_frame:
  "register x n = Ret n' \<Longrightarrow> mongoSession n' = mongoSession n \<and> redisPool n' = redisPool n \<and> redisAgents n' = redisAgents n"
  by (cases x) (auto simp: RegisterContainerConstructor_def RegisterClientConstructor_def split: if_splits)

lemma register_keeps:
  "register x n = Ret n' \<Longrightarrow> newContainer n = Some f \<Longrightarrow> newContainer n' = Some f"
  "register x n = Ret n' \<Longrightarrow> newClientFn n = Some g \<Longrightarrow> newClientFn n' = Some g"
  by (cases x; auto simp: RegisterContainerConstructor_def RegisterClientConstructor_def split: if_splits)+

lemma register_all_keeps:
  "register_all xs n = Ret n' \<Longrightarrow> newContainer n = Some f \<Longrightarrow> newContainer n' = Some f"
  "register_all xs n = Ret n' \<Longrightarrow> newClientFn n = Some g \<Longrightarrow> newClientFn n' = Some g"
  by (induction xs arbitrary: n) (auto split: go.splits dest: register_keeps)

lemma register_all_twice:
  "newContainer n = Some f \<Longrightarrow> RegContainer g \<in> set xs \<Longrightarrow> panics (register_all xs n)"
proof (induction xs arbitrary: n)
  case (Cons x xs)
  show ?case
  proof (cases "register x n")
    case (Ret n')
    moreover from Ret Cons.prems have "x \<noteq> RegContainer g"
      by (auto simp: RegisterContainerConstructor_def)
    ultimately show ?thesis using Cons register_keeps(1) [OF Ret] by auto
  qed simp
qed simp

text \<open>
  Constructors are registered once. When a node has handed out a mutator and a loader, and more
  registrations follow, either one of them panics, or none concerned containers and both the mutator
  and the loader still make the same containers, without panicking, from the constructor registered
  at the start, on the same collection and pool.
\<close>

theorem mutator_loader_agree:
  fixes n :: "('s, 'c, 'a, 'o, 'cl, 'cc) node"
  assumes "CreateMutator dr cfg n = Ret m" "CreateLoader dr cfg n = Ret l" "register_all xs n = Ret n'"
  shows "(\<forall>g. RegContainer g \<notin> set xs) \<and> (\<exists>f. newContainer n' = Some f \<and>
    (\<forall>k. call_creator n' (synk_Creator m) k = Ret (f k) \<and> call_creator n' (synk_Creator l) k = Ret (f k))) \<and>
    synk_Coll m = synk_Coll l \<and> synk_RedisPool m = synk_RedisPool l"
proof -
  from assms(1) obtain f where f: "newContainer n = Some f" by (auto simp: CreateMutator_def split: if_splits)
  have "newContainer n' = Some f" by (rule register_all_keeps(1) [OF assms(3) f])
  moreover have "RegContainer g \<notin> set xs" for g
    using register_all_twice [OF f, of g xs] assms(3) by auto
  moreover have "m = \<lparr>synk_Creator = NodeMethod, synk_Coll = synk_Coll l, synk_RedisPool = synk_RedisPool l\<rparr>"
      "synk_Creator l = Constructor f"
    using assms(1,2) f by (auto simp: CreateMutator_def CreateLoader_def)
  ultimately show ?thesis by (auto simp: NewContainer_def)
qed

definition demo_drivers :: "(unit, unit, string, unit) drivers" where
  "demo_drivers = \<lparr>mgo_Dial = (\<lambda>_. Inr ()), mgo_Login = (\<lambda>_ s. (None, s)), redis_Dial = (\<lambda>_. Inr ()),
     NewRedisAgents = (\<lambda>_. ()), session_Coll = (\<lambda>_ d c. d @ ''.'' @ c)\<rparr>"

definition demo_node :: "(unit, unit, unit, nat, unit, unit) node" where
  "demo_node = \<lparr>mongoSession = (), redisPool = \<lparr>MaxIdle = 100, IdleTimeout = 240, pool_Dial = (\<lambda>_. Ret ())\<rparr>,
     redisAgents = (), newContainer = Some (\<lambda>k. if k = ''n'' then Some 0 else None), newClientFn = None\<rparr>"

lemma mutator_loader_agree_witness:
  "\<exists>m l n' f. CreateMutator demo_drivers (init_config (config_vars (\<lambda>_. ''''))) demo_node = Ret m \<and>
     CreateLoader demo_drivers (init_config (config_vars (\<lambda>_. ''''))) demo_node = Ret l \<and>
     register_all [RegClient (Some (\<lambda>_. Some ()))] demo_node = Ret n' \<and>
     newContainer n' = Some f \<and> call_creator n' (synk_Creator m) ''n'' = Ret (f ''n'')"
proof -
  let ?cfg = "init_config (config_vars (\<lambda>_. ''''))"
  obtain m where m: "CreateMutator demo_drivers ?cfg demo_node = Ret m" by (simp add: CreateMutator_def demo_node_def)
  obtain l where l: "CreateLoader demo_drivers ?cfg demo_node = Ret l" by (simp add: CreateLoader_def demo_node_def)
  obtain n' where n: "register_all [RegClient (Some (\<lambda>_. Some ()))] demo_node = Ret n'"
    by (simp add: RegisterClientConstructor_def demo_node_def)
  from mutator_loader_agree [OF m l n] m l n show ?thesis by blast
qed

end
