(* ===== verification/Channels.thy ===== *)
theory Channels
  imports Prelude
begin

text \<open>
  Go channels and the outcome of a goroutine's call. A buffered channel is its capacity, the queue of
  the values sent and not yet received, and whether it was closed. Sending to a full channel and
  receiving from an empty open one block; sending to a closed channel panics; a closed channel gives
  its remaining values and then \<open>ok = false\<close>.
\<close>

section \<open>Outcomes\<close>

text \<open>A call returns, panics, or waits for ever unless another goroutine acts.\<close>

datatype 'a run = Returned 'a | Panicked string | Blocked

fun run_of :: "'a go \<Rightarrow> 'a run" where
  "run_of (Ret v) = Returned v"
| "run_of (Panic m) = Panicked m"

lemma run_of_iff [simp]:
  "run_of g = Returned v \<longleftrightarrow> g = Ret v" "run_of g = Panicked m \<longleftrightarrow> g = Panic m" "run_of g \<noteq> Blocked"
  by (cases g; simp)+

section \<open>Channels\<close>

record 'a chan =
  ch_cap :: nat
  ch_buf :: "'a list"
  ch_closed :: bool

definition make_chan :: "nat \<Rightarrow> 'a chan" where
  "make_chan n = \<lparr>ch_cap = n, ch_buf = [], ch_closed = False\<rparr>"

text \<open>\<open>c <- v\<close>.\<close>

definition chan_send :: "'a \<Rightarrow> 'a chan \<Rightarrow> unit run \<times> 'a chan" where
  "chan_send v c =
     (if ch_closed c then (Panicked ''send on closed channel'', c)
      else if length (ch_buf c) < ch_cap c then (Returned (), c\<lparr>ch_buf := ch_buf c @ [v]\<rparr>)
      else (Blocked, c))"

text \<open>\<open>select { case c <- v: default: }\<close>: a value that does not fit is dropped.\<close>

definition chan_try_send :: "'a \<Rightarrow> 'a chan \<Rightarrow> unit run \<times> 'a chan" where
  "chan_try_send v c = (case chan_send v c of (Blocked, c') \<Rightarrow> (Returned (), c') | res \<Rightarrow> res)"

text \<open>\<open>v, ok := <-c\<close>: \<open>None\<close> is \<open>ok = false\<close>.\<close>

definition chan_recv :: "'a chan \<Rightarrow> 'a option run \<times> 'a chan" where
  "chan_recv c =
     (case ch_buf c of
        v # vs \<Rightarrow> (Returned (Some v), c\<lparr>ch_buf := vs\<rparr>)
      | [] \<Rightarrow> (if ch_closed c then Returned None else Blocked, c))"

definition chan_close :: "'a chan \<Rightarrow> unit run \<times> 'a chan" where
  "chan_close c = (if ch_closed c then (Panicked ''close of closed channel'', c) else (Returned (), c\<lparr>ch_closed := True\<rparr>))"

definition chan_ok :: "'a chan \<Rightarrow> bool" where
  "chan_ok c \<longleftrightarrow> length (ch_buf c) \<le> ch_cap c"

lemma make_chan_ok [simp]: "chan_ok (make_chan n)"
  by (simp add: make_chan_def chan_ok_def)

lemma chan_send_ok: "chan_ok c \<Longrightarrow> chan_ok (snd (chan_send v c))"
  by (simp add: chan_send_def chan_ok_def)

lemma chan_recv_ok: "chan_ok c \<Longrightarrow> chan_ok (snd (chan_recv c))"
  by (auto simp: chan_recv_def chan_ok_def split: list.split)

lemma chan_try_send_never_blocks: "fst (chan_try_send v c) \<noteq> Blocked"
  by (simp add: chan_try_send_def chan_send_def)

lemma chan_try_send_open:
  "\<not> ch_closed c \<Longrightarrow> fst (chan_try_send v c) = Returned () \<and> \<not> ch_closed (snd (chan_try_send v c)) \<and>
   ch_cap (snd (chan_try_send v c)) = ch_cap c \<and>
   ch_buf (snd (chan_try_send v c)) = (if length (ch_buf c) < ch_cap c then ch_buf c @ [v] else ch_buf c)"
  by (simp add: chan_try_send_def chan_send_def)

text \<open>The outcomes of the operations, as equivalences.\<close>

lemma chan_outcomes:
  "chan_send v c = (Returned u, c') \<longleftrightarrow> \<not> ch_closed c \<and> length (ch_buf c) < ch_cap c \<and> c' = c\<lparr>ch_buf := ch_buf c @ [v]\<rparr>"
  "chan_send v c = (Panicked p, c') \<longleftrightarrow> ch_closed c \<and> p = ''send on closed channel'' \<and> c' = c"
  "chan_send v c = (Blocked, c') \<longleftrightarrow> \<not> ch_closed c \<and> \<not> length (ch_buf c) < ch_cap c \<and> c' = c"
  "chan_recv c = (Returned (Some m), c') \<longleftrightarrow> (\<exists>ms. ch_buf c = m # ms \<and> c' = c\<lparr>ch_buf := ms\<rparr>)"
  "chan_recv c = (Returned None, c') \<longleftrightarrow> ch_buf c = [] \<and> ch_closed c \<and> c' = c"
  "chan_recv c = (Blocked, c') \<longleftrightarrow> ch_buf c = [] \<and> \<not> ch_closed c \<and> c' = c"
  "chan_close c = (Returned u, c') \<longleftrightarrow> \<not> ch_closed c \<and> c' = c\<lparr>ch_closed := True\<rparr>"
  "chan_close c = (Panicked p, c') \<longleftrightarrow> ch_closed c \<and> p = ''close of closed channel'' \<and> c' = c"
  "chan_try_send v c = (Returned u, c') \<longleftrightarrow> \<not> ch_closed c \<and>
     c' = (if length (ch_buf c) < ch_cap c then c\<lparr>ch_buf := ch_buf c @ [v]\<rparr> else c)"
  "chan_try_send v c = (Panicked p, c') \<longleftrightarrow> ch_closed c \<and> p = ''send on closed channel'' \<and> c' = c"
  by (auto simp: chan_send_def chan_recv_def chan_close_def chan_try_send_def split: list.split)

end
