(* ===== verification/Mongo_Lemmas.thy ===== *)
theory Mongo_Lemmas
  imports Mongo_Synk
begin

text \<open>
  What the operations of \<open>MongoSynk\<close> do to the collection and to the published messages, for
  every object that satisfies the interface: the effect of a call that returns, the effects a call
  that panics may leave behind, the agreement of the stored subscription key, and what \<open>Load\<close>
  returns.
\<close>

section \<open>Publishing\<close>

lemma publish_on_ok:
  assumes "redis_behaves rd db" "publish_on rd ch b r = (None, r')"
  shows "db r' = add_published ch b (db r)"
  using conn_Do_Inr [OF assms(1)] assms(2)
  by (force simp: publish_on_def split: prod.splits)

lemma publish_bytes_ok:
  assumes "redis_behaves rd db" "publish_bytes rd ch b r = (Ret None, r')"
  shows "db r' = add_published ch b (db r)"
proof -
  obtain r1 where get: "rd_Get rd r = (None, r1)" and pub: "publish_on rd ch b r1 = (None, r')"
    using assms(2) by (auto simp: publish_bytes_def with_conn_Ret)
  have "db r' = add_published ch b (db r1)" by (rule publish_on_ok [OF assms(1) pub])
  then show ?thesis using redis_GetD [OF assms(1), of r] get by simp
qed

text \<open>Whatever it returns, a publish call publishes its message once or not at all.\<close>

lemma publish_on_any:
  assumes "redis_behaves rd db"
  shows "db (snd (publish_on rd ch b r)) \<in> {db r, add_published ch b (db r)}"
proof -
  obtain l r1 where l: "rd_net rd r = (l, r1)" by fastforce
  have "db r1 = db r" using redis_netD [OF assms, of r] l by simp
  moreover have "db (snd (rd_call rd (PUBLISH ch b) r1)) = add_published ch b (db r1)"
    using redis_callD [OF assms, of "PUBLISH ch b" r1] by simp
  ultimately show ?thesis
    using l by (auto simp: publish_on_def conn_Do_def on_server_def split: link.splits prod.splits redis_reply.splits)
qed

lemma publish_bytes_any:
  assumes "redis_behaves rd db"
  shows "db (snd (publish_bytes rd ch b r)) \<in> {db r, add_published ch b (db r)}"
  using redis_GetD [OF assms, of r] publish_on_any [OF assms, of ch b "snd (rd_Get rd r)"]
  by (auto simp: publish_bytes_def with_conn_def split: prod.split option.split)

lemma send_ok:
  assumes "redis_behaves rd db"
  shows "MongoSynk_send ops rd a r = (Ret None, r') \<Longrightarrow>
      \<exists>b. marshal (addMsg_json ops a) = Inr b \<and> db r' = add_published (add_SKey a) b (db r)"
    and "MongoSynk_sendMod ops rd m r = (Ret None, r') \<Longrightarrow>
      \<exists>b. marshal (modMsg_json ops m) = Inr b \<and> db r' = add_published (mod_SKey m) b (db r)"
    and "MongoSynk_sendAddFrom ops rd a from r = (Ret None, r') \<Longrightarrow>
      \<exists>b. marshal (addMsg_json ops a) = Inr b \<and> db r' = add_published (add_SKey a) (''from '' @ add_PSKey a @ b) (db r)"
    and "MongoSynk_sendRem rd k r = (Ret None, r') \<Longrightarrow>
      \<exists>b. marshal (remMsg_json k) = Inr b \<and> db r' = add_published (rem_SKey k) b (db r)"
  using publish_bytes_ok [OF assms]
  by (auto simp: MongoSynk_send_def MongoSynk_sendMod_def MongoSynk_sendAddFrom_def MongoSynk_sendRem_def
      split: sum.splits)

text \<open>The messages about an object: its full state, and its removal.\<close>

definition add_msg_of :: "('o, 'd) object_ops \<Rightarrow> 'o \<Rightarrow> string \<Rightarrow> string \<Rightarrow> 'd addMsg" where
  "add_msg_of ops x psk t = \<lparr>add_State = obj_State ops x, add_ID = obj_TagGetID ops x,
     add_SKey = obj_GetSubKey ops x, add_PSKey = psk, add_Version = obj_Version ops x, add_Type = t\<rparr>"

definition mod_msg_of :: "('o, 'd) object_ops \<Rightarrow> 'o \<Rightarrow> 'd modMsg" where
  "mod_msg_of ops x = \<lparr>mod_Diff = fst (obj_Resolve ops x), mod_ID = obj_TagGetID ops x,
     mod_Version = obj_Version ops (snd (obj_Resolve ops x)), mod_SKey = obj_GetPrevSubKey ops x,
     mod_NSKey = (if obj_GetSubKey ops x = obj_GetPrevSubKey ops x then '''' else obj_GetSubKey ops x)\<rparr>"

definition rem_msg_of :: "('o, 'd) object_ops \<Rightarrow> 'o \<Rightarrow> remMsg" where
  "rem_msg_of ops x = \<lparr>rem_SKey = obj_GetPrevSubKey ops x, rem_Type = obj_TypeKey ops x, rem_ID = obj_TagGetID ops x\<rparr>"

text \<open>
  The object that \<open>Create\<close> and \<open>Modify\<close> leave behind: resolved, and with the current key
  stored in its tag (by \<open>Modify\<close> only when the key changed).
\<close>

definition created_obj :: "('o, 'd) object_ops \<Rightarrow> 'o \<Rightarrow> rand \<Rightarrow> 'o" where
  "created_obj ops x r =
     (let y = snd (obj_Resolve ops (run_OnCreate ops (fst (obj_TagInit ops (obj_TypeKey ops x) x r))))
      in obj_TagSetSub ops (obj_GetSubKey ops y) y)"

definition modified_obj :: "('o, 'd) object_ops \<Rightarrow> 'o \<Rightarrow> 'o" where
  "modified_obj ops x =
     (let y = snd (obj_Resolve ops x); nsk = obj_GetSubKey ops x
      in if nsk = obj_GetPrevSubKey ops x then y else obj_TagSetSub ops nsk (obj_TagSetSub ops nsk y))"

section \<open>Calls that return\<close>

lemma Create_Ret:
  assumes "redis_behaves rd db" "mongo_behaves ops tag_of mk stored mg docs"
    and "MongoSynk_Create ops mg rd s = (Ret v, s')"
  defines "x \<equiv> created_obj ops (ms_obj s) (ms_rand s)"
  shows "v = None \<and> ms_obj s' = x \<and> docs (ms_mongo s) (obj_TagGetID ops x) = None \<and>
     docs (ms_mongo s') = (docs (ms_mongo s))(obj_TagGetID ops x \<mapsto> stored x) \<and>
     (\<exists>b y. marshal (addMsg_json ops \<lparr>add_State = obj_State ops x, add_ID = obj_TagGetID ops x,
          add_SKey = obj_GetSubKey ops y, add_PSKey = '''', add_Version = obj_Version ops x,
          add_Type = obj_TypeKey ops (ms_obj s)\<rparr>) = Inr b \<and>
        x = obj_TagSetSub ops (obj_GetSubKey ops y) y \<and>
        db (ms_redis s') = add_published (obj_GetSubKey ops y) b (db (ms_redis s)))"
proof -
  let ?y = "snd (obj_Resolve ops (run_OnCreate ops (fst (obj_TagInit ops (obj_TypeKey ops (ms_obj s)) (ms_obj s) (ms_rand s)))))"
  have x: "x = obj_TagSetSub ops (obj_GetSubKey ops ?y) ?y"
    by (simp add: x_def created_obj_def Let_def)
  from assms(3) obtain m r where m: "mg_insert mg x (ms_mongo s) = (None, m)"
    and r: "MongoSynk_send ops rd \<lparr>add_State = obj_State ops x, add_ID = obj_TagGetID ops x,
          add_SKey = obj_GetSubKey ops ?y, add_PSKey = '''', add_Version = obj_Version ops x,
          add_Type = obj_TypeKey ops (ms_obj s)\<rparr> (ms_redis s) = (Ret None, r)"
    and "v = None" "ms_obj s' = x" "ms_mongo s' = m" "ms_redis s' = r"
    by (auto simp: MongoSynk_Create_def Let_def x on_mongo_def on_redis_def checked_Ret split: prod.splits)
  then show ?thesis
    using mongo_insertD [OF assms(2) m] send_ok(1) [OF assms(1) r] x by auto
qed

lemma Modify_Ret:
  assumes "redis_behaves rd db" "mongo_behaves ops tag_of mk stored mg docs"
    and "MongoSynk_Modify ops mg rd s = (Ret v, s')"
  defines "x \<equiv> ms_obj s" and "x' \<equiv> modified_obj ops (ms_obj s)"
  shows "v = None \<and> ms_obj s' = x' \<and> ms_rand s' = ms_rand s \<and> docs (ms_mongo s) (obj_TagGetID ops x) \<noteq> None \<and>
     docs (ms_mongo s') = (docs (ms_mongo s))(obj_TagGetID ops x \<mapsto> stored x') \<and>
     (\<exists>b. marshal (modMsg_json ops (mod_msg_of ops x)) = Inr b \<and>
        (if obj_GetSubKey ops x = obj_GetPrevSubKey ops x
         then db (ms_redis s') = add_published (obj_GetPrevSubKey ops x) b (db (ms_redis s))
         else \<exists>c. marshal (addMsg_json ops \<lparr>add_State = obj_State ops (obj_TagSetSub ops (obj_GetSubKey ops x) (snd (obj_Resolve ops x))),
                 add_ID = obj_TagGetID ops x, add_SKey = obj_GetSubKey ops x, add_PSKey = obj_GetPrevSubKey ops x,
                 add_Version = obj_Version ops (obj_TagSetSub ops (obj_GetSubKey ops x) (snd (obj_Resolve ops x))),
                 add_Type = obj_TypeKey ops (obj_TagSetSub ops (obj_GetSubKey ops x) (snd (obj_Resolve ops x)))\<rparr>) = Inr c \<and>
              db (ms_redis s') = add_published (obj_GetSubKey ops x) (''from '' @ obj_GetPrevSubKey ops x @ c)
                 (add_published (obj_GetPrevSubKey ops x) b (db (ms_redis s)))))"
proof (cases "obj_GetSubKey ops x = obj_GetPrevSubKey ops x")
  case True
  with assms(3) obtain m r where m: "mg_updateId mg (obj_TagGetID ops x) x' (ms_mongo s) = (None, m)"
    and r: "MongoSynk_sendMod ops rd (mod_msg_of ops x) (ms_redis s) = (Ret None, r)"
    and "v = None" "ms_obj s' = x'" "ms_mongo s' = m" "ms_redis s' = r" "ms_rand s' = ms_rand s"
    by (auto simp: MongoSynk_Modify_def Let_def x_def x'_def modified_obj_def mod_msg_of_def on_mongo_def on_redis_def
        checked_Ret split: prod.splits)
  then show ?thesis
    using True mongo_updateD [OF assms(2) m] send_ok(2) [OF assms(1) r] by (auto simp: mod_msg_of_def)
next
  case False
  let ?y = "obj_TagSetSub ops (obj_GetSubKey ops x) (snd (obj_Resolve ops x))"
  let ?a = "\<lparr>add_State = obj_State ops ?y, add_ID = obj_TagGetID ops x, add_SKey = obj_GetSubKey ops x,
    add_PSKey = obj_GetPrevSubKey ops x, add_Version = obj_Version ops ?y, add_Type = obj_TypeKey ops ?y\<rparr>"
  from False assms(3) obtain m r r2 where m: "mg_updateId mg (obj_TagGetID ops x) x' (ms_mongo s) = (None, m)"
    and r: "MongoSynk_sendMod ops rd (mod_msg_of ops x) (ms_redis s) = (Ret None, r)"
    and r2: "MongoSynk_sendAddFrom ops rd ?a (obj_GetPrevSubKey ops x) r = (Ret None, r2)"
    and "v = None" "ms_obj s' = x'" "ms_mongo s' = m" "ms_redis s' = r2" "ms_rand s' = ms_rand s"
    by (auto simp: MongoSynk_Modify_def Let_def x_def x'_def modified_obj_def mod_msg_of_def on_mongo_def on_redis_def
        checked_Ret split: prod.splits)
  then show ?thesis
    using False mongo_updateD [OF assms(2) m] send_ok(2) [OF assms(1) r] send_ok(3) [OF assms(1) r2]
    by (auto simp: mod_msg_of_def)
qed

lemma Delete_Ret:
  assumes "redis_behaves rd db" "mongo_behaves ops tag_of mk stored mg docs"
    and "MongoSynk_Delete ops mg rd s = (Ret v, s')"
  defines "x \<equiv> ms_obj s"
  shows "v = None \<and> ms_obj s' = x \<and> docs (ms_mongo s) (obj_TagGetID ops x) \<noteq> None \<and>
     docs (ms_mongo s') = (docs (ms_mongo s))(obj_TagGetID ops x := None) \<and>
     (\<exists>b. marshal (remMsg_json (rem_msg_of ops x)) = Inr b \<and>
        db (ms_redis s') = add_published (obj_GetPrevSubKey ops x) b (db (ms_redis s)))"
proof -
  from assms(3) obtain m r where m: "mg_removeId mg (obj_TagGetID ops x) (ms_mongo s) = (None, m)"
    and r: "MongoSynk_sendRem rd (rem_msg_of ops x) (ms_redis s) = (Ret None, r)"
    and "v = None" "ms_obj s' = x" "ms_mongo s' = m" "ms_redis s' = r"
    by (auto simp: MongoSynk_Delete_def Let_def x_def rem_msg_of_def on_mongo_def on_redis_def checked_Ret
        split: prod.splits)
  then show ?thesis
    using mongo_removeD [OF assms(2) m] send_ok(4) [OF assms(1) r] by (auto simp: rem_msg_of_def)
qed

section \<open>The objects left behind\<close>

context synk_object
begin

lemma created_keys:
  "obj_GetPrevSubKey ops (created_obj ops x r) = obj_GetSubKey ops (created_obj ops x r)"
  "sub_agrees ops tag_of (created_obj ops x r)"
  by (simp_all add: created_obj_def Let_def set_sub_keys resolve_settles sub_agrees_def set_sub_sub)

text \<open>A created object is what \<open>OnCreate\<close> left, resolved.\<close>

lemma created_frame:
  "obj_TagGetID ops (created_obj ops x r) =
     obj_TagGetID ops (run_OnCreate ops (fst (obj_TagInit ops (obj_TypeKey ops x) x r)))"
  "obj_Version ops (created_obj ops x r) =
     obj_Version ops (run_OnCreate ops (fst (obj_TagInit ops (obj_TypeKey ops x) x r))) + 1"
  "obj_State ops (created_obj ops x r) =
     obj_State ops (snd (obj_Resolve ops (run_OnCreate ops (fst (obj_TagInit ops (obj_TypeKey ops x) x r)))))"
  "obj_GetSubKey ops (created_obj ops x r) =
     obj_GetSubKey ops (run_OnCreate ops (fst (obj_TagInit ops (obj_TypeKey ops x) x r)))"
  by (simp_all add: created_obj_def Let_def set_sub_id set_sub_version set_sub_state set_sub_keys
      resolve_id resolve_version resolve_sub)

lemma modified_keys:
  "obj_GetSubKey ops (modified_obj ops x) = obj_GetSubKey ops x"
  "obj_GetPrevSubKey ops (modified_obj ops x) = obj_GetSubKey ops x"
  by (simp_all add: modified_obj_def Let_def set_sub_keys resolve_sub resolve_prev)

lemma modified_frame:
  "obj_TagGetID ops (modified_obj ops x) = obj_TagGetID ops x"
  "obj_Version ops (modified_obj ops x) = obj_Version ops x + 1"
  "obj_TypeKey ops (modified_obj ops x) = obj_TypeKey ops x"
  "obj_State ops (modified_obj ops x) = obj_State ops (snd (obj_Resolve ops x))"
  by (simp_all add: modified_obj_def Let_def set_sub_id set_sub_version set_sub_type set_sub_state
      resolve_id resolve_version resolve_type)

lemma modified_agrees: "sub_agrees ops tag_of x \<Longrightarrow> sub_agrees ops tag_of (modified_obj ops x)"
  by (auto simp: modified_obj_def Let_def sub_agrees_def set_sub_sub set_sub_keys resolve_prev resolve_stored_sub)

text \<open>The add message of a non-simple \<open>Modify\<close> describes the object as it is afterwards.\<close>

lemma moved_add_msg:
  "\<lparr>add_State = obj_State ops (obj_TagSetSub ops (obj_GetSubKey ops x) (snd (obj_Resolve ops x))),
    add_ID = obj_TagGetID ops x, add_SKey = obj_GetSubKey ops x, add_PSKey = psk,
    add_Version = obj_Version ops (obj_TagSetSub ops (obj_GetSubKey ops x) (snd (obj_Resolve ops x))),
    add_Type = obj_TypeKey ops (obj_TagSetSub ops (obj_GetSubKey ops x) (snd (obj_Resolve ops x)))\<rparr> =
   add_msg_of ops (modified_obj ops x) psk (obj_TypeKey ops x)"
  by (simp add: add_msg_of_def modified_frame modified_keys set_sub_state set_sub_version set_sub_type
      resolve_type resolve_version)

text \<open>Every message about an object can be marshalled.\<close>

lemma marshal_add: "\<exists>b. marshal (addMsg_json ops a) = Inr b"
  using diff_json [of "add_State a"] by (auto simp: addMsg_json_def)

lemma marshal_mod: "\<exists>b. marshal (modMsg_json ops m) = Inr b"
  using diff_json [of "mod_Diff m"] by (auto simp: modMsg_json_def)

end

section \<open>Documents\<close>

text \<open>What reading a document back preserves of the object written.\<close>

locale stored_object = synk_object ops tag_of
  for ops :: "('o, 'd) object_ops" and tag_of :: "'o \<Rightarrow> tag" +
  fixes stored :: "'o \<Rightarrow> 'o"
  assumes stored_tag: "tag_of (stored x) = tag_of x"
    and stored_prev: "obj_GetPrevSubKey ops (stored x) = obj_GetPrevSubKey ops x"
    and stored_unchanged: "\<not> obj_Changed ops (stored x)"
    and stored_state: "obj_State ops (stored x) = obj_State ops x"
    and stored_type: "obj_TypeKey ops (stored x) = obj_TypeKey ops x"
begin

lemma stored_agrees [simp]: "sub_agrees ops tag_of (stored x) \<longleftrightarrow> sub_agrees ops tag_of x"
  by (simp add: sub_agrees_def stored_tag stored_prev)

lemma stored_sub: "obj_GetSubKey ops (stored x) = obj_GetPrevSubKey ops x"
  using unchanged_sub [OF stored_unchanged] stored_prev by simp

end

interpretation entity_db: stored_object entity_ops entity_tag entity_stored
proof unfold_locales
  fix x :: entity
  show "obj_GetPrevSubKey entity_ops (entity_stored x) = obj_GetPrevSubKey entity_ops x"
    by (cases x) (simp_all add: entity_ops_def Human_ops_def Orc_ops_def Human_key_defs Orc_get_defs Human_get_defs)
  show "obj_State entity_ops (entity_stored x) = obj_State entity_ops x"
    by (cases x) (simp_all add: entity_ops_def Human_ops_def Orc_ops_def Human_State_def Orc_State_def)
qed (case_tac x; simp add: entity_ops_def Human_ops_def Orc_ops_def Human_Changed_def Orc_Changed_def
    no_human_diff_def no_orc_diff_def Orc_TypeKey_def)+

text \<open>
  The invariant of the collection: every document is filed under its own identifier, and the
  subscription key that queries look at is the one its object is known under.
\<close>

definition coll_ok :: "('o, 'd) object_ops \<Rightarrow> ('o \<Rightarrow> tag) \<Rightarrow> (string \<rightharpoonup> 'o) \<Rightarrow> bool" where
  "coll_ok ops tag_of D \<longleftrightarrow>
     (\<forall>i x. D i = Some x \<longrightarrow> TagID (tag_of x) = i \<and> sub_agrees ops tag_of x)"

lemma coll_ok_update:
  "coll_ok ops tag_of D \<Longrightarrow> TagID (tag_of x) = i \<Longrightarrow> sub_agrees ops tag_of x \<Longrightarrow> coll_ok ops tag_of (D(i \<mapsto> x))"
  by (simp add: coll_ok_def)

lemma coll_ok_delete: "coll_ok ops tag_of D \<Longrightarrow> coll_ok ops tag_of (D(i := None))"
  by (simp add: coll_ok_def)

context stored_object
begin

lemma Create_coll_ok:
  assumes "redis_behaves rd db" "mongo_behaves ops tag_of mk stored mg docs"
    and "MongoSynk_Create ops mg rd s = (Ret v, s')" "coll_ok ops tag_of (docs (ms_mongo s))"
  shows "coll_ok ops tag_of (docs (ms_mongo s')) \<and> sub_agrees ops tag_of (ms_obj s')"
  using Create_Ret [OF assms(1-3)] assms(4) created_keys(2) [of "ms_obj s" "ms_rand s"]
  by (auto intro!: coll_ok_update simp: stored_tag get_id)

lemma Modify_coll_ok:
  assumes "redis_behaves rd db" "mongo_behaves ops tag_of mk stored mg docs"
    and "MongoSynk_Modify ops mg rd s = (Ret v, s')" "coll_ok ops tag_of (docs (ms_mongo s))"
    and "sub_agrees ops tag_of (ms_obj s)"
  shows "coll_ok ops tag_of (docs (ms_mongo s')) \<and> sub_agrees ops tag_of (ms_obj s')"
  using Modify_Ret [OF assms(1-3)] assms(4) modified_agrees [OF assms(5)] modified_frame(1) [of "ms_obj s"]
  by (auto intro!: coll_ok_update simp: stored_tag get_id)

end

section \<open>Load\<close>

text \<open>A constructor makes containers of the type it is asked for.\<close>

definition creator_ok :: "('o, 'd) object_ops \<Rightarrow> (string \<Rightarrow> 'o option) \<Rightarrow> bool" where
  "creator_ok ops mk \<longleftrightarrow> (\<forall>t c. mk t = Some c \<longrightarrow> obj_TypeKey ops c = t)"

lemma load_loop_reads:
  assumes "list_all2 (\<lambda>raw i. reads_as ops tag_of mk mg raw (D i)) raws ids" "creator_ok ops mk"
    and "\<forall>i \<in> set ids. TagType (tag_of (D i)) = obj_TypeKey ops (D i)"
  shows "load_loop mk mg raws = map D (filter (\<lambda>i. mk (TagType (tag_of (D i))) \<noteq> None) ids)"
  using assms(1,3)
proof (induction raws ids rule: list_all2_induct)
  case Nil
  then show ?case by simp
next
  case (Cons raw raws i ids)
  then show ?case
    using assms(2) by (auto simp: reads_as_def creator_ok_def split: option.splits)
qed

lemma Load_Ret:
  assumes "mongo_behaves ops tag_of mk stored mg docs" "creator_ok ops mk"
    and typed: "\<forall>i x. docs m i = Some x \<longrightarrow> TagType (tag_of x) = obj_TypeKey ops x"
    and "MongoSynk_Load mk mg keys m = (Ret (xs, e), m')"
  shows "e = None \<and> docs m' = docs m \<and>
    (\<exists>ids. distinct ids \<and> xs = map (\<lambda>i. the (docs m i)) ids \<and>
       set ids = {i \<in> ids_with_sub tag_of (docs m) keys. mk (TagType (tag_of (the (docs m i)))) \<noteq> None})"
proof -
  from assms(4) obtain raws where raws: "mg_findSub mg keys m = (Inr raws, m')"
    and xs: "xs = load_loop mk mg raws" and e: "e = None"
    by (auto simp: MongoSynk_Load_def epanic_def split: prod.splits option.splits sum.splits)
  from mongo_findD(2) [OF assms(1) raws] obtain ids where ids: "distinct ids" "set ids = ids_with_sub tag_of (docs m) keys"
      "list_all2 (\<lambda>raw i. reads_as ops tag_of mk mg raw (the (docs m i))) raws ids" by blast
  have "\<forall>i \<in> set ids. TagType (tag_of (the (docs m i))) = obj_TypeKey ops (the (docs m i))"
    using ids(2) typed by (auto simp: ids_with_sub_def)
  from load_loop_reads [OF ids(3) assms(2) this] xs
  have "xs = map (\<lambda>i. the (docs m i)) (filter (\<lambda>i. mk (TagType (tag_of (the (docs m i)))) \<noteq> None) ids)"
    by simp
  with ids e mongo_findD(1) [OF assms(1) raws] show ?thesis
    by (intro conjI exI [of _ "filter (\<lambda>i. mk (TagType (tag_of (the (docs m i)))) \<noteq> None) ids"]) auto
qed

lemma entity_creator_ok: "creator_ok entity_ops creator"
  by (auto simp: creator_ok_def entity_ops_def Human_ops_def Orc_ops_def Orc_TypeKey_def split: if_splits)

section \<open>Calls that panic\<close>

text \<open>
  Whatever the outcome, the document is written before any message about it is published: when
  the published messages changed, the collection call had succeeded.
\<close>

text \<open>What the rest of a method leaves alone once the collection was called.\<close>

definition publishes_only :: "(('o, 'm, 'r) mstate \<Rightarrow> 'a \<times> ('o, 'm, 'r) mstate) \<Rightarrow> bool" where
  "publishes_only k \<longleftrightarrow> (\<forall>s. ms_mongo (snd (k s)) = ms_mongo s \<and> ms_obj (snd (k s)) = ms_obj s)"

lemma publishes_only_end [simp]: "publishes_only (\<lambda>s. (v, s))"
  by (simp add: publishes_only_def)

lemma publishes_only_then: "publishes_only k \<Longrightarrow> publishes_only (\<lambda>s. checked reason (on_redis f s) k)"
  by (auto simp: publishes_only_def on_redis_def checked_def epanic_def case_prod_unfold Let_def split: go.split option.split)

lemma checked_on_mongo_failed:
  "fst (f (ms_mongo s)) = Some e \<Longrightarrow>
   snd (checked reason (on_mongo f s) k) = s\<lparr>ms_mongo := snd (f (ms_mongo s))\<rparr>"
  by (cases "f (ms_mongo s)") (simp add: on_mongo_def)

lemma checked_on_mongo_done:
  "f (ms_mongo s) = (None, m) \<Longrightarrow> checked reason (on_mongo f s) k = k (s\<lparr>ms_mongo := m\<rparr>)"
  by (simp add: on_mongo_def)

text \<open>Whatever the outcome, the collection is the one that its call left, and the object the one written.\<close>

lemma guarded_any:
  assumes "publishes_only k"
  shows "ms_mongo (snd (checked reason (on_mongo f s) k)) = snd (f (ms_mongo s)) \<and>
    ms_obj (snd (checked reason (on_mongo f s) k)) = ms_obj s"
proof (cases "f (ms_mongo s)")
  case (Pair err m)
  then show ?thesis using assms by (cases err) (simp_all add: on_mongo_def publishes_only_def)
qed

text \<open>The collection call of an operation, and the step it takes first.\<close>

lemma guarded_publish:
  assumes "publishes_only k"
    and "ms_redis (snd (checked reason (on_mongo f s) k)) \<noteq> ms_redis s"
  shows "\<exists>m. f (ms_mongo s) = (None, m) \<and> ms_mongo (snd (checked reason (on_mongo f s) k)) = m"
proof (cases "f (ms_mongo s)")
  case (Pair err m)
  show ?thesis
  proof (cases err)
    case None
    with Pair assms(1) show ?thesis by (simp add: checked_on_mongo_done publishes_only_def)
  next
    case (Some e)
    with Pair assms(2) show ?thesis by (simp add: checked_on_mongo_failed)
  qed
qed

text \<open>Each operation is a call of the collection, followed by publications only.\<close>

lemma Create_shape:
  obtains reason k r1 where "publishes_only k" "MongoSynk_Create ops mg rd s =
    checked reason (on_mongo (mg_insert mg (created_obj ops (ms_obj s) (ms_rand s)))
      (s\<lparr>ms_obj := created_obj ops (ms_obj s) (ms_rand s), ms_rand := r1\<rparr>)) k"
proof -
  obtain t r1 where t: "obj_TagInit ops (obj_TypeKey ops (ms_obj s)) (ms_obj s) (ms_rand s) = (t, r1)" by fastforce
  show thesis
    by (rule that [of "\<lambda>s2. checked ''Failed to send addMsg'' (on_redis (MongoSynk_send ops rd _) s2) (\<lambda>s3. (Ret None, s3))"
          "''Failed to create new object in Mongodb''" r1])
      (simp_all add: MongoSynk_Create_def Let_def created_obj_def t publishes_only_then)
qed

lemma Modify_shape:
  obtains reason k where "publishes_only k" "MongoSynk_Modify ops mg rd s =
    checked reason (on_mongo (mg_updateId mg (obj_TagGetID ops (ms_obj s)) (modified_obj ops (ms_obj s)))
      (s\<lparr>ms_obj := modified_obj ops (ms_obj s)\<rparr>)) k"
proof -
  obtain d y where y: "obj_Resolve ops (ms_obj s) = (d, y)" by fastforce
  show thesis
  proof (cases "obj_GetSubKey ops (ms_obj s) = obj_GetPrevSubKey ops (ms_obj s)")
    case True
    then show thesis
      by (intro that [of "\<lambda>s2. checked ''MongoSynk.Modify failed to send message'' (on_redis (MongoSynk_sendMod ops rd _) s2) (\<lambda>s3. (Ret None, s3))"
            "''Mongosynk.Modify failed to insert object''"])
        (simp_all add: MongoSynk_Modify_def Let_def modified_obj_def y publishes_only_then)
  next
    case False
    then show thesis
      by (intro that [of "\<lambda>s2. checked ''MongoSynk.Modify failed to send mod message on a non-simple Modify''
               (on_redis (MongoSynk_sendMod ops rd _) s2)
               (\<lambda>s3. checked ''MongoSynk.Modify failed to send add message on a non-simple Modify''
                  (on_redis (MongoSynk_sendAddFrom ops rd _ _) s3) (\<lambda>s4. (Ret None, s4)))"
            "''MongoSynk.Modify failed to insert on a non-simple Modify''"])
        (simp_all add: MongoSynk_Modify_def Let_def modified_obj_def y publishes_only_then)
  qed
qed

lemma Delete_shape:
  obtains reason k where "publishes_only k" "MongoSynk_Delete ops mg rd s =
    checked reason (on_mongo (mg_removeId mg (obj_TagGetID ops (ms_obj s))) s) k"
  by (rule that [of "\<lambda>s2. checked ''MongoSynk.Delete failed to send rem message'' (on_redis (MongoSynk_sendRem rd _) s2) (\<lambda>s3. (Ret None, s3))"
        "''MongoSynk.Delete failed to Remove an object''"])
    (simp_all add: MongoSynk_Delete_def Let_def publishes_only_then)

text \<open>The collection and the object after any outcome.\<close>

lemma Create_any:
  "ms_mongo (snd (MongoSynk_Create ops mg rd s)) = snd (mg_insert mg (created_obj ops (ms_obj s) (ms_rand s)) (ms_mongo s)) \<and>
   ms_obj (snd (MongoSynk_Create ops mg rd s)) = created_obj ops (ms_obj s) (ms_rand s)"
proof -
  obtain reason k r1 where k: "publishes_only k" and eq: "MongoSynk_Create ops mg rd s =
    checked reason (on_mongo (mg_insert mg (created_obj ops (ms_obj s) (ms_rand s)))
      (s\<lparr>ms_obj := created_obj ops (ms_obj s) (ms_rand s), ms_rand := r1\<rparr>)) k"
    by (rule Create_shape)
  show ?thesis unfolding eq by (simp add: guarded_any [OF k])
qed

lemma Modify_any:
  "ms_mongo (snd (MongoSynk_Modify ops mg rd s)) =
     snd (mg_updateId mg (obj_TagGetID ops (ms_obj s)) (modified_obj ops (ms_obj s)) (ms_mongo s)) \<and>
   ms_obj (snd (MongoSynk_Modify ops mg rd s)) = modified_obj ops (ms_obj s)"
proof -
  obtain reason k where k: "publishes_only k" and eq: "MongoSynk_Modify ops mg rd s =
    checked reason (on_mongo (mg_updateId mg (obj_TagGetID ops (ms_obj s)) (modified_obj ops (ms_obj s)))
      (s\<lparr>ms_obj := modified_obj ops (ms_obj s)\<rparr>)) k"
    by (rule Modify_shape)
  show ?thesis unfolding eq by (simp add: guarded_any [OF k])
qed

lemma Delete_any:
  "ms_mongo (snd (MongoSynk_Delete ops mg rd s)) = snd (mg_removeId mg (obj_TagGetID ops (ms_obj s)) (ms_mongo s)) \<and>
   ms_obj (snd (MongoSynk_Delete ops mg rd s)) = ms_obj s"
proof -
  obtain reason k where k: "publishes_only k" and eq: "MongoSynk_Delete ops mg rd s =
    checked reason (on_mongo (mg_removeId mg (obj_TagGetID ops (ms_obj s))) s) k"
    by (rule Delete_shape)
  show ?thesis unfolding eq by (simp add: guarded_any [OF k])
qed

lemma Create_write_first:
  assumes "mongo_behaves ops tag_of mk stored mg docs"
    and "ms_redis (snd (MongoSynk_Create ops mg rd s)) \<noteq> ms_redis s"
  defines "x \<equiv> created_obj ops (ms_obj s) (ms_rand s)"
  shows "docs (ms_mongo (snd (MongoSynk_Create ops mg rd s))) = (docs (ms_mongo s))(obj_TagGetID ops x \<mapsto> stored x)"
proof -
  obtain reason k r1 where k: "publishes_only k" and eq: "MongoSynk_Create ops mg rd s =
    checked reason (on_mongo (mg_insert mg x) (s\<lparr>ms_obj := x, ms_rand := r1\<rparr>)) k"
    unfolding x_def by (rule Create_shape)
  from assms(2) have "ms_redis (snd (MongoSynk_Create ops mg rd s)) \<noteq> ms_redis (s\<lparr>ms_obj := x, ms_rand := r1\<rparr>)" by simp
  from guarded_publish [OF k, of _ "mg_insert mg x", OF this [unfolded eq]]
  obtain m where "mg_insert mg x (ms_mongo s) = (None, m)" "ms_mongo (snd (MongoSynk_Create ops mg rd s)) = m"
    unfolding eq by auto
  then show ?thesis using mongo_insertD [OF assms(1)] by auto
qed

lemma Modify_write_first:
  assumes "mongo_behaves ops tag_of mk stored mg docs"
    and "ms_redis (snd (MongoSynk_Modify ops mg rd s)) \<noteq> ms_redis s"
  defines "x' \<equiv> modified_obj ops (ms_obj s)"
  shows "docs (ms_mongo (snd (MongoSynk_Modify ops mg rd s))) =
    (docs (ms_mongo s))(obj_TagGetID ops (ms_obj s) \<mapsto> stored x')"
proof -
  let ?f = "mg_updateId mg (obj_TagGetID ops (ms_obj s)) x'"
  obtain reason k where k: "publishes_only k" and eq: "MongoSynk_Modify ops mg rd s =
    checked reason (on_mongo ?f (s\<lparr>ms_obj := x'\<rparr>)) k"
    unfolding x'_def by (rule Modify_shape)
  from assms(2) have "ms_redis (snd (MongoSynk_Modify ops mg rd s)) \<noteq> ms_redis (s\<lparr>ms_obj := x'\<rparr>)" by simp
  from guarded_publish [OF k, of _ ?f, OF this [unfolded eq]]
  obtain m where "?f (ms_mongo s) = (None, m)" "ms_mongo (snd (MongoSynk_Modify ops mg rd s)) = m"
    unfolding eq by auto
  then show ?thesis using mongo_updateD [OF assms(1)] by auto
qed

lemma Delete_write_first:
  assumes "mongo_behaves ops tag_of mk stored mg docs"
    and "ms_redis (snd (MongoSynk_Delete ops mg rd s)) \<noteq> ms_redis s"
  shows "docs (ms_mongo (snd (MongoSynk_Delete ops mg rd s))) = (docs (ms_mongo s))(obj_TagGetID ops (ms_obj s) := None)"
proof -
  obtain reason k where k: "publishes_only k" and eq: "MongoSynk_Delete ops mg rd s =
    checked reason (on_mongo (mg_removeId mg (obj_TagGetID ops (ms_obj s))) s) k"
    by (rule Delete_shape)
  from guarded_publish [OF k assms(2) [unfolded eq]] have "\<exists>m. mg_removeId mg (obj_TagGetID ops (ms_obj s)) (ms_mongo s) = (None, m) \<and>
      ms_mongo (snd (MongoSynk_Delete ops mg rd s)) = m"
    unfolding eq .
  then show ?thesis using mongo_removeD [OF assms(1)] by auto
qed

section \<open>The invariant of the collection, whatever the outcome\<close>

context stored_object
begin

lemma Create_keeps_coll:
  assumes "mongo_behaves ops tag_of mk stored mg docs" "mongo_atomic ops stored mg docs" "coll_ok ops tag_of (docs (ms_mongo s))"
  shows "coll_ok ops tag_of (docs (ms_mongo (snd (MongoSynk_Create ops mg rd s)))) \<and>
    sub_agrees ops tag_of (ms_obj (snd (MongoSynk_Create ops mg rd s)))"
  using mongo_insert_any [OF assms(1,2), of "created_obj ops (ms_obj s) (ms_rand s)" "ms_mongo s"] assms(3)
    created_keys(2) [of "ms_obj s" "ms_rand s"]
  by (auto simp: Create_any stored_tag get_id intro!: coll_ok_update)

lemma Modify_keeps_coll:
  assumes "mongo_behaves ops tag_of mk stored mg docs" "mongo_atomic ops stored mg docs" "coll_ok ops tag_of (docs (ms_mongo s))"
    and "sub_agrees ops tag_of (ms_obj s)"
  shows "coll_ok ops tag_of (docs (ms_mongo (snd (MongoSynk_Modify ops mg rd s)))) \<and>
    sub_agrees ops tag_of (ms_obj (snd (MongoSynk_Modify ops mg rd s)))"
  using mongo_update_any [OF assms(1,2), of "obj_TagGetID ops (ms_obj s)" "modified_obj ops (ms_obj s)" "ms_mongo s"] assms(3)
    modified_agrees [OF assms(4)] modified_frame(1) [of "ms_obj s"]
  by (auto simp: Modify_any stored_tag get_id intro!: coll_ok_update)

lemma Delete_keeps_coll:
  assumes "mongo_behaves ops tag_of mk stored mg docs" "mongo_atomic ops stored mg docs" "coll_ok ops tag_of (docs (ms_mongo s))"
  shows "coll_ok ops tag_of (docs (ms_mongo (snd (MongoSynk_Delete ops mg rd s))))"
  using mongo_remove_any [OF assms(1,2), of "obj_TagGetID ops (ms_obj s)" "ms_mongo s"] assms(3)
  by (auto simp: Delete_any intro!: coll_ok_delete)

end

end
