(* ===== verification/Client.thy ===== *)
theory Client
  imports Node Channels Mongo_Lemmas
begin

text \<open>
  \<open>Client.go\<close>: a connected browser. The state of a \<open>synkClient\<close> is its subscriptions, its two
  channels, its custom handlers and the services it uses. The WebSocket connection, the agents of
  package \<open>pubsub\<close> and the application's \<open>CustomClient\<close> are parameters. The functions that
  run on the main loop are translated here; the goroutines and their interleaving are in
  \<open>Lifecycle\<close>.
\<close>

section \<open>What the client uses\<close>

text \<open>
  A WebSocket connection: writing a text message and a ping (each after setting the write deadline),
  reading a message, and closing.
\<close>

datatype read_error = CloseGoingAway | CloseOther error | ReadFailed error

record 'w websocket =
  ws_WriteText :: "bytes \<Rightarrow> 'w \<Rightarrow> error option \<times> 'w"
  ws_WritePing :: "'w \<Rightarrow> error option \<times> 'w"
  ws_Read :: "'w \<Rightarrow> (read_error + bytes) \<times> 'w"
  ws_Close :: "'w \<Rightarrow> 'w"

text \<open>The agents that forward messages from Redis channels to clients.\<close>

record 'a agents =
  ag_Update :: "ID \<Rightarrow> string list \<Rightarrow> string list \<Rightarrow> 'a \<Rightarrow> 'a"
  ag_RemoveAgent :: "ID \<Rightarrow> 'a \<Rightarrow> 'a"

text \<open>
  Application code sees a client through \<open>WriteToWebSocket\<close> and \<open>Publish\<close>; a handler is a
  tree of such calls, the result of a publication deciding how it goes on.
\<close>

datatype 'cc script =
    Finish 'cc
  | WriteWS bytes "'cc script"
  | DoPublish string payload "error option \<Rightarrow> 'cc script"

record ('o, 'cc) custom_ops =
  cu_OnConnect :: "ID \<Rightarrow> 'cc \<Rightarrow> 'cc script"
  cu_OnMessage :: "ID \<Rightarrow> string \<Rightarrow> bytes \<Rightarrow> 'cc \<Rightarrow> 'cc script"
  cu_OnSubscribe :: "ID \<Rightarrow> string list \<Rightarrow> 'o list \<Rightarrow> 'cc \<Rightarrow> 'cc script"

record ('o, 'd, 'm, 'raw, 'r, 'w, 'a, 'cc) client_env =
  env_ops :: "('o, 'd) object_ops"
  env_mongo :: "('m, 'o, 'raw) mongo"
  env_redis :: "'r redis"
  env_ws :: "'w websocket"
  env_agents :: "'a agents"
  env_custom :: "('o, 'cc) custom_ops"

section \<open>The client\<close>

definition clientBufferLength :: nat where
  "clientBufferLength = 64"

record ('o, 'm, 'r, 'w, 'a, 'cc) client =
  cl_Creator :: "string \<Rightarrow> 'o option"
  cl_coll :: 'm
  cl_redis :: 'r
  cl_agents :: 'a
  cl_custom :: "'cc option"
  cl_ws :: 'w
  fromWebSocket :: "client_msg chan"
  toWebSocket :: "bytes chan"
  cl_id :: ID
  subscriptions :: "string \<rightharpoonup> bool"
  closeOnce :: bool  \<comment> \<open>whether the once has run\<close>
  waitGroup :: nat

text \<open>\<open>ID()\<close> and \<open>String()\<close>.\<close>

definition Client_ID :: "('o, 'm, 'r, 'w, 'a, 'cc) client \<Rightarrow> string" where
  "Client_ID c = ID_String (cl_id c)"

definition Client_String :: "('o, 'm, 'r, 'w, 'a, 'cc) client \<Rightarrow> string" where
  "Client_String c = ''{Client.ID: '' @ ID_String (cl_id c) @ ''}''"

text \<open>
  The struct that \<open>newClient\<close> builds, with \<open>waitGroup.Add(1)\<close>, before it starts the goroutines.
\<close>

definition make_client :: "(string \<Rightarrow> 'o option) \<Rightarrow> 'm \<Rightarrow> 'r \<Rightarrow> 'a \<Rightarrow> 'w \<Rightarrow> rand \<Rightarrow> ('o, 'm, 'r, 'w, 'a, 'cc) client \<times> rand" where
  "make_client mk coll redis agents ws r =
     (let (ident, r') = NewID r
      in (\<lparr>cl_Creator = mk, cl_coll = coll, cl_redis = redis, cl_agents = agents, cl_custom = None,
           cl_ws = ws, fromWebSocket = make_chan clientBufferLength, toWebSocket = make_chan clientBufferLength,
           cl_id = ident, subscriptions = Map.empty,
           closeOnce = False, waitGroup = 1\<rparr>, r'))"

section \<open>Receive\<close>

text \<open>
  \<open>Receive(key, bytes)\<close> handles a message that was published on a channel the client is
  subscribed to. \<open>subs\<close> is \<open>client.subscriptions\<close>.
\<close>

definition Receive :: "(string \<rightharpoonup> bool) \<Rightarrow> string \<Rightarrow> bytes \<Rightarrow> bytes chan \<Rightarrow> error option run \<times> bytes chan" where
  "Receive subs key bs to =
     (let send = (\<lambda>b. case chan_send b to of
                    (Returned _, to') \<Rightarrow> (Returned None, to')
                  | (Panicked p, to') \<Rightarrow> (Panicked p, to')
                  | (Blocked, to') \<Rightarrow> (Blocked, to'))
      in case index_byte (CHR ''{'') bs of
           None \<Rightarrow> (Returned None, to)
         | Some split \<Rightarrow>
             if split = 0 then send bs
             else
               (let body = drop split bs; header = take split bs
                in if has_prefix header ''from '' then
                     (let fromWhere = drop 5 header
                      in if subs fromWhere = None then send body else (Returned None, to))
                   else send body))"

text \<open>
  The same in two steps: what a call decides to send, by the header and the subscriptions, and the send,
  where it may have to wait.
\<close>

definition Receive_message :: "(string \<rightharpoonup> bool) \<Rightarrow> bytes \<Rightarrow> bytes option" where
  "Receive_message subs bs =
     (case index_byte (CHR ''{'') bs of
        None \<Rightarrow> None
      | Some split \<Rightarrow>
          if split = 0 then Some bs
          else if has_prefix (take split bs) ''from '' \<and> subs (drop 5 (take split bs)) \<noteq> None then None
          else Some (drop split bs))"

lemma Receive_parts:
  "Receive subs key bs to =
     (case Receive_message subs bs of
        None \<Rightarrow> (Returned None, to)
      | Some b \<Rightarrow>
          (case chan_send b to of
             (Returned _, to') \<Rightarrow> (Returned None, to')
           | (Panicked p, to') \<Rightarrow> (Panicked p, to')
           | (Blocked, to') \<Rightarrow> (Blocked, to')))"
  by (auto simp: Receive_def Receive_message_def Let_def split: option.split)

section \<open>Writing\<close>

definition Client_writeToWebSocket :: "'w websocket \<Rightarrow> bytes \<Rightarrow> 'w \<Rightarrow> error option \<times> 'w" where
  "Client_writeToWebSocket ws message w = ws_WriteText ws message w"

definition WriteToWebSocket :: "bytes \<Rightarrow> ('o, 'm, 'r, 'w, 'a, 'cc) client \<Rightarrow> unit run \<times> ('o, 'm, 'r, 'w, 'a, 'cc) client" where
  "WriteToWebSocket d c = (let (res, to') = chan_send d (toWebSocket c) in (res, c\<lparr>toWebSocket := to'\<rparr>))"

definition Client_Publish :: "'r redis \<Rightarrow> string \<Rightarrow> payload \<Rightarrow> ('o, 'm, 'r, 'w, 'a, 'cc) client \<Rightarrow> error option go \<times> ('o, 'm, 'r, 'w, 'a, 'cc) client" where
  "Client_Publish rd key msg c = (let (e, r) = MongoSynk_Publish rd key msg (cl_redis c) in (e, c\<lparr>cl_redis := r\<rparr>))"

text \<open>Running a handler of the application; what it leaves is the new custom client.\<close>

primrec run_script :: "'r redis \<Rightarrow> 'cc script \<Rightarrow> ('o, 'm, 'r, 'w, 'a, 'cc) client \<Rightarrow> unit run \<times> ('o, 'm, 'r, 'w, 'a, 'cc) client" where
  "run_script rd (Finish cu) c = (Returned (), c\<lparr>cl_custom := Some cu\<rparr>)"
| "run_script rd (WriteWS d k) c =
     (case WriteToWebSocket d c of
        (Returned _, c') \<Rightarrow> run_script rd k c'
      | (Panicked p, c') \<Rightarrow> (Panicked p, c')
      | (Blocked, c') \<Rightarrow> (Blocked, c'))"
| "run_script rd (DoPublish key msg k) c =
     (let res = Client_Publish rd key msg c
      in case fst res of Panic p \<Rightarrow> (Panicked p, snd res) | Ret e \<Rightarrow> run_script rd (k e) (snd res))"

section \<open>Messages from the browser\<close>

text \<open>The message that describes a loaded object, and its bytes (none when marshalling fails).\<close>

definition loaded_bytes :: "('o, 'd) object_ops \<Rightarrow> 'o \<Rightarrow> bytes" where
  "loaded_bytes ops obj =
     (case marshal (addMsg_json ops \<lparr>add_State = obj_State ops obj, add_ID = obj_TagGetID ops obj,
        add_SKey = obj_GetSubKey ops obj, add_PSKey = '''', add_Version = obj_Version ops obj,
        add_Type = obj_TypeKey ops obj\<rparr>) of
        Inr b \<Rightarrow> b
      | Inl e \<Rightarrow> [])"

text \<open>The loop over the loaded objects; errors of writing are ignored.\<close>

fun send_loaded :: "('o, 'd) object_ops \<Rightarrow> 'w websocket \<Rightarrow> 'o list \<Rightarrow> 'w \<Rightarrow> 'w" where
  "send_loaded ops ws [] w = w"
| "send_loaded ops ws (obj # objs) w =
     send_loaded ops ws objs (snd (Client_writeToWebSocket ws (loaded_bytes ops obj) w))"

definition updateSubscription :: "('o, 'd, 'm, 'raw, 'r, 'w, 'a, 'cc) client_env \<Rightarrow> UpdateSubscriptionMessage \<Rightarrow>
    ('o, 'm, 'r, 'w, 'a, 'cc) client \<Rightarrow> error option run \<times> ('o, 'm, 'r, 'w, 'a, 'cc) client" where
  "updateSubscription env msg c =
     (let subs1 = fold (\<lambda>k m. m(k := None)) (us_Remove msg) (subscriptions c);
          subs2 = fold (\<lambda>k m. m(k \<mapsto> True)) (us_Add msg) subs1;
          c1 = c\<lparr>subscriptions := subs2,
                 cl_agents := ag_Update (env_agents env) (cl_id c) (us_Add msg) (us_Remove msg) (cl_agents c)\<rparr>
      in if us_Add msg = [] then (Returned None, c1)
         else
           (case MongoSynk_Load (cl_Creator c1) (env_mongo env) (us_Add msg) (cl_coll c1) of
              (Panic p, m) \<Rightarrow> (Panicked p, c1\<lparr>cl_coll := m\<rparr>)
            | (Ret (objs, Some e), m) \<Rightarrow> (Returned (Some e), c1\<lparr>cl_coll := m\<rparr>)
            | (Ret (objs, None), m) \<Rightarrow>
                (let c2 = c1\<lparr>cl_coll := m, cl_ws := send_loaded (env_ops env) (env_ws env) objs (cl_ws c1)\<rparr>
                 in case cl_custom c2 of
                      None \<Rightarrow> (Panicked nil_call, c2)
                    | Some cu \<Rightarrow>
                        (case run_script (env_redis env) (cu_OnSubscribe (env_custom env) (cl_id c2) (us_Add msg) objs cu) c2 of
                           (Returned _, c3) \<Rightarrow> (Returned None, c3)
                         | (Panicked p, c3) \<Rightarrow> (Panicked p, c3)
                         | (Blocked, c3) \<Rightarrow> (Blocked, c3)))))"

text \<open>\<open>handleMessage\<close>; the error of \<open>updateSubscription\<close> is dropped.\<close>

definition handleMessage :: "('o, 'd, 'm, 'raw, 'r, 'w, 'a, 'cc) client_env \<Rightarrow> client_msg \<Rightarrow>
    ('o, 'm, 'r, 'w, 'a, 'cc) client \<Rightarrow> error option run \<times> ('o, 'm, 'r, 'w, 'a, 'cc) client" where
  "handleMessage env message c =
     (case message of
        UpdateSubscriptionMsg msg \<Rightarrow>
          (case updateSubscription env msg c of
             (Returned _, c') \<Rightarrow> (Returned None, c')
           | (Panicked p, c') \<Rightarrow> (Panicked p, c')
           | (Blocked, c') \<Rightarrow> (Blocked, c'))
      | CustomMsg msg \<Rightarrow>
          (case cl_custom c of
             Some cu \<Rightarrow>
               (case run_script (env_redis env) (cu_OnMessage (env_custom env) (cl_id c) (cm_Method msg) (cm_Data msg) cu) c of
                  (Returned _, c') \<Rightarrow> (Returned None, c')
                | (Panicked p, c') \<Rightarrow> (Panicked p, c')
                | (Blocked, c') \<Rightarrow> (Blocked, c'))
           | None \<Rightarrow> (Returned (Some ''Client.handleMessages does not handle synk.CustomMessage''), c))
      | MethodMsg _ \<Rightarrow> (Returned None, c))"

section \<open>The loops\<close>

text \<open>
  One pass of the \<open>select\<close> of \<open>startMainLoop\<close>: the case that was chosen, which must be ready.
  The result says whether the loop goes on.
\<close>

datatype loop_event = MessageOut | Ping | MessageIn

datatype loop_next = Continue | Return

definition main_iteration :: "('o, 'd, 'm, 'raw, 'r, 'w, 'a, 'cc) client_env \<Rightarrow> loop_event \<Rightarrow>
    ('o, 'm, 'r, 'w, 'a, 'cc) client \<Rightarrow> loop_next run \<times> ('o, 'm, 'r, 'w, 'a, 'cc) client" where
  "main_iteration env ev c =
     (case ev of
        MessageOut \<Rightarrow>
          (case chan_recv (toWebSocket c) of
             (Returned None, to') \<Rightarrow> (Returned Return, c\<lparr>toWebSocket := to'\<rparr>)
           | (Returned (Some message), to') \<Rightarrow>
               (let (err, w) = Client_writeToWebSocket (env_ws env) message (cl_ws c)
                in (Returned (if err = None then Continue else Return), c\<lparr>toWebSocket := to', cl_ws := w\<rparr>))
           | (Panicked p, to') \<Rightarrow> (Panicked p, c)
           | (Blocked, to') \<Rightarrow> (Blocked, c))
      | Ping \<Rightarrow>
          (let (err, w) = ws_WritePing (env_ws env) (cl_ws c)
           in (Returned (if err = None then Continue else Return), c\<lparr>cl_ws := w\<rparr>))
      | MessageIn \<Rightarrow>
          (case chan_recv (fromWebSocket c) of
             (Returned None, from') \<Rightarrow> (Returned Return, c\<lparr>fromWebSocket := from'\<rparr>)
           | (Returned (Some message), from') \<Rightarrow>
               (case handleMessage env message (c\<lparr>fromWebSocket := from'\<rparr>) of
                  (Returned _, c') \<Rightarrow> (Returned Continue, c')
                | (Panicked p, c') \<Rightarrow> (Panicked p, c')
                | (Blocked, c') \<Rightarrow> (Blocked, c'))
           | (Panicked p, from') \<Rightarrow> (Panicked p, c)
           | (Blocked, from') \<Rightarrow> (Blocked, c)))"

text \<open>The loop for a given sequence of choices; it stops when the sequence is used up.\<close>

fun main_loop :: "('o, 'd, 'm, 'raw, 'r, 'w, 'a, 'cc) client_env \<Rightarrow> loop_event list \<Rightarrow>
    ('o, 'm, 'r, 'w, 'a, 'cc) client \<Rightarrow> loop_next run \<times> ('o, 'm, 'r, 'w, 'a, 'cc) client" where
  "main_loop env [] c = (Returned Continue, c)"
| "main_loop env (ev # evs) c =
     (case main_iteration env ev c of
        (Returned Continue, c') \<Rightarrow> main_loop env evs c'
      | res \<Rightarrow> res)"

text \<open>
  One pass of the loop of \<open>startReadingFromWebSocket\<close>, with the deferred \<open>close\<close> on the way
  out.
\<close>

definition read_iteration :: "'w websocket \<Rightarrow> ('o, 'm, 'r, 'w, 'a, 'cc) client \<Rightarrow>
    loop_next run \<times> ('o, 'm, 'r, 'w, 'a, 'cc) client" where
  "read_iteration ws c =
     (case ws_Read ws (cl_ws c) of
        (Inl e, w) \<Rightarrow>
          (case chan_close (fromWebSocket c) of
             (Returned _, from') \<Rightarrow> (Returned Return, c\<lparr>cl_ws := w, fromWebSocket := from'\<rparr>)
           | (Panicked p, from') \<Rightarrow> (Panicked p, c\<lparr>cl_ws := w\<rparr>)
           | (Blocked, from') \<Rightarrow> (Blocked, c\<lparr>cl_ws := w\<rparr>))
      | (Inr bs, w) \<Rightarrow>
          (case MessageFromBytes bs of
             (message, Some parseErr) \<Rightarrow> (Returned Continue, c\<lparr>cl_ws := w\<rparr>)
           | (message, None) \<Rightarrow>
               (case chan_send message (fromWebSocket c) of
                  (Returned _, from') \<Rightarrow> (Returned Continue, c\<lparr>cl_ws := w, fromWebSocket := from'\<rparr>)
                | (Panicked p, from') \<Rightarrow> (Panicked p, c\<lparr>cl_ws := w\<rparr>)
                | (Blocked, from') \<Rightarrow> (Blocked, c\<lparr>cl_ws := w\<rparr>))))"

text \<open>
  \<open>startReadingFromWebSocket\<close>: the loop has no bound of its own, it runs until a read fails; not
  coming back is \<open>None\<close>.
\<close>

partial_function (option) read_loop :: "'w websocket \<Rightarrow> ('o, 'm, 'r, 'w, 'a, 'cc) client \<Rightarrow>
    (unit run \<times> ('o, 'm, 'r, 'w, 'a, 'cc) client) option" where
  "read_loop ws c =
     (case read_iteration ws c of
        (Returned Continue, c') \<Rightarrow> read_loop ws c'
      | (Returned Return, c') \<Rightarrow> Some (Returned (), c')
      | (Panicked p, c') \<Rightarrow> Some (Panicked p, c')
      | (Blocked, c') \<Rightarrow> Some (Blocked, c'))"

section \<open>Close\<close>

text \<open>\<open>for range c { }\<close>: it ends when the channel is closed and empty, and waits while it is open.\<close>

function drain :: "'b chan \<Rightarrow> unit run \<times> 'b chan" where
  "drain c =
     (case chan_recv c of
        (Returned (Some _), c') \<Rightarrow> drain c'
      | (Returned None, c') \<Rightarrow> (Returned (), c')
      | (Panicked p, c') \<Rightarrow> (Panicked p, c')
      | (Blocked, c') \<Rightarrow> (Blocked, c'))"
  by pat_completeness auto
termination
  by (relation "measure (\<lambda>c. length (ch_buf c))") (auto simp: chan_recv_def split: list.splits if_splits)

declare drain.simps [simp del]

text \<open>
  The parts of \<open>Close()\<close>: closing the connection inside the once, forgetting the client, and releasing the
  wait group. A \<open>sync.WaitGroup\<close> panics when it goes below zero.
\<close>

definition Close_socket :: "('o, 'd, 'm, 'raw, 'r, 'w, 'a, 'cc) client_env \<Rightarrow>
    ('o, 'm, 'r, 'w, 'a, 'cc) client \<Rightarrow> ('o, 'm, 'r, 'w, 'a, 'cc) client" where
  "Close_socket env c = c\<lparr>closeOnce := True, cl_ws := ws_Close (env_ws env) (cl_ws c)\<rparr>"

definition Close_agents :: "('o, 'd, 'm, 'raw, 'r, 'w, 'a, 'cc) client_env \<Rightarrow>
    ('o, 'm, 'r, 'w, 'a, 'cc) client \<Rightarrow> ('o, 'm, 'r, 'w, 'a, 'cc) client" where
  "Close_agents env c = c\<lparr>cl_agents := ag_RemoveAgent (env_agents env) (cl_id c) (cl_agents c)\<rparr>"

definition Close_done :: "('o, 'm, 'r, 'w, 'a, 'cc) client \<Rightarrow> unit run \<times> ('o, 'm, 'r, 'w, 'a, 'cc) client" where
  "Close_done c =
     (if waitGroup c = 0 then (Panicked ''sync: negative WaitGroup counter'', c)
      else (Returned (), c\<lparr>waitGroup := waitGroup c - 1\<rparr>))"

text \<open>
  \<open>Close()\<close>: \<open>reader\<close> is what the reading goroutine does to the client once the connection has been
  closed, before the channel is drained.
\<close>

definition Close :: "('o, 'd, 'm, 'raw, 'r, 'w, 'a, 'cc) client_env \<Rightarrow>
    (('o, 'm, 'r, 'w, 'a, 'cc) client \<Rightarrow> ('o, 'm, 'r, 'w, 'a, 'cc) client) \<Rightarrow>
    ('o, 'm, 'r, 'w, 'a, 'cc) client \<Rightarrow> unit run \<times> ('o, 'm, 'r, 'w, 'a, 'cc) client" where
  "Close env reader c =
     (if closeOnce c then (Returned (), c)
      else
        (let c1 = reader (Close_socket env c);
             (res, from') = drain (fromWebSocket c1);
             c2 = c1\<lparr>fromWebSocket := from'\<rparr>
         in case res of
              Returned _ \<Rightarrow> Close_done (Close_agents env c2)
            | Panicked p \<Rightarrow> (Panicked p, c2)
            | Blocked \<Rightarrow> (Blocked, c2)))"

text \<open>
  \<open>startMainLoop\<close>: the loop for the given choices, then the deferred \<open>Close\<close>, which also runs when
  the loop panics. Without an end of the loop (\<open>Continue\<close>) nothing more happens.
\<close>

definition startMainLoop :: "('o, 'd, 'm, 'raw, 'r, 'w, 'a, 'cc) client_env \<Rightarrow>
    (('o, 'm, 'r, 'w, 'a, 'cc) client \<Rightarrow> ('o, 'm, 'r, 'w, 'a, 'cc) client) \<Rightarrow> loop_event list \<Rightarrow>
    ('o, 'm, 'r, 'w, 'a, 'cc) client \<Rightarrow> loop_next run \<times> ('o, 'm, 'r, 'w, 'a, 'cc) client" where
  "startMainLoop env reader evs c =
     (case main_loop env evs c of
        (Returned Continue, c') \<Rightarrow> (Returned Continue, c')
      | (Blocked, c') \<Rightarrow> (Blocked, c')
      | (Returned Return, c') \<Rightarrow>
          (case Close env reader c' of
             (Returned _, c2) \<Rightarrow> (Returned Return, c2)
           | (Panicked p, c2) \<Rightarrow> (Panicked p, c2)
           | (Blocked, c2) \<Rightarrow> (Blocked, c2))
      | (Panicked p, c') \<Rightarrow>
          (case Close env reader c' of
             (Returned _, c2) \<Rightarrow> (Panicked p, c2)
           | (Panicked q, c2) \<Rightarrow> (Panicked q, c2)
           | (Blocked, c2) \<Rightarrow> (Blocked, c2)))"

section \<open>newClient\<close>

text \<open>
  The second half of \<open>newClient\<close>: the custom client is made and told about the connection. By
  then the goroutines are running.
\<close>

definition connect_custom :: "('s, 'c, 'a, 'o, ID, 'cc) node \<Rightarrow> ('o, 'd, 'm, 'raw, 'r, 'w, 'a, 'cc) client_env \<Rightarrow>
    ('o, 'm, 'r, 'w, 'a, 'cc) client \<Rightarrow> unit run \<times> ('o, 'm, 'r, 'w, 'a, 'cc) client" where
  "connect_custom n env c =
     (case NewClient n (cl_id c) of
        Panic p \<Rightarrow> (Panicked p, c)
      | Ret None \<Rightarrow> (Panicked nil_call, c\<lparr>cl_custom := None\<rparr>)
      | Ret (Some cu) \<Rightarrow> run_script (env_redis env) (cu_OnConnect (env_custom env) (cl_id c) cu) (c\<lparr>cl_custom := Some cu\<rparr>))"

text \<open>
  \<open>newClient\<close>: \<open>others\<close> is what the two started goroutines do to the client before the custom
  client is assigned. The error it returns is always nil.
\<close>

definition newClient :: "('s, 'c, 'm, 'a) drivers \<Rightarrow> config \<Rightarrow> ('s, 'c, 'a, 'o, ID, 'cc) node \<Rightarrow>
    ('o, 'd, 'm, 'raw, 'r, 'w, 'a, 'cc) client_env \<Rightarrow>
    (('o, 'm, 'r, 'w, 'a, 'cc) client \<Rightarrow> unit run \<times> ('o, 'm, 'r, 'w, 'a, 'cc) client) \<Rightarrow>
    'r \<Rightarrow> 'w \<Rightarrow> rand \<Rightarrow> (('o, 'm, 'r, 'w, 'a, 'cc) client \<times> error option) run \<times> rand" where
  "newClient dr cfg n env others redis ws r =
     (case CreateLoader dr cfg n of
        Panic p \<Rightarrow> (Panicked p, r)
      | Ret loader \<Rightarrow>
          (let mk = (\<lambda>k. case call_creator n (synk_Creator loader) k of Ret c \<Rightarrow> c | Panic _ \<Rightarrow> None);
               (c, r') = make_client mk (synk_Coll loader) redis (redisAgents n) ws r
           in case others c of
                (Panicked p, c1) \<Rightarrow> (Panicked p, r')
              | (_, c1) \<Rightarrow>
                  (case connect_custom n env c1 of
                     (Returned _, c2) \<Rightarrow> (Returned (c2, None), r')
                   | (Panicked p, c2) \<Rightarrow> (Panicked p, r')
                   | (Blocked, c2) \<Rightarrow> (Blocked, r'))))"

end
