(* ===== verification/Client_Lemmas.thy ===== *)
theory Client_Lemmas
  imports Client
begin

text \<open>
  What a client forwards to its browser: the header of moved objects, the deliveries that a
  creation, a modification and a deletion cause for every set of subscriptions, the effect of a
  subscription request, and what the two loops of a connection do.
\<close>

section \<open>Receive\<close>

definition put_out :: "bytes \<Rightarrow> bytes chan \<Rightarrow> error option run \<times> bytes chan" where
  "put_out b to =
     (if ch_closed to then (Panicked ''send on closed channel'', to)
      else if length (ch_buf to) < ch_cap to then (Returned None, to\<lparr>ch_buf := ch_buf to @ [b]\<rparr>)
      else (Blocked, to))"

lemma Receive_send: "(case chan_send b to of (Returned _, to') \<Rightarrow> (Returned None, to')
    | (Panicked p, to') \<Rightarrow> (Panicked p, to') | (Blocked, to') \<Rightarrow> (Blocked, to')) = put_out b to"
  by (simp add: chan_send_def put_out_def)

lemma Receive_plain: "Receive subs key (CHR ''{'' # b) to = put_out (CHR ''{'' # b) to"
  by (simp add: Receive_def Receive_send)

lemma Receive_from:
  assumes "CHR ''{'' \<notin> set h"
  shows "Receive subs key (''from '' @ h @ CHR ''{'' # b) to =
    (if subs h = None then put_out (CHR ''{'' # b) to else (Returned None, to))"
proof -
  have "index_byte (CHR ''{'') ((''from '' @ h) @ CHR ''{'' # b) = Some (length (''from '' @ h))"
    using assms by (intro index_byte_append) simp
  then show ?thesis by (simp add: Receive_def Receive_send has_prefix_def)
qed

lemma Receive_other:
  assumes "CHR ''{'' \<notin> set h" "h \<noteq> []" "\<not> has_prefix h ''from ''"
  shows "Receive subs key (h @ CHR ''{'' # b) to = put_out (CHR ''{'' # b) to"
  using assms index_byte_append [OF assms(1), of b] by (simp add: Receive_def Receive_send)

lemma Receive_no_json: "CHR ''{'' \<notin> set b \<Longrightarrow> Receive subs key b to = (Returned None, to)"
  by (simp add: Receive_def index_byte_None [THEN iffD2])

text \<open>A message for a client with room in its buffer.\<close>

definition room :: "nat \<Rightarrow> 'a chan \<Rightarrow> bool" where
  "room n to \<longleftrightarrow> \<not> ch_closed to \<and> length (ch_buf to) + n \<le> ch_cap to"

definition queued :: "'a list \<Rightarrow> 'a chan \<Rightarrow> 'a chan" where
  "queued bs to = to\<lparr>ch_buf := ch_buf to @ bs\<rparr>"

lemma queued_simps [simp]: "queued [] to = to" "queued cs (queued bs to) = queued (bs @ cs) to"
  by (simp_all add: queued_def)

lemma room_mono: "room n to \<Longrightarrow> m \<le> n \<Longrightarrow> room m to"
  by (simp add: room_def)

lemma room_queued: "room n (queued bs to) \<longleftrightarrow> room (length bs + n) to"
  by (auto simp: room_def queued_def)

lemma put_out_room: "room (Suc n) to \<Longrightarrow> put_out b to = (Returned None, queued [b] to)"
  by (simp add: put_out_def room_def queued_def)

section \<open>Deliveries\<close>

text \<open>
  The agents of package \<open>pubsub\<close> call \<open>Receive\<close> for a message exactly when it was published
  on a channel the client is subscribed to, in the order of publication.
\<close>

definition deliver :: "(string \<rightharpoonup> bool) \<Rightarrow> string \<times> bytes \<Rightarrow> bytes chan \<Rightarrow> bytes chan" where
  "deliver subs m to = (if subs (fst m) = None then to else snd (Receive subs (fst m) (snd m) to))"

definition deliver_all :: "(string \<rightharpoonup> bool) \<Rightarrow> (string \<times> bytes) list \<Rightarrow> bytes chan \<Rightarrow> bytes chan" where
  "deliver_all subs ms to = fold (deliver subs) ms to"

text \<open>The messages published between two states of the server.\<close>

definition published_since :: "redis_db \<Rightarrow> redis_db \<Rightarrow> (string \<times> bytes) list" where
  "published_since d d' = drop (length (db_published d)) (db_published d')"

lemma published_since_add [simp]:
  "published_since d (add_published ch b d) = [(ch, b)]"
  "published_since d (add_published ch2 b2 (add_published ch b d)) = [(ch, b), (ch2, b2)]"
  by (simp_all add: published_since_def add_published_def)

lemma deliver_all_simps [simp]:
  "deliver_all subs [] to = to" "deliver_all subs (m # ms) to = deliver_all subs ms (deliver subs m to)"
  by (simp_all add: deliver_all_def)

lemma deliver_json:
  "room (Suc n) to \<Longrightarrow> b = CHR ''{'' # r \<Longrightarrow>
   deliver subs (ch, b) to = (if subs ch = None then to else queued [b] to)"
  by (simp add: deliver_def Receive_plain put_out_room)

lemma deliver_moved:
  "room (Suc n) to \<Longrightarrow> b = CHR ''{'' # r \<Longrightarrow> CHR ''{'' \<notin> set psk \<Longrightarrow>
   deliver subs (ch, ''from '' @ psk @ b) to =
     (if subs ch = None then to else if subs psk = None then queued [b] to else to)"
  using Receive_from [of psk subs ch r to] by (simp add: deliver_def put_out_room)

text \<open>What a client gets for each of the three operations, by what it is subscribed to.\<close>

definition modify_delivery :: "(string \<rightharpoonup> bool) \<Rightarrow> string \<Rightarrow> string \<Rightarrow> bytes \<Rightarrow> bytes \<Rightarrow> bytes list" where
  "modify_delivery subs psk nsk m a =
     (if subs psk \<noteq> None then [m] else if subs nsk \<noteq> None then [a] else [])"

context synk_object
begin

lemma Modify_published:
  assumes "redis_behaves rd db" "mongo_behaves ops tag_of mk stored mg docs"
    and "MongoSynk_Modify ops mg rd s = (Ret v, s')"
  defines "x \<equiv> ms_obj s"
  shows "\<exists>m a. marshal (modMsg_json ops (mod_msg_of ops x)) = Inr m \<and>
    marshal (addMsg_json ops (add_msg_of ops (modified_obj ops x) (obj_GetPrevSubKey ops x) (obj_TypeKey ops x))) = Inr a \<and>
    published_since (db (ms_redis s)) (db (ms_redis s')) =
      (if obj_GetSubKey ops x = obj_GetPrevSubKey ops x then [(obj_GetPrevSubKey ops x, m)]
       else [(obj_GetPrevSubKey ops x, m), (obj_GetSubKey ops x, ''from '' @ obj_GetPrevSubKey ops x @ a)])"
proof (cases "obj_GetSubKey ops x = obj_GetPrevSubKey ops x")
  case True
  then show ?thesis
    using Modify_Ret [OF assms(1-3)] marshal_add by (auto simp: x_def [symmetric])
next
  case False
  then show ?thesis
    using Modify_Ret [OF assms(1-3)] by (auto simp: x_def [symmetric] moved_add_msg)
qed

lemma Modify_delivered:
  assumes "redis_behaves rd db" "mongo_behaves ops tag_of mk stored mg docs"
    and "MongoSynk_Modify ops mg rd s = (Ret v, s')"
  defines "x \<equiv> ms_obj s"
  assumes "CHR ''{'' \<notin> set (obj_GetPrevSubKey ops x)" "room 2 to"
  shows "\<exists>m a. marshal (modMsg_json ops (mod_msg_of ops x)) = Inr m \<and>
    marshal (addMsg_json ops (add_msg_of ops (modified_obj ops x) (obj_GetPrevSubKey ops x) (obj_TypeKey ops x))) = Inr a \<and>
    deliver_all subs (published_since (db (ms_redis s)) (db (ms_redis s'))) to =
      queued (modify_delivery subs (obj_GetPrevSubKey ops x) (obj_GetSubKey ops x) m a) to"
proof -
  obtain m a where m: "marshal (modMsg_json ops (mod_msg_of ops x)) = Inr m"
    and a: "marshal (addMsg_json ops (add_msg_of ops (modified_obj ops x) (obj_GetPrevSubKey ops x) (obj_TypeKey ops x))) = Inr a"
    and pub: "published_since (db (ms_redis s)) (db (ms_redis s')) =
      (if obj_GetSubKey ops x = obj_GetPrevSubKey ops x then [(obj_GetPrevSubKey ops x, m)]
       else [(obj_GetPrevSubKey ops x, m), (obj_GetSubKey ops x, ''from '' @ obj_GetPrevSubKey ops x @ a)])"
    using Modify_published [OF assms(1-3)] unfolding x_def by blast
  obtain r1 r2 where br: "m = CHR ''{'' # r1" "a = CHR ''{'' # r2"
    using marshal_msg_brace(2) [OF m] marshal_msg_brace(1) [OF a] by blast
  have rooms: "room (Suc 1) to" "room (Suc 0) to" "room (Suc 0) (queued [m] to)"
    using assms(6) by (auto simp: room_def queued_def)
  have "deliver_all subs (published_since (db (ms_redis s)) (db (ms_redis s'))) to =
      queued (modify_delivery subs (obj_GetPrevSubKey ops x) (obj_GetSubKey ops x) m a) to"
    using deliver_json [OF rooms(2) br(1)] deliver_moved [OF rooms(2) br(2) assms(5)]
      deliver_moved [OF rooms(3) br(2) assms(5)]
    by (simp add: pub modify_delivery_def)
  with m a show ?thesis by blast
qed

lemma Create_delivered:
  assumes "redis_behaves rd db" "mongo_behaves ops tag_of mk stored mg docs"
    and "MongoSynk_Create ops mg rd s = (Ret v, s')" "room 1 to"
  shows "\<exists>b. marshal (addMsg_json ops (add_msg_of ops (ms_obj s') '''' (obj_TypeKey ops (ms_obj s)))) = Inr b \<and>
    deliver_all subs (published_since (db (ms_redis s)) (db (ms_redis s'))) to =
      queued (if subs (obj_GetSubKey ops (ms_obj s')) \<noteq> None then [b] else []) to"
proof -
  let ?x = "created_obj ops (ms_obj s) (ms_rand s)"
  obtain b y where x: "ms_obj s' = ?x" and b: "marshal (addMsg_json ops \<lparr>add_State = obj_State ops ?x,
        add_ID = obj_TagGetID ops ?x, add_SKey = obj_GetSubKey ops y, add_PSKey = '''',
        add_Version = obj_Version ops ?x, add_Type = obj_TypeKey ops (ms_obj s)\<rparr>) = Inr b"
    and y: "?x = obj_TagSetSub ops (obj_GetSubKey ops y) y"
    and pub: "db (ms_redis s') = add_published (obj_GetSubKey ops y) b (db (ms_redis s))"
    using Create_Ret [OF assms(1-3)] by blast
  have key: "obj_GetSubKey ops ?x = obj_GetSubKey ops y" by (subst y) (rule set_sub_keys(1))
  obtain r1 where "b = CHR ''{'' # r1" using marshal_msg_brace(1) [OF b] by blast
  then have "deliver subs (obj_GetSubKey ops y, b) to = (if subs (obj_GetSubKey ops y) = None then to else queued [b] to)"
    using assms(4) by (intro deliver_json [of 0]) simp_all
  with b key x pub show ?thesis by (simp add: add_msg_of_def)
qed

lemma Delete_delivered:
  assumes "redis_behaves rd db" "mongo_behaves ops tag_of mk stored mg docs"
    and "MongoSynk_Delete ops mg rd s = (Ret v, s')" "room 1 to"
  shows "\<exists>b. marshal (remMsg_json (rem_msg_of ops (ms_obj s))) = Inr b \<and>
    deliver_all subs (published_since (db (ms_redis s)) (db (ms_redis s'))) to =
      queued (if subs (obj_GetPrevSubKey ops (ms_obj s)) \<noteq> None then [b] else []) to"
proof -
  obtain b where b: "marshal (remMsg_json (rem_msg_of ops (ms_obj s))) = Inr b"
    and pub: "db (ms_redis s') = add_published (obj_GetPrevSubKey ops (ms_obj s)) b (db (ms_redis s))"
    using Delete_Ret [OF assms(1-3)] by blast
  obtain r1 where "b = CHR ''{'' # r1" using marshal_msg_brace(3) [OF b] by blast
  then have "deliver subs (obj_GetPrevSubKey ops (ms_obj s), b) to =
      (if subs (obj_GetPrevSubKey ops (ms_obj s)) = None then to else queued [b] to)"
    using assms(4) by (intro deliver_json [of 0]) simp_all
  with b pub show ?thesis by simp
qed

end

section \<open>Subscription requests\<close>

definition new_subscriptions :: "UpdateSubscriptionMessage \<Rightarrow> (string \<rightharpoonup> bool) \<Rightarrow> string \<rightharpoonup> bool" where
  "new_subscriptions msg subs =
     (\<lambda>k. if k \<in> set (us_Add msg) then Some True else if k \<in> set (us_Remove msg) then None else subs k)"

lemma fold_remove: "fold (\<lambda>k m. m(k := None)) ks m = (\<lambda>k. if k \<in> set ks then None else m k)"
  by (induction ks arbitrary: m) (auto simp: fun_eq_iff)

lemma fold_add: "fold (\<lambda>k m. m(k \<mapsto> True)) ks m = (\<lambda>k. if k \<in> set ks then Some True else m k)"
  by (induction ks arbitrary: m) (auto simp: fun_eq_iff)

lemma update_subs:
  "fold (\<lambda>k m. m(k \<mapsto> True)) (us_Add msg) (fold (\<lambda>k m. m(k := None)) (us_Remove msg) subs) = new_subscriptions msg subs"
  by (simp add: fold_remove fold_add new_subscriptions_def)

lemma run_script_frame:
  "subscriptions (snd (run_script rd k c)) = subscriptions c" "cl_agents (snd (run_script rd k c)) = cl_agents c"
  "cl_ws (snd (run_script rd k c)) = cl_ws c" "cl_coll (snd (run_script rd k c)) = cl_coll c"
  "fromWebSocket (snd (run_script rd k c)) = fromWebSocket c" "cl_id (snd (run_script rd k c)) = cl_id c"
  "cl_Creator (snd (run_script rd k c)) = cl_Creator c"
  by (induction k arbitrary: c)
    (auto simp: WriteToWebSocket_def Client_Publish_def Let_def split: run.splits go.splits prod.splits)

text \<open>
  Whatever the outcome: the subscriptions and the agents are updated once, and what was written to
  the browser are the messages of the objects that \<open>Load\<close> returned.
\<close>

lemma updateSubscription_effect:
  assumes "updateSubscription env msg c = (res, c')"
  shows "subscriptions c' = new_subscriptions msg (subscriptions c) \<and>
    cl_agents c' = ag_Update (env_agents env) (cl_id c) (us_Add msg) (us_Remove msg) (cl_agents c) \<and>
    cl_ws c' =
      (if us_Add msg = [] then cl_ws c
       else case fst (MongoSynk_Load (cl_Creator c) (env_mongo env) (us_Add msg) (cl_coll c)) of
              Ret (objs, None) \<Rightarrow> send_loaded (env_ops env) (env_ws env) objs (cl_ws c)
            | _ \<Rightarrow> cl_ws c)"
proof -
  let ?c1 = "c\<lparr>subscriptions := new_subscriptions msg (subscriptions c),
      cl_agents := ag_Update (env_agents env) (cl_id c) (us_Add msg) (us_Remove msg) (cl_agents c)\<rparr>"
  show ?thesis
  proof (cases "us_Add msg = []")
    case True
    with assms show ?thesis
      by (auto simp: updateSubscription_def Let_def update_subs [symmetric])
  next
    case False
    obtain g m where load: "MongoSynk_Load (cl_Creator c) (env_mongo env) (us_Add msg) (cl_coll c) = (g, m)" by fastforce
    show ?thesis
    proof (cases "\<exists>objs. g = Ret (objs, None)")
      case True
      then obtain objs where g: "g = Ret (objs, None)" by blast
      let ?c2 = "?c1\<lparr>cl_coll := m, cl_ws := send_loaded (env_ops env) (env_ws env) objs (cl_ws c)\<rparr>"
      have "c' = ?c2 \<or> (\<exists>k. c' = snd (run_script (env_redis env) k ?c2))"
        using assms False load g
        by (auto simp: updateSubscription_def Let_def update_subs split: option.splits run.splits prod.splits
            dest!: arg_cong [where f = snd] intro: sym)
      with False load g show ?thesis by (auto simp: run_script_frame)
    next
      case other: False
      with assms False load show ?thesis
        by (auto simp: updateSubscription_def Let_def update_subs split: go.splits option.splits)
    qed
  qed
qed

text \<open>A request that comes back has loaded the objects that the collection files under the added keys.\<close>

lemma updateSubscription_Returned:
  assumes "updateSubscription env msg c = (Returned e, c')" "us_Add msg \<noteq> []"
  shows "\<exists>objs m. MongoSynk_Load (cl_Creator c) (env_mongo env) (us_Add msg) (cl_coll c) = (Ret (objs, e), m)"
  using assms
  by (auto simp: updateSubscription_def Let_def split: prod.splits go.splits option.splits run.splits)

lemma updateSubscription_loads:
  assumes "mongo_behaves (env_ops env) tag_of (cl_Creator c) stored (env_mongo env) docs"
    and "creator_ok (env_ops env) (cl_Creator c)"
    and "\<forall>i x. docs (cl_coll c) i = Some x \<longrightarrow> TagType (tag_of x) = obj_TypeKey (env_ops env) x"
    and "updateSubscription env msg c = (Returned e, c')" "us_Add msg \<noteq> []"
  shows "e = None \<and> (\<exists>ids. distinct ids \<and>
    set ids = {i \<in> ids_with_sub tag_of (docs (cl_coll c)) (us_Add msg). cl_Creator c (TagType (tag_of (the (docs (cl_coll c) i)))) \<noteq> None} \<and>
    cl_ws c' = send_loaded (env_ops env) (env_ws env) (map (\<lambda>i. the (docs (cl_coll c) i)) ids) (cl_ws c))"
proof -
  obtain objs m where load: "MongoSynk_Load (cl_Creator c) (env_mongo env) (us_Add msg) (cl_coll c) = (Ret (objs, e), m)"
    using updateSubscription_Returned [OF assms(4,5)] by blast
  obtain ids where ids: "e = None" "distinct ids" "objs = map (\<lambda>i. the (docs (cl_coll c) i)) ids"
      "set ids = {i \<in> ids_with_sub tag_of (docs (cl_coll c)) (us_Add msg). cl_Creator c (TagType (tag_of (the (docs (cl_coll c) i)))) \<noteq> None}"
    using Load_Ret [OF assms(1-3) load] by blast
  have "cl_ws c' = send_loaded (env_ops env) (env_ws env) objs (cl_ws c)"
    using updateSubscription_effect [OF assms(4)] assms(5) load ids(1) by simp
  with ids show ?thesis by blast
qed

text \<open>After the objects, \<open>OnSubscribe\<close> of the application runs, if keys were added.\<close>

lemma updateSubscription_handler:
  assumes "updateSubscription env msg c = (Returned e, c')" "us_Add msg \<noteq> []"
    and "MongoSynk_Load (cl_Creator c) (env_mongo env) (us_Add msg) (cl_coll c) = (Ret (objs, None), m)"
  shows "\<exists>cu d. cl_custom c = Some cu \<and> toWebSocket d = toWebSocket c \<and>
    run_script (env_redis env) (cu_OnSubscribe (env_custom env) (cl_id c) (us_Add msg) objs cu) d = (Returned (), c')"
  using assms
  by (auto simp: updateSubscription_def Let_def split: option.splits prod.splits run.splits)
    (rule exI, rule conjI [rotated], assumption, simp)

lemma updateSubscription_whole:
  assumes "mongo_behaves (env_ops env) tag_of (cl_Creator c) stored (env_mongo env) docs"
    and "creator_ok (env_ops env) (cl_Creator c)"
    and "\<forall>i x. docs (cl_coll c) i = Some x \<longrightarrow> TagType (tag_of x) = obj_TypeKey (env_ops env) x"
    and "updateSubscription env msg c = (Returned e, c')"
  shows "\<exists>ids. distinct ids \<and>
    set ids = {i \<in> ids_with_sub tag_of (docs (cl_coll c)) (us_Add msg). cl_Creator c (TagType (tag_of (the (docs (cl_coll c) i)))) \<noteq> None} \<and>
    cl_ws c' = send_loaded (env_ops env) (env_ws env) (map (\<lambda>i. the (docs (cl_coll c) i)) ids) (cl_ws c) \<and>
    (if us_Add msg = [] then toWebSocket c' = toWebSocket c \<and> cl_custom c' = cl_custom c
     else \<exists>cu d. cl_custom c = Some cu \<and> toWebSocket d = toWebSocket c \<and>
       run_script (env_redis env) (cu_OnSubscribe (env_custom env) (cl_id c) (us_Add msg) (map (\<lambda>i. the (docs (cl_coll c) i)) ids) cu) d =
         (Returned (), c'))"
proof (cases "us_Add msg = []")
  case True
  then have "ids_with_sub tag_of (docs (cl_coll c)) (us_Add msg) = {}" by (simp add: ids_with_sub_def)
  moreover have "cl_ws c' = cl_ws c" "toWebSocket c' = toWebSocket c" "cl_custom c' = cl_custom c"
    using assms(4) True by (auto simp: updateSubscription_def Let_def)
  ultimately show ?thesis using True by (intro exI [of _ "[]"]) simp
next
  case False
  obtain objs m where load: "MongoSynk_Load (cl_Creator c) (env_mongo env) (us_Add msg) (cl_coll c) = (Ret (objs, e), m)"
    using updateSubscription_Returned [OF assms(4) False] by blast
  obtain ids where ids: "e = None" "distinct ids" "objs = map (\<lambda>i. the (docs (cl_coll c) i)) ids"
      "set ids = {i \<in> ids_with_sub tag_of (docs (cl_coll c)) (us_Add msg). cl_Creator c (TagType (tag_of (the (docs (cl_coll c) i)))) \<noteq> None}"
    using Load_Ret [OF assms(1-3) load] by blast
  have "cl_ws c' = send_loaded (env_ops env) (env_ws env) objs (cl_ws c)"
    using updateSubscription_effect [OF assms(4)] False load ids(1) by simp
  with ids False updateSubscription_handler [OF assms(4) False load [unfolded ids(1)]] show ?thesis
    by (intro exI [of _ ids]) simp
qed

lemma send_loaded_fold:
  "send_loaded ops ws objs w = fold (\<lambda>b w. snd (ws_WriteText ws b w)) (map (loaded_bytes ops) objs) w"
  by (induction objs arbitrary: w) (simp_all add: Client_writeToWebSocket_def)

text \<open>Without a custom client a request that adds keys panics, after the objects were written.\<close>

lemma updateSubscription_no_custom:
  assumes "cl_custom c = None" "us_Add msg \<noteq> []"
    and "MongoSynk_Load (cl_Creator c) (env_mongo env) (us_Add msg) (cl_coll c) = (Ret (objs, None), m)"
  shows "fst (updateSubscription env msg c) = Panicked nil_call"
  using assms by (simp add: updateSubscription_def Let_def)

section \<open>The loops\<close>

text \<open>A handler that writes while the buffer is full waits, and it runs on the loop that empties it.\<close>

lemma handler_write_blocks:
  assumes "ch_buf (fromWebSocket c) = CustomMsg msg # rest" "cl_custom c = Some cu"
    and "cu_OnMessage (env_custom env) (cl_id c) (cm_Method msg) (cm_Data msg) cu = WriteWS d k"
    and "\<not> ch_closed (toWebSocket c)" "length (ch_buf (toWebSocket c)) = ch_cap (toWebSocket c)"
  shows "fst (main_iteration env MessageIn c) = Blocked"
  using assms by (simp add: main_iteration_def chan_recv_def handleMessage_def WriteToWebSocket_def chan_send_def)

text \<open>
  What may be in the queue of incoming messages: subscription requests with that method, and custom
  messages with another one.
\<close>

fun accepted :: "client_msg \<Rightarrow> bool" where
  "accepted (UpdateSubscriptionMsg u) \<longleftrightarrow> us_Method u = ''updateSubscription''"
| "accepted (CustomMsg m) \<longleftrightarrow> cm_Method m \<noteq> '''' \<and> cm_Method m \<noteq> ''updateSubscription''"
| "accepted (MethodMsg m) \<longleftrightarrow> False"

lemma MessageFromBytes_accepted: "MessageFromBytes raw = (msg, None) \<Longrightarrow> accepted msg"
  using MessageFromBytes_ok by fastforce

lemma read_iteration_accepted:
  assumes "read_iteration ws c = (res, c')" "list_all accepted (ch_buf (fromWebSocket c))"
  shows "list_all accepted (ch_buf (fromWebSocket c'))"
  using assms MessageFromBytes_accepted
  by (fastforce simp: read_iteration_def chan_close_def chan_send_def split: prod.splits sum.splits option.splits if_splits run.splits)

lemma updateSubscription_from: "fromWebSocket (snd (updateSubscription env msg c)) = fromWebSocket c"
  by (auto simp: updateSubscription_def Let_def run_script_frame(5) split: prod.split go.split option.split run.split
      dest!: arg_cong [where f = "\<lambda>r. fromWebSocket (snd r)"])

end
