(* ===== verification/Lifecycle.thy ===== *)
theory Lifecycle
  imports Client_Lemmas "HOL-Library.Multiset"
begin

text \<open>
  The life of a connection: the goroutines that \<open>newClient\<close> and \<open>ServeHTTP\<close> start for one
  client, as a transition system. Each step is one operation on a channel, on the WebSocket, on the
  wait group or on the pool, taken by the goroutine named in the label; the goroutines interleave
  arbitrarily. The main loop returns into the deferred \<open>Close\<close>, whose statements are the later
  positions of the main goroutine. Any number of calls of \<open>Receive\<close> (by the agents) and of
  \<open>WriteToWebSocket\<close> (by goroutines of the application) may be in progress at a time.

  \<open>waits\<close> is a property of package \<open>pubsub\<close>, which is not in the repository: whether
  \<open>RemoveAgent\<close> returns only when no call of \<open>Receive\<close> for the client is running. Nothing is assumed
  about it: the theorems hold for both values, and say which way each behaviour depends on it.
\<close>

section \<open>States\<close>

datatype main_pos =
    InLoop
  | Handling "bytes list"  \<comment> \<open>in \<open>handleMessage\<close>, with these calls of \<open>WriteToWebSocket\<close> to come\<close>
  | CloseWs | Drain | RemoveAgent | WaitGroupDone | MainStopped

datatype reader_pos = Reading | Forwarding client_msg | ReaderStopped
datatype handler_pos =
    Connecting  \<comment> \<open>in \<open>newClient\<close>, where \<open>OnConnect\<close> may write to the client\<close>
  | PoolAdd | Waiting | PoolRemove | Finished
datatype waiter_pos = WaitingForDone | LoaderClosed

datatype actor = Main | Reader | Agent | App | Handler | Pool | Waiter

record life =
  lf_main :: main_pos
  lf_reader :: reader_pos
  lf_called :: nat  \<comment> \<open>calls of \<open>Receive\<close> that have not decided yet what to send\<close>
  lf_sending :: "bytes multiset"  \<comment> \<open>what the calls of \<open>Receive\<close> at their send are sending\<close>
  lf_writing :: "bytes multiset"  \<comment> \<open>the calls of \<open>WriteToWebSocket\<close> by other goroutines\<close>
  lf_handler :: handler_pos
  lf_waiter :: waiter_pos
  lf_registered :: bool  \<comment> \<open>the agents know the client\<close>
  lf_pooled :: bool
  lf_open :: bool        \<comment> \<open>the WebSocket was not closed by the server\<close>
  lf_count :: nat        \<comment> \<open>the wait group\<close>
  lf_from :: "client_msg chan"
  lf_to :: "bytes chan"
  lf_panic :: "actor set"  \<comment> \<open>the goroutines that have panicked\<close>

definition life_init :: life where
  "life_init = \<lparr>lf_main = InLoop, lf_reader = Reading, lf_called = 0, lf_sending = {#}, lf_writing = {#}, lf_handler = Connecting,
     lf_waiter = WaitingForDone, lf_registered = False, lf_pooled = False, lf_open = True, lf_count = 1,
     lf_from = make_chan clientBufferLength, lf_to = make_chan clientBufferLength, lf_panic = {}\<rparr>"

section \<open>Steps\<close>

inductive life_step :: "bool \<Rightarrow> life \<Rightarrow> actor \<Rightarrow> life \<Rightarrow> bool" for waits where
  out_written: "lf_main s = InLoop \<Longrightarrow> chan_recv (lf_to s) = (Returned (Some b), to') \<Longrightarrow>
     life_step waits s Main (s\<lparr>lf_to := to'\<rparr>)"
| out_failed: "lf_main s = InLoop \<Longrightarrow> chan_recv (lf_to s) = (Returned (Some b), to') \<Longrightarrow>
     life_step waits s Main (s\<lparr>lf_to := to', lf_main := CloseWs\<rparr>)"
| out_closed: "lf_main s = InLoop \<Longrightarrow> chan_recv (lf_to s) = (Returned None, to') \<Longrightarrow>
     life_step waits s Main (s\<lparr>lf_to := to', lf_main := CloseWs\<rparr>)"
| ping_failed: "lf_main s = InLoop \<Longrightarrow> life_step waits s Main (s\<lparr>lf_main := CloseWs\<rparr>)"
| message_in: "lf_main s = InLoop \<Longrightarrow> chan_recv (lf_from s) = (Returned (Some m), from') \<Longrightarrow>
     life_step waits s Main (s\<lparr>lf_from := from', lf_main := Handling bs, lf_registered := knows\<rparr>)"
| in_closed: "lf_main s = InLoop \<Longrightarrow> chan_recv (lf_from s) = (Returned None, from') \<Longrightarrow>
     life_step waits s Main (s\<lparr>lf_from := from', lf_main := CloseWs\<rparr>)"
| handler_write: "lf_main s = Handling (b # bs) \<Longrightarrow> chan_send b (lf_to s) = (Returned (), to') \<Longrightarrow>
     life_step waits s Main (s\<lparr>lf_to := to', lf_main := Handling bs\<rparr>)"
| handler_panic: "lf_main s = Handling (b # bs) \<Longrightarrow> chan_send b (lf_to s) = (Panicked p, to') \<Longrightarrow>
     life_step waits s Main (s\<lparr>lf_panic := insert Main (lf_panic s)\<rparr>)"
| handled: "lf_main s = Handling [] \<Longrightarrow> life_step waits s Main (s\<lparr>lf_main := InLoop\<rparr>)"
| close_ws: "lf_main s = CloseWs \<Longrightarrow> life_step waits s Main (s\<lparr>lf_open := False, lf_main := Drain\<rparr>)"
| drain: "lf_main s = Drain \<Longrightarrow> chan_recv (lf_from s) = (Returned (Some m), from') \<Longrightarrow>
     life_step waits s Main (s\<lparr>lf_from := from'\<rparr>)"
| drained: "lf_main s = Drain \<Longrightarrow> chan_recv (lf_from s) = (Returned None, from') \<Longrightarrow>
     life_step waits s Main (s\<lparr>lf_from := from', lf_main := RemoveAgent\<rparr>)"
| remove_agent: "lf_main s = RemoveAgent \<Longrightarrow> (waits \<Longrightarrow> lf_called s = 0 \<and> lf_sending s = {#}) \<Longrightarrow>
     life_step waits s Main (s\<lparr>lf_registered := False, lf_main := WaitGroupDone\<rparr>)"
| group_done: "lf_main s = WaitGroupDone \<Longrightarrow>
     life_step waits s Main (s\<lparr>lf_count := lf_count s - 1, lf_main := MainStopped\<rparr>)"
| read_message: "lf_reader s = Reading \<Longrightarrow> lf_open s \<Longrightarrow> MessageFromBytes raw = (m, None) \<Longrightarrow>
     life_step waits s Reader (s\<lparr>lf_reader := Forwarding m\<rparr>)"
| read_bad: "lf_reader s = Reading \<Longrightarrow> lf_open s \<Longrightarrow> MessageFromBytes raw = (m, Some e) \<Longrightarrow>
     life_step waits s Reader s"
| forward: "lf_reader s = Forwarding m \<Longrightarrow> chan_send m (lf_from s) = (Returned (), from') \<Longrightarrow>
     life_step waits s Reader (s\<lparr>lf_from := from', lf_reader := Reading\<rparr>)"
| forward_panic: "lf_reader s = Forwarding m \<Longrightarrow> chan_send m (lf_from s) = (Panicked p, from') \<Longrightarrow>
     life_step waits s Reader (s\<lparr>lf_panic := insert Reader (lf_panic s)\<rparr>)"
| read_error: "lf_reader s = Reading \<Longrightarrow> chan_close (lf_from s) = (Returned (), from') \<Longrightarrow>
     life_step waits s Reader (s\<lparr>lf_from := from', lf_reader := ReaderStopped\<rparr>)"
| read_error_panic: "lf_reader s = Reading \<Longrightarrow> chan_close (lf_from s) = (Panicked p, from') \<Longrightarrow>
     life_step waits s Reader (s\<lparr>lf_panic := insert Reader (lf_panic s)\<rparr>)"
| agent_call: "lf_registered s \<Longrightarrow> life_step waits s Agent (s\<lparr>lf_called := Suc (lf_called s)\<rparr>)"
| agent_skip: "lf_called s = Suc n \<Longrightarrow> life_step waits s Agent (s\<lparr>lf_called := n\<rparr>)"
| agent_decide: "lf_called s = Suc n \<Longrightarrow>
     life_step waits s Agent (s\<lparr>lf_called := n, lf_sending := add_mset b (lf_sending s)\<rparr>)"
| agent_sent: "b \<in># lf_sending s \<Longrightarrow> chan_send b (lf_to s) = (Returned (), to') \<Longrightarrow>
     life_step waits s Agent (s\<lparr>lf_to := to', lf_sending := lf_sending s - {#b#}\<rparr>)"
| agent_panic: "b \<in># lf_sending s \<Longrightarrow> chan_send b (lf_to s) = (Panicked p, to') \<Longrightarrow>
     life_step waits s Agent (s\<lparr>lf_panic := insert Agent (lf_panic s)\<rparr>)"
| app_call: "life_step waits s App (s\<lparr>lf_writing := add_mset b (lf_writing s)\<rparr>)"
| app_sent: "b \<in># lf_writing s \<Longrightarrow> chan_send b (lf_to s) = (Returned (), to') \<Longrightarrow>
     life_step waits s App (s\<lparr>lf_to := to', lf_writing := lf_writing s - {#b#}\<rparr>)"
| app_panic: "b \<in># lf_writing s \<Longrightarrow> chan_send b (lf_to s) = (Panicked p, to') \<Longrightarrow>
     life_step waits s App (s\<lparr>lf_panic := insert App (lf_panic s)\<rparr>)"
| connect_write: "lf_handler s = Connecting \<Longrightarrow> chan_send b (lf_to s) = (Returned (), to') \<Longrightarrow>
     life_step waits s Handler (s\<lparr>lf_to := to'\<rparr>)"
| connect_panic: "lf_handler s = Connecting \<Longrightarrow> chan_send b (lf_to s) = (Panicked p, to') \<Longrightarrow>
     life_step waits s Handler (s\<lparr>lf_panic := insert Handler (lf_panic s)\<rparr>)"
| connected: "lf_handler s = Connecting \<Longrightarrow> life_step waits s Handler (s\<lparr>lf_handler := PoolAdd\<rparr>)"
| pool_add: "lf_handler s = PoolAdd \<Longrightarrow> life_step waits s Handler (s\<lparr>lf_pooled := True, lf_handler := Waiting\<rparr>)"
| wait_over: "lf_handler s = Waiting \<Longrightarrow> lf_count s = 0 \<Longrightarrow> life_step waits s Handler (s\<lparr>lf_handler := PoolRemove\<rparr>)"
| pool_remove: "lf_handler s = PoolRemove \<Longrightarrow> lf_pooled s \<Longrightarrow> chan_close (lf_to s) = (Returned (), to') \<Longrightarrow>
     life_step waits s Handler (s\<lparr>lf_to := to', lf_pooled := False, lf_handler := Finished\<rparr>)"
| pool_remove_panic: "lf_handler s = PoolRemove \<Longrightarrow> lf_pooled s \<Longrightarrow> chan_close (lf_to s) = (Panicked p, to') \<Longrightarrow>
     life_step waits s Handler (s\<lparr>lf_panic := insert Handler (lf_panic s)\<rparr>)"
| pool_remove_absent: "lf_handler s = PoolRemove \<Longrightarrow> \<not> lf_pooled s \<Longrightarrow>
     life_step waits s Handler (s\<lparr>lf_handler := Finished\<rparr>)"
| broadcast: "lf_pooled s \<Longrightarrow> chan_try_send b (lf_to s) = (Returned (), to') \<Longrightarrow>
     life_step waits s Pool (s\<lparr>lf_to := to'\<rparr>)"
| broadcast_panic: "lf_pooled s \<Longrightarrow> chan_try_send b (lf_to s) = (Panicked p, to') \<Longrightarrow>
     life_step waits s Pool (s\<lparr>lf_panic := insert Pool (lf_panic s)\<rparr>)"
| loader_close: "lf_waiter s = WaitingForDone \<Longrightarrow> lf_count s = 0 \<Longrightarrow>
     life_step waits s Waiter (s\<lparr>lf_waiter := LoaderClosed\<rparr>)"

inductive life_reaches :: "bool \<Rightarrow> life \<Rightarrow> life \<Rightarrow> bool" for waits where
  reaches_refl: "life_reaches waits s s"
| reaches_step: "life_reaches waits s s' \<Longrightarrow> life_step waits s' a s'' \<Longrightarrow> life_reaches waits s s''"

abbreviation reachable :: "bool \<Rightarrow> life \<Rightarrow> bool" where
  "reachable waits s \<equiv> life_reaches waits life_init s"

abbreviation receiving :: "life \<Rightarrow> bool" where
  "receiving s \<equiv> lf_called s \<noteq> 0 \<or> lf_sending s \<noteq> {#}"

section \<open>The invariant\<close>

text \<open>
  Who may still use what: the reader owns the incoming queue until it stops; the wait group counts
  the main goroutine; the outgoing queue is closed by the last step of the handler, when the main
  goroutine has stopped, and the pool has forgotten the client by then. Only a call that is in progress
  at that time can panic: a \<open>Receive\<close>, if \<open>RemoveAgent\<close> has not waited for it, or a write by the
  application.
\<close>

definition life_inv :: "bool \<Rightarrow> life \<Rightarrow> bool" where
  "life_inv waits s \<longleftrightarrow>
     lf_panic s \<subseteq> {Agent, App} \<and>
     (Agent \<in> lf_panic s \<longrightarrow> \<not> waits \<and> lf_sending s \<noteq> {#} \<and> ch_closed (lf_to s)) \<and>
     (App \<in> lf_panic s \<longrightarrow> lf_writing s \<noteq> {#} \<and> ch_closed (lf_to s)) \<and>
     (ch_closed (lf_from s) \<longleftrightarrow> lf_reader s = ReaderStopped) \<and>
     lf_count s = (if lf_main s = MainStopped then 0 else 1) \<and>
     (lf_main s \<in> {WaitGroupDone, MainStopped} \<longrightarrow> \<not> lf_registered s \<and> (waits \<longrightarrow> lf_called s = 0 \<and> lf_sending s = {#})) \<and>
     (lf_main s \<in> {RemoveAgent, WaitGroupDone, MainStopped} \<longrightarrow> lf_reader s = ReaderStopped) \<and>
     (lf_handler s \<in> {PoolRemove, Finished} \<longrightarrow> lf_main s = MainStopped) \<and>
     (lf_pooled s \<longleftrightarrow> lf_handler s \<in> {Waiting, PoolRemove}) \<and>
     (ch_closed (lf_to s) \<longleftrightarrow> lf_handler s = Finished) \<and>
     (lf_waiter s = LoaderClosed \<longrightarrow> lf_main s = MainStopped) \<and>
     (lf_main s \<in> {Drain, RemoveAgent, WaitGroupDone, MainStopped} \<longrightarrow> \<not> lf_open s) \<and>
     list_all accepted (ch_buf (lf_from s)) \<and>
     (\<forall>m. lf_reader s = Forwarding m \<longrightarrow> accepted m) \<and>
     ch_cap (lf_from s) = clientBufferLength \<and> ch_cap (lf_to s) = clientBufferLength \<and>
     chan_ok (lf_from s) \<and> chan_ok (lf_to s)"

lemma life_inv_init: "life_inv waits life_init"
  by (simp add: life_inv_def life_init_def) (simp add: make_chan_def)

lemma life_inv_step: "life_step waits s a s' \<Longrightarrow> life_inv waits s \<Longrightarrow> life_inv waits s'"
proof (induction rule: life_step.induct)
  case (read_message s raw m)
  then show ?case using MessageFromBytes_accepted [OF read_message(3)] by (auto simp: life_inv_def)
qed (clarsimp simp: life_inv_def chan_outcomes chan_ok_def; auto split: if_splits)+

lemma life_inv_reaches: "life_reaches waits s s' \<Longrightarrow> life_inv waits s \<Longrightarrow> life_inv waits s'"
  by (induction rule: life_reaches.induct) (auto intro: life_inv_step)

lemma life_inv_reachable: "reachable waits s \<Longrightarrow> life_inv waits s"
  using life_inv_reaches life_inv_init by blast

section \<open>Closing\<close>

text \<open>
  What is left to do once the WebSocket is closed: the steps of \<open>Close\<close>, the messages to drain
  and the end of the reader, which can forward at most the message it holds.
\<close>

fun main_weight :: "main_pos \<Rightarrow> nat" where
  "main_weight InLoop = 5"
| "main_weight (Handling bs) = 5"
| "main_weight CloseWs = 4"
| "main_weight Drain = 3"
| "main_weight RemoveAgent = 2"
| "main_weight WaitGroupDone = 1"
| "main_weight MainStopped = 0"

fun reader_weight :: "reader_pos \<Rightarrow> nat" where
  "reader_weight Reading = 1"
| "reader_weight (Forwarding m) = 3"
| "reader_weight ReaderStopped = 0"

definition close_measure :: "life \<Rightarrow> nat" where
  "close_measure s = main_weight (lf_main s) + reader_weight (lf_reader s) + length (ch_buf (lf_from s))"

lemma close_measure_bound:
  "life_inv waits s \<Longrightarrow> lf_main s \<in> {Drain, RemoveAgent, WaitGroupDone} \<Longrightarrow> close_measure s \<le> 6 + clientBufferLength"
proof -
  assume inv: "life_inv waits s" and main: "lf_main s \<in> {Drain, RemoveAgent, WaitGroupDone}"
  have "length (ch_buf (lf_from s)) \<le> clientBufferLength" using inv by (simp add: life_inv_def chan_ok_def)
  moreover have "main_weight (lf_main s) \<le> 3" using main by auto
  moreover have "reader_weight (lf_reader s) \<le> 3" by (cases "lf_reader s") simp_all
  ultimately show ?thesis by (simp add: close_measure_def)
qed

lemma close_step_measure:
  "life_step waits s a s' \<Longrightarrow> life_inv waits s \<Longrightarrow> lf_main s \<in> {Drain, RemoveAgent, WaitGroupDone} \<Longrightarrow>
   (if a \<in> {Main, Reader} then close_measure s' < close_measure s else close_measure s' = close_measure s)"
  by (induction rule: life_step.induct) (auto simp: life_inv_def close_measure_def chan_outcomes)

text \<open>A receive, a send or a close that is possible has a result.\<close>

lemma chan_recv_cases:
  obtains v c' where "chan_recv c = (Returned (Some v), c')"
  | "ch_closed c" "chan_recv c = (Returned None, c)"
  | "\<not> ch_closed c" "ch_buf c = []"
  by (cases "ch_buf c"; cases "ch_closed c") (auto simp: chan_recv_def)

lemma Drain_progress:
  assumes "life_inv waits s" "lf_main s = Drain"
  shows "\<exists>a s'. a \<in> {Main, Reader} \<and> life_step waits s a s'"
proof (cases rule: chan_recv_cases [of "lf_from s"])
  case (1 v c')
  with assms show ?thesis by (blast intro: drain)
next
  case 2
  with assms show ?thesis by (blast intro: drained)
next
  case 3
  show ?thesis
  proof (cases "lf_reader s")
    case Reading
    with 3 have "chan_close (lf_from s) = (Returned (), lf_from s\<lparr>ch_closed := True\<rparr>)" by (simp add: chan_close_def)
    with Reading show ?thesis by (blast intro: read_error)
  next
    case (Forwarding m)
    have "chan_send m (lf_from s) = (Returned (), lf_from s\<lparr>ch_buf := ch_buf (lf_from s) @ [m]\<rparr>)"
      using 3 assms(1) by (simp add: chan_send_def life_inv_def clientBufferLength_def)
    with Forwarding show ?thesis by (blast intro: forward)
  next
    case ReaderStopped
    with 3 assms(1) show ?thesis by (simp add: life_inv_def)
  qed
qed

lemma Close_progress:
  assumes "life_inv waits s" "lf_main s \<in> {Drain, RemoveAgent, WaitGroupDone}"
    and "\<not> (waits \<and> lf_main s = RemoveAgent \<and> receiving s)"
  shows "\<exists>a s'. a \<in> {Main, Reader} \<and> life_step waits s a s'"
proof -
  consider "lf_main s = Drain" | "lf_main s = RemoveAgent" | "lf_main s = WaitGroupDone" using assms(2) by blast
  then show ?thesis
  proof cases
    case 1
    then show ?thesis using Drain_progress [OF assms(1)] by blast
  next
    case 2
    then have "life_step waits s Main (s\<lparr>lf_registered := False, lf_main := WaitGroupDone\<rparr>)"
      using assms(3) by (intro remove_agent) blast+
    then show ?thesis by blast
  next
    case 3
    then show ?thesis by (blast intro: group_done)
  qed
qed

section \<open>A receive in flight\<close>

text \<open>
  Once the main loop has left, nobody empties the queue of outgoing messages. If it is full, a call of
  \<open>Receive\<close> that has something to send waits for room in vain.
\<close>

definition leaving :: "main_pos set" where
  "leaving = {CloseWs, Drain, RemoveAgent, WaitGroupDone, MainStopped}"

definition held_up :: "bytes list \<Rightarrow> bytes \<Rightarrow> life \<Rightarrow> bool" where
  "held_up q b s \<longleftrightarrow> lf_main s \<in> leaving \<and> ch_buf (lf_to s) = q \<and> ch_cap (lf_to s) \<le> length q \<and> b \<in># lf_sending s"

lemma held_up_step: "life_step waits s a s' \<Longrightarrow> held_up q b s \<Longrightarrow> held_up q b s'"
  by (induction rule: life_step.induct) (auto simp: held_up_def leaving_def chan_outcomes)

lemma held_up_forever: "life_reaches waits s s' \<Longrightarrow> held_up q b s \<Longrightarrow> held_up q b s'"
  by (induction rule: life_reaches.induct) (auto dest: held_up_step)

text \<open>\<open>RemoveAgent\<close>, if it waits for that call, never returns, and what comes after it never happens.\<close>

definition hung :: "life \<Rightarrow> bool" where
  "hung s \<longleftrightarrow> lf_main s \<in> {CloseWs, Drain, RemoveAgent} \<and> lf_sending s \<noteq> {#} \<and>
     lf_handler s \<in> {Connecting, PoolAdd, Waiting} \<and> lf_waiter s = WaitingForDone \<and> lf_count s = 1"

lemma life_inv_hung:
  "life_inv waits s \<Longrightarrow> lf_main s \<in> {CloseWs, Drain, RemoveAgent} \<Longrightarrow> lf_sending s \<noteq> {#} \<Longrightarrow> hung s"
proof -
  assume inv: "life_inv waits s" and main: "lf_main s \<in> {CloseWs, Drain, RemoveAgent}" and "lf_sending s \<noteq> {#}"
  then have running: "lf_main s \<noteq> MainStopped" by auto
  then have "lf_handler s \<notin> {PoolRemove, Finished}" "lf_waiter s \<noteq> LoaderClosed" "lf_count s = 1"
    using inv by (auto simp: life_inv_def)
  moreover from this(1) have "lf_handler s \<in> {Connecting, PoolAdd, Waiting}" by (cases "lf_handler s") simp_all
  moreover from calculation(2) have "lf_waiter s = WaitingForDone" by (cases "lf_waiter s") simp_all
  ultimately show "hung s" using main \<open>lf_sending s \<noteq> {#}\<close> by (simp add: hung_def)
qed

lemma hung_step: "life_step True s a s' \<Longrightarrow> held_up q b s \<Longrightarrow> hung s \<Longrightarrow> hung s' \<and> (lf_pooled s \<longrightarrow> lf_pooled s')"
  by (induction rule: life_step.induct) (auto simp: hung_def held_up_def chan_outcomes)

lemma hung_forever:
  "life_reaches True s s' \<Longrightarrow> held_up q b s \<Longrightarrow> hung s \<Longrightarrow> hung s' \<and> (lf_pooled s \<longrightarrow> lf_pooled s')"
proof (induction rule: life_reaches.induct)
  case (reaches_step s s' a s'')
  from held_up_forever [OF reaches_step.hyps(1) reaches_step.prems(1)] hung_step [OF reaches_step.hyps(2)] reaches_step.IH reaches_step.prems
  show ?case by blast
qed simp

text \<open>If it does not wait, \<open>Close\<close> and the handler can go on to their ends.\<close>

lemma reaches_trans: "life_reaches w t u \<Longrightarrow> life_reaches w s t \<Longrightarrow> life_reaches w s u"
  by (induction rule: life_reaches.induct) (auto intro: reaches_step)

lemma reaches_one: "life_step w s a t \<Longrightarrow> life_reaches w s t"
  by (blast intro: life_reaches.intros)

lemma closing_step:
  "life_step waits s a s' \<Longrightarrow> lf_main s \<in> {Drain, RemoveAgent, WaitGroupDone} \<Longrightarrow>
   lf_main s' \<in> {Drain, RemoveAgent, WaitGroupDone, MainStopped}"
  by (induction rule: life_step.induct) auto

lemma closing_reaches_end:
  "life_inv False s \<Longrightarrow> lf_main s \<in> {Drain, RemoveAgent, WaitGroupDone, MainStopped} \<Longrightarrow>
   \<exists>s'. life_reaches False s s' \<and> lf_main s' = MainStopped"
proof (induction "close_measure s" arbitrary: s rule: less_induct)
  case less
  show ?case
  proof (cases "lf_main s = MainStopped")
    case True
    then show ?thesis by (blast intro: reaches_refl)
  next
    case False
    then have main: "lf_main s \<in> {Drain, RemoveAgent, WaitGroupDone}" using less.prems(2) by blast
    obtain a t where a: "a \<in> {Main, Reader}" and step: "life_step False s a t"
      using Close_progress [OF less.prems(1) main] by blast
    have "close_measure t < close_measure s" using close_step_measure [OF step less.prems(1) main] a by simp
    then obtain u where "life_reaches False t u" "lf_main u = MainStopped"
      using less.hyps life_inv_step [OF step less.prems(1)] closing_step [OF step main] by blast
    then show ?thesis using reaches_trans [OF _ reaches_one [OF step]] by blast
  qed
qed

lemma leaving_reaches_end:
  assumes "life_inv False s" "lf_main s \<in> leaving"
  shows "\<exists>s'. life_reaches False s s' \<and> lf_main s' = MainStopped"
proof (cases "lf_main s = CloseWs")
  case True
  let ?t = "s\<lparr>lf_open := False, lf_main := Drain\<rparr>"
  have step: "life_step False s Main ?t" by (rule close_ws [OF True])
  from closing_reaches_end [OF life_inv_step [OF step assms(1)]]
  obtain u where "life_reaches False ?t u" "lf_main u = MainStopped" by auto
  then show ?thesis using reaches_trans [OF _ reaches_one [OF step]] by blast
next
  case False
  then show ?thesis using assms closing_reaches_end by (simp add: leaving_def)
qed

lemma handler_reaches_end:
  assumes "life_inv waits s" "lf_main s = MainStopped"
  shows "\<exists>s'. life_reaches waits s s' \<and> lf_handler s' = Finished"
proof -
  have remove: "\<exists>s'. life_reaches waits s s' \<and> lf_handler s' = Finished"
    if "life_inv waits s" "lf_handler s = PoolRemove" for s
  proof -
    have pooled: "lf_pooled s" and "\<not> ch_closed (lf_to s)" using that by (simp_all add: life_inv_def)
    then have "chan_close (lf_to s) = (Returned (), (lf_to s)\<lparr>ch_closed := True\<rparr>)" by (simp add: chan_close_def)
    from reaches_one [OF pool_remove [OF that(2) pooled this]] show ?thesis by fastforce
  qed
  have wait: "\<exists>s'. life_reaches waits s s' \<and> lf_handler s' = Finished"
    if "life_inv waits s" "lf_main s = MainStopped" "lf_handler s = Waiting" for s
  proof -
    let ?t = "s\<lparr>lf_handler := PoolRemove\<rparr>"
    have step: "life_step waits s Handler ?t" using that by (intro wait_over) (simp_all add: life_inv_def)
    from remove [OF life_inv_step [OF step that(1)]] show ?thesis
      using reaches_trans [OF _ reaches_one [OF step]] by auto
  qed
  have add: "\<exists>s'. life_reaches waits s s' \<and> lf_handler s' = Finished"
    if "life_inv waits s" "lf_main s = MainStopped" "lf_handler s = PoolAdd" for s
  proof -
    let ?t = "s\<lparr>lf_pooled := True, lf_handler := Waiting\<rparr>"
    have step: "life_step waits s Handler ?t" by (rule pool_add [OF that(3)])
    from wait [OF life_inv_step [OF step that(1)]] that(2) show ?thesis
      using reaches_trans [OF _ reaches_one [OF step]] by auto
  qed
  show ?thesis
  proof (cases "lf_handler s")
    case Connecting
    let ?t = "s\<lparr>lf_handler := PoolAdd\<rparr>"
    have step: "life_step waits s Handler ?t" by (rule connected [OF Connecting])
    from add [OF life_inv_step [OF step assms(1)]] assms(2) show ?thesis
      using reaches_trans [OF _ reaches_one [OF step]] by auto
  next
    case PoolAdd
    with add assms show ?thesis by blast
  next
    case Waiting
    with wait assms show ?thesis by blast
  next
    case PoolRemove
    with remove assms show ?thesis by blast
  next
    case Finished
    then show ?thesis by (blast intro: reaches_refl)
  qed
qed

lemma held_up_panics:
  assumes "life_inv False s" "held_up q b s"
  shows "\<exists>s'. life_reaches False s s' \<and> Agent \<in> lf_panic s'"
proof -
  obtain t where t: "life_reaches False s t" "lf_main t = MainStopped"
    using leaving_reaches_end [OF assms(1)] assms(2) by (auto simp: held_up_def)
  obtain u where u: "life_reaches False t u" "lf_handler u = Finished"
    using handler_reaches_end [OF life_inv_reaches [OF t(1) assms(1)] t(2)] by blast
  have su: "life_reaches False s u" by (rule reaches_trans [OF u(1) t(1)])
  have "ch_closed (lf_to u)" using life_inv_reaches [OF su assms(1)] u(2) by (simp add: life_inv_def)
  then have "chan_send b (lf_to u) = (Panicked ''send on closed channel'', lf_to u)" by (simp add: chan_send_def)
  moreover have "b \<in># lf_sending u" using held_up_forever [OF su assms(2)] by (simp add: held_up_def)
  ultimately have "life_step False u Agent (u\<lparr>lf_panic := insert Agent (lf_panic u)\<rparr>)" by (intro agent_panic)
  from reaches_trans [OF reaches_one [OF this] su]
  show ?thesis by (intro exI [of _ "u\<lparr>lf_panic := insert Agent (lf_panic u)\<rparr>"]) simp
qed

text \<open>A run into such a state: the agents fill the queue, one more call finds no room, and the browser leaves.\<close>

lemma receive_run:
  assumes "lf_registered s" "\<not> ch_closed (lf_to s)" "length (ch_buf (lf_to s)) < ch_cap (lf_to s)"
  shows "life_reaches w s (s\<lparr>lf_to := (lf_to s)\<lparr>ch_buf := ch_buf (lf_to s) @ [b]\<rparr>\<rparr>)"
proof -
  let ?s1 = "s\<lparr>lf_called := Suc (lf_called s)\<rparr>"
  let ?s2 = "?s1\<lparr>lf_called := lf_called s, lf_sending := add_mset b (lf_sending s)\<rparr>"
  let ?s3 = "?s2\<lparr>lf_to := (lf_to s)\<lparr>ch_buf := ch_buf (lf_to s) @ [b]\<rparr>, lf_sending := lf_sending ?s2 - {#b#}\<rparr>"
  have 1: "life_step w s Agent ?s1" by (rule agent_call [OF assms(1)])
  have "life_step w ?s1 Agent (?s1\<lparr>lf_called := lf_called s, lf_sending := add_mset b (lf_sending ?s1)\<rparr>)"
    by (rule agent_decide) simp
  then have 2: "life_step w ?s1 Agent ?s2" by simp
  have 3: "life_step w ?s2 Agent ?s3" by (rule agent_sent) (use assms in \<open>simp_all add: chan_send_def\<close>)
  have "?s3 = s\<lparr>lf_to := (lf_to s)\<lparr>ch_buf := ch_buf (lf_to s) @ [b]\<rparr>\<rparr>" by (rule life.equality) simp_all
  with reaches_step [OF reaches_step [OF reaches_one [OF 1] 2] 3] show ?thesis by simp
qed

lemma fill:
  assumes "lf_registered s" "\<not> ch_closed (lf_to s)" "length (ch_buf (lf_to s)) + n \<le> ch_cap (lf_to s)"
  shows "life_reaches w s (s\<lparr>lf_to := (lf_to s)\<lparr>ch_buf := ch_buf (lf_to s) @ replicate n b\<rparr>\<rparr>)"
  using assms(3)
proof (induction n)
  case 0
  then show ?case by (simp add: reaches_refl)
next
  case (Suc n)
  let ?s = "s\<lparr>lf_to := (lf_to s)\<lparr>ch_buf := ch_buf (lf_to s) @ replicate n b\<rparr>\<rparr>"
  have "life_reaches w s ?s" using Suc by simp
  moreover have "life_reaches w ?s (?s\<lparr>lf_to := (lf_to ?s)\<lparr>ch_buf := ch_buf (lf_to ?s) @ [b]\<rparr>\<rparr>)"
    using assms Suc.prems by (intro receive_run) simp_all
  ultimately show ?case using reaches_trans by (fastforce simp: replicate_append_same)
qed

definition subscribed_life :: life where
  "subscribed_life = life_init\<lparr>lf_registered := True\<rparr>"

definition crowded_life :: life where
  "crowded_life = subscribed_life\<lparr>lf_to := (lf_to life_init)\<lparr>ch_buf := replicate clientBufferLength ''{}''\<rparr>,
     lf_sending := {#''{}''#}\<rparr>"

definition leaving_life :: life where
  "leaving_life = crowded_life\<lparr>lf_from := (lf_from life_init)\<lparr>ch_closed := True\<rparr>, lf_reader := ReaderStopped,
     lf_open := False, lf_main := RemoveAgent\<rparr>"

definition demo_update :: UpdateSubscriptionMessage where
  "demo_update = \<lparr>us_Method = ''updateSubscription'', us_MapID = '''', us_Add = [''m:0|0''], us_Remove = []\<rparr>"

lemma demo_update_read:
  "MessageFromBytes (render (UpdateSubscriptionMessage_json demo_update)) = (UpdateSubscriptionMsg demo_update, None)"
proof (rule MessageFromBytes_roundtrip_lib)
  show "valid_update demo_update" by code_simp
qed

lemma reach_subscribed: "reachable w subscribed_life"
proof -
  let ?m = "UpdateSubscriptionMsg demo_update"
  let ?a = "life_init\<lparr>lf_reader := Forwarding ?m\<rparr>"
  let ?b = "?a\<lparr>lf_from := (lf_from life_init)\<lparr>ch_buf := [?m]\<rparr>, lf_reader := Reading\<rparr>"
  let ?c = "?b\<lparr>lf_from := (lf_from ?b)\<lparr>ch_buf := []\<rparr>, lf_main := Handling [], lf_registered := True\<rparr>"
  have s1: "life_step w life_init Reader ?a"
    by (rule read_message [OF _ _ demo_update_read]) (simp_all add: life_init_def)
  have s2: "life_step w ?a Reader ?b"
    by (rule forward) (simp_all add: life_init_def chan_send_def make_chan_def clientBufferLength_def)
  have s3: "life_step w ?b Main ?c"
    by (rule message_in) (simp_all add: life_init_def chan_recv_def)
  have s4: "life_step w ?c Main (?c\<lparr>lf_main := InLoop\<rparr>)"
    by (rule handled) simp
  have eq: "?c\<lparr>lf_main := InLoop\<rparr> = subscribed_life"
    by (simp add: subscribed_life_def life_init_def make_chan_def)
  show ?thesis using reaches_step [OF reaches_step [OF reaches_step [OF reaches_one [OF s1] s2] s3] s4] unfolding eq .
qed

lemma reach_crowded: "reachable w crowded_life"
proof -
  let ?f = "subscribed_life\<lparr>lf_to := (lf_to subscribed_life)\<lparr>ch_buf := ch_buf (lf_to subscribed_life) @ replicate clientBufferLength ''{}''\<rparr>\<rparr>"
  let ?g = "?f\<lparr>lf_called := Suc (lf_called ?f)\<rparr>"
  let ?h = "?g\<lparr>lf_called := 0, lf_sending := add_mset ''{}'' (lf_sending ?g)\<rparr>"
  have f: "life_reaches w subscribed_life ?f"
    by (rule fill) (simp_all add: subscribed_life_def life_init_def make_chan_def)
  have g: "life_step w ?f Agent ?g" by (rule agent_call) (simp add: subscribed_life_def)
  have h: "life_step w ?g Agent ?h" by (rule agent_decide) (simp add: subscribed_life_def life_init_def)
  have eq: "?h = crowded_life"
    by (simp add: crowded_life_def subscribed_life_def life_init_def make_chan_def)
  show ?thesis using reaches_step [OF reaches_step [OF reaches_trans [OF f reach_subscribed] g] h] unfolding eq .
qed

lemma crowded_leaving: "life_reaches w crowded_life leaving_life"
proof -
  let ?a = "crowded_life\<lparr>lf_from := (lf_from life_init)\<lparr>ch_closed := True\<rparr>, lf_reader := ReaderStopped\<rparr>"
  let ?b = "?a\<lparr>lf_from := lf_from ?a, lf_main := CloseWs\<rparr>"
  let ?c = "?b\<lparr>lf_open := False, lf_main := Drain\<rparr>"
  let ?d = "?c\<lparr>lf_from := lf_from ?c, lf_main := RemoveAgent\<rparr>"
  have s1: "life_step w crowded_life Reader ?a"
    by (rule read_error) (simp_all add: crowded_life_def subscribed_life_def life_init_def chan_close_def make_chan_def)
  have s2: "life_step w ?a Main ?b"
    by (rule in_closed) (simp_all add: crowded_life_def subscribed_life_def life_init_def chan_recv_def make_chan_def)
  have s3: "life_step w ?b Main ?c"
    by (rule close_ws) simp
  have s4: "life_step w ?c Main ?d"
    by (rule drained) (simp_all add: life_init_def chan_recv_def make_chan_def)
  have eq: "?d = leaving_life"
    by (rule life.equality) (simp_all add: leaving_life_def)
  show ?thesis using reaches_step [OF reaches_step [OF reaches_step [OF reaches_one [OF s1] s2] s3] s4] unfolding eq .
qed

lemma reach_leaving: "reachable w leaving_life"
  using reaches_trans [OF crowded_leaving reach_crowded] .

section \<open>Properties\<close>

text \<open>
  C8: in every interleaving of the goroutines of a connection, whether or not \<open>RemoveAgent\<close> waits for a
  running \<open>Receive\<close>: the main loop, the reader, the handler and the pool never send on a closed channel
  or close one twice. An agent does so only if \<open>RemoveAgent\<close> does not wait, in a \<open>Receive\<close> that is still
  running when the handler has closed the queue, and a goroutine of the application only in a
  \<open>WriteToWebSocket\<close> that is running then. Only valid messages are ever queued for the main loop, the
  buffers keep their bounds, the queue of outgoing messages is closed exactly when the handler is
  finished, the main loop has stopped and the agents and the pool have forgotten the client by then, and
  the loader is closed only after the main loop has stopped.
\<close>

theorem connection_safe:
  assumes "reachable waits s"
  shows "lf_panic s \<subseteq> {Agent, App} \<and>
    (Agent \<in> lf_panic s \<longrightarrow> \<not> waits \<and> lf_sending s \<noteq> {#} \<and> lf_handler s = Finished) \<and>
    (App \<in> lf_panic s \<longrightarrow> lf_writing s \<noteq> {#} \<and> lf_handler s = Finished) \<and>
    list_all accepted (ch_buf (lf_from s)) \<and>
    length (ch_buf (lf_from s)) \<le> clientBufferLength \<and> length (ch_buf (lf_to s)) \<le> clientBufferLength \<and>
    (ch_closed (lf_to s) \<longleftrightarrow> lf_handler s = Finished) \<and>
    (lf_handler s = Finished \<longrightarrow> lf_main s = MainStopped \<and> \<not> lf_registered s \<and> \<not> lf_pooled s \<and> (waits \<longrightarrow> \<not> receiving s)) \<and>
    (lf_waiter s = LoaderClosed \<longrightarrow> lf_main s = MainStopped)"
  using life_inv_reachable [OF assms] by (auto simp: life_inv_def chan_ok_def)

lemma connection_safe_witness:
  "lf_panic crowded_life \<subseteq> {Agent, App} \<and> length (ch_buf (lf_to crowded_life)) = clientBufferLength \<and>
   lf_sending crowded_life = {#''{}''#}"
  using connection_safe [OF reach_crowded [of False]] by (simp add: crowded_life_def)

text \<open>
  C11: once \<open>Close\<close> has closed the WebSocket, it is over after at most 70 more steps of the main
  goroutine and the reader: every such step lowers the measure, no other goroutine raises it, and
  one of them can move unless \<open>RemoveAgent\<close> is waiting for a running \<open>Receive\<close>.
\<close>

theorem close_terminates:
  assumes "reachable waits s" "lf_main s \<in> {Drain, RemoveAgent, WaitGroupDone}"
  shows "close_measure s \<le> 70 \<and>
    (\<forall>a s'. life_step waits s a s' \<longrightarrow>
       (if a \<in> {Main, Reader} then close_measure s' < close_measure s else close_measure s' = close_measure s)) \<and>
    ((waits \<and> lf_main s = RemoveAgent \<and> receiving s) \<or> (\<exists>a s'. a \<in> {Main, Reader} \<and> life_step waits s a s'))"
proof (intro conjI allI impI)
  note inv = life_inv_reachable [OF assms(1)]
  show "close_measure s \<le> 70" using close_measure_bound [OF inv assms(2)] by (simp add: clientBufferLength_def)
  show "if a \<in> {Main, Reader} then close_measure s' < close_measure s else close_measure s' = close_measure s"
    if "life_step waits s a s'" for a s'
    by (rule close_step_measure [OF that inv assms(2)])
  show "(waits \<and> lf_main s = RemoveAgent \<and> receiving s) \<or> (\<exists>a s'. a \<in> {Main, Reader} \<and> life_step waits s a s')"
    using Close_progress [OF inv assms(2)] by blast
qed

lemma close_terminates_witness: "close_measure leaving_life \<le> 70"
  using close_terminates [OF reach_leaving [of True]] by (simp add: leaving_life_def)

text \<open>
  C36: a \<open>Receive\<close> that finds the buffer full when the main loop has left is never served: it is still
  running, and the queue still full, in whatever follows. If \<open>RemoveAgent\<close> waits for it, \<open>Close\<close> never
  returns, the handler never finishes, a client in the pool stays there and its loader is never closed; if it does not
  wait, some continuation closes the queue under the blocked send, which panics.
\<close>

theorem full_buffer_at_close:
  assumes "reachable waits s" "lf_main s \<in> {CloseWs, Drain, RemoveAgent}"
    and "length (ch_buf (lf_to s)) = clientBufferLength" "b \<in># lf_sending s"
  shows "(\<forall>s'. life_reaches waits s s' \<longrightarrow> b \<in># lf_sending s' \<and> ch_buf (lf_to s') = ch_buf (lf_to s)) \<and>
    (if waits then \<forall>s'. life_reaches waits s s' \<longrightarrow> lf_main s' \<in> {CloseWs, Drain, RemoveAgent} \<and>
        lf_handler s' \<notin> {PoolRemove, Finished} \<and> (lf_pooled s \<longrightarrow> lf_pooled s') \<and> lf_waiter s' = WaitingForDone
     else \<exists>s'. life_reaches waits s s' \<and> Agent \<in> lf_panic s')"
proof -
  have inv: "life_inv waits s" by (rule life_inv_reachable [OF assms(1)])
  then have cap: "ch_cap (lf_to s) = clientBufferLength" by (simp add: life_inv_def)
  have held: "held_up (ch_buf (lf_to s)) b s"
    using assms(2-4) cap by (auto simp: held_up_def leaving_def)
  have served: "b \<in># lf_sending s' \<and> ch_buf (lf_to s') = ch_buf (lf_to s)" if "life_reaches waits s s'" for s'
    using held_up_forever [OF that held] by (simp add: held_up_def)
  have hung: "hung s" by (rule life_inv_hung [OF inv assms(2)]) (use assms(4) in auto)
  show ?thesis
  proof (cases waits)
    case True
    then have "waits = True" by simp
    note hung_at = hung_forever [folded this, OF _ held hung]
    have "lf_main s' \<in> {CloseWs, Drain, RemoveAgent} \<and> lf_handler s' \<notin> {PoolRemove, Finished} \<and>
        (lf_pooled s \<longrightarrow> lf_pooled s') \<and> lf_waiter s' = WaitingForDone" if "life_reaches waits s s'" for s'
      using hung_at [OF that] by (simp add: hung_def) force
    with served show ?thesis unfolding if_P [OF True] by blast
  next
    case False
    then have "waits = False" by simp
    note panics = held_up_panics [folded this, OF inv held]
    from served panics show ?thesis unfolding if_not_P [OF False] by blast
  qed
qed

lemma full_buffer_at_close_witness:
  "(\<nexists>s. life_reaches True leaving_life s \<and> lf_handler s = Finished) \<and>
   (\<exists>s. life_reaches False leaving_life s \<and> Agent \<in> lf_panic s)"
proof -
  have at: "lf_main leaving_life \<in> {CloseWs, Drain, RemoveAgent}" "length (ch_buf (lf_to leaving_life)) = clientBufferLength"
    "''{}'' \<in># lf_sending leaving_life"
    by (simp_all add: leaving_life_def crowded_life_def)
  from full_buffer_at_close [OF reach_leaving [of True] at] full_buffer_at_close [OF reach_leaving [of False] at]
  show ?thesis by auto
qed

end
