(* ===== verification/Examples.thy ===== *)
theory Examples
  imports Mongo_Lemmas
begin

text \<open>
  Concrete states on which the witnesses run the library: test objects, a collection and a Redis
  server in memory.
\<close>

definition demo_human :: human where
  "demo_human = new_human\<lparr>hTag := \<lparr>TagID = ''a!'', TagSub = ''m:0|0'', TagType = ''c:h'', V = 0\<rparr>, hMapID := ''m''\<rparr>"

definition demo_rand :: rand where
  "demo_rand = \<lparr>draws = (\<lambda>i. i), drawn = 0\<rparr>"

text \<open>An object that was stored in chunk 0|0 and has been moved to chunk 1|0.\<close>

definition demo_move :: "(entity, (string \<times> entity) list, mem_db) mstate" where
  "demo_move = \<lparr>ms_obj = EHuman (Human_SetCX 1 demo_human), ms_rand = demo_rand,
     ms_mongo = [(''a!'', EHuman demo_human)], ms_redis = mem_empty\<rparr>"

text \<open>A new object, and an empty collection.\<close>

definition demo_new :: "(entity, (string \<times> entity) list, mem_db) mstate" where
  "demo_new = \<lparr>ms_obj = EHuman (Human_SetMapID ''m'' new_human), ms_rand = demo_rand, ms_mongo = [], ms_redis = mem_empty\<rparr>"

lemma demo_calls:
  "fst (MongoSynk_Create entity_ops mem_mongo mem_redis demo_new) = Ret None"
  "fst (MongoSynk_Modify entity_ops mem_mongo mem_redis demo_move) = Ret None"
  "fst (MongoSynk_Delete entity_ops mem_mongo mem_redis demo_move) = Ret None"
  by code_simp+

lemma demo_move_keys:
  "obj_GetSubKey entity_ops (ms_obj demo_move) = ''m:1|0''"
  "obj_GetPrevSubKey entity_ops (ms_obj demo_move) = ''m:0|0''"
  "obj_TagGetID entity_ops (ms_obj demo_move) = ''a!''"
  "sub_agrees entity_ops entity_tag (ms_obj demo_move)"
  unfolding sub_agrees_def by code_simp+

lemma demo_coll_ok:
  "coll_ok entity_ops entity_tag (map_of (ms_mongo demo_move))"
proof -
  have "sub_agrees entity_ops entity_tag (EHuman demo_human)" "TagID (entity_tag (EHuman demo_human)) = ''a!''"
    unfolding sub_agrees_def by code_simp+
  then show ?thesis by (simp add: coll_ok_def demo_move_def)
qed

text \<open>A call that returned, from the first component of its result.\<close>

lemma fst_Ret: "fst c = Ret v \<Longrightarrow> c = (Ret v, snd c)"
  by (cases c) simp

lemmas demo_Create = demo_calls(1) [THEN fst_Ret]
lemmas demo_Modify = demo_calls(2) [THEN fst_Ret]
lemmas demo_Delete = demo_calls(3) [THEN fst_Ret]

end
