(* ===== verification/Client_Props.thy ===== *)
theory Client_Props
  imports Client_Lemmas Examples
begin

text \<open>
  The properties of a client: what reaches the browser, for every set of subscriptions, when objects
  are created, modified, moved and deleted, and what a subscription request does.
\<close>

text \<open>
  C7: when an object is modified, a client that knows it (it is subscribed to the key the object was
  known under) gets exactly the diff message, also when the object leaves for another key, whether or
  not the client is subscribed to that one too; a client that is subscribed only to the new key gets
  exactly the full state, without the header; any other client gets nothing. Provided the old key
  contains no brace and the client's buffer has room.
\<close>

theorem move_delivery:
  assumes "synk_object ops tag_of" "redis_behaves rd db" "mongo_behaves ops tag_of mk stored mg docs"
    and "MongoSynk_Modify ops mg rd s = (Ret v, s')"
  defines "x \<equiv> ms_obj s"
  assumes "CHR ''{'' \<notin> set (obj_GetPrevSubKey ops x)" "room 2 to"
  shows "\<exists>m a. marshal (modMsg_json ops (mod_msg_of ops x)) = Inr m \<and>
    marshal (addMsg_json ops (add_msg_of ops (ms_obj s') (obj_GetPrevSubKey ops x) (obj_TypeKey ops x))) = Inr a \<and>
    deliver_all subs (published_since (db (ms_redis s)) (db (ms_redis s'))) to =
      to\<lparr>ch_buf := ch_buf to @
        (if subs (obj_GetPrevSubKey ops x) \<noteq> None then [m]
         else if subs (obj_GetSubKey ops x) \<noteq> None then [a] else [])\<rparr>"
proof -
  have x': "ms_obj s' = modified_obj ops x" using Modify_Ret [OF assms(2-4)] by (simp add: x_def)
  show ?thesis
    using synk_object.Modify_delivered [OF assms(1-4) assms(6) [unfolded x_def] assms(7), of subs]
    unfolding x' modify_delivery_def queued_def x_def [symmetric] .
qed

lemma move_delivery_witness:
  "\<exists>a. ch_buf (deliver_all [''m:1|0'' \<mapsto> True] (published_since (mem_view (ms_redis demo_move))
      (mem_view (ms_redis (snd (MongoSynk_Modify entity_ops mem_mongo mem_redis demo_move))))) (make_chan 64)) = [a]"
proof -
  have "CHR ''{'' \<notin> set ''m:0|0''" "room 2 (make_chan 64 :: bytes chan)"
    by (simp_all add: room_def make_chan_def)
  from move_delivery [OF entity.synk_object_axioms mem_redis_behaves mem_mongo_behaves demo_Modify,
      unfolded demo_move_keys, OF this, where subs = "[''m:1|0'' \<mapsto> True]"]
  show ?thesis by (auto simp: make_chan_def)
qed

text \<open>
  C38: When an object is created, exactly the clients subscribed to its key get its add message; when
  it is deleted, exactly the clients subscribed to the key it is known under get its remove message.
\<close>

theorem create_delete_delivery:
  assumes "synk_object ops tag_of" "redis_behaves rd db" "mongo_behaves ops tag_of mk stored mg docs" "room 1 to"
  shows "(MongoSynk_Create ops mg rd s = (Ret v, s') \<longrightarrow>
      (\<exists>b. marshal (addMsg_json ops (add_msg_of ops (ms_obj s') '''' (obj_TypeKey ops (ms_obj s)))) = Inr b \<and>
         deliver_all subs (published_since (db (ms_redis s)) (db (ms_redis s'))) to =
           to\<lparr>ch_buf := ch_buf to @ (if subs (obj_GetSubKey ops (ms_obj s')) \<noteq> None then [b] else [])\<rparr>)) \<and>
    (MongoSynk_Delete ops mg rd s = (Ret v, s') \<longrightarrow>
      (\<exists>b. marshal (remMsg_json (rem_msg_of ops (ms_obj s))) = Inr b \<and>
         deliver_all subs (published_since (db (ms_redis s)) (db (ms_redis s'))) to =
           to\<lparr>ch_buf := ch_buf to @ (if subs (obj_GetPrevSubKey ops (ms_obj s)) \<noteq> None then [b] else [])\<rparr>))"
  using synk_object.Create_delivered [OF assms(1-3) _ assms(4)] synk_object.Delete_delivered [OF assms(1-3) _ assms(4)]
  unfolding queued_def by blast

lemma create_delete_delivery_witness:
  "\<exists>b. ch_buf (deliver_all [''m:0|0'' \<mapsto> True] (published_since (mem_view (ms_redis demo_move))
      (mem_view (ms_redis (snd (MongoSynk_Delete entity_ops mem_mongo mem_redis demo_move))))) (make_chan 64)) = [b]"
proof -
  have "room 1 (make_chan 64 :: bytes chan)" by (simp add: room_def make_chan_def)
  from create_delete_delivery [OF entity.synk_object_axioms mem_redis_behaves mem_mongo_behaves this,
      where subs = "[''m:0|0'' \<mapsto> True]", THEN conjunct2, rule_format, OF demo_Delete, unfolded demo_move_keys]
  show ?thesis by (auto simp: make_chan_def)
qed

text \<open>
  A message from Redis that starts with a brace is forwarded as it is. Behind a \<open>from\<close> header
  whose key has no brace, the JSON part is forwarded exactly when the client is not subscribed to
  that key; behind any other header it is always forwarded; a message without a brace is dropped.
\<close>

theorem Receive_header:
  assumes "CHR ''{'' \<notin> set h" "room 1 to"
  shows "Receive subs key (CHR ''{'' # b) to = (Returned None, queued [CHR ''{'' # b] to) \<and>
    Receive subs key (''from '' @ h @ CHR ''{'' # b) to =
      (Returned None, if subs h = None then queued [CHR ''{'' # b] to else to) \<and>
    (h \<noteq> '''' \<longrightarrow> \<not> has_prefix h ''from '' \<longrightarrow>
      Receive subs key (h @ CHR ''{'' # b) to = (Returned None, queued [CHR ''{'' # b] to)) \<and>
    Receive subs key h to = (Returned None, to)"
  using put_out_room [of 0 to] assms
  by (simp add: Receive_plain Receive_from [OF assms(1), simplified] Receive_other [OF assms(1)] Receive_no_json)

lemma Receive_header_witness:
  "Receive [''m:0|0'' \<mapsto> True] ''m:1|0'' ''from m:0|0{}'' (make_chan 1) = (Returned None, make_chan 1)"
proof -
  have "CHR ''{'' \<notin> set ''m:0|0''" "room 1 (make_chan 1 :: bytes chan)" by (simp_all add: room_def make_chan_def)
  from Receive_header [OF this, of "[''m:0|0'' \<mapsto> True]" "''m:1|0''" "''}''"] show ?thesis by simp
qed

text \<open>
  A subscription key with a brace breaks the header. When an object moves out of such a key, a
  client that is subscribed to both the old and the new key, which must not get the add message,
  gets a message, and it starts in the middle of the key: it is not the JSON document that was
  published.
\<close>

theorem brace_in_key_misroutes:
  assumes "CHR ''{'' \<notin> set h" "subs h = None" "room 1 to" "subs (h @ CHR ''{'' # t) \<noteq> None"
  shows "Receive subs key (''from '' @ (h @ CHR ''{'' # t) @ b) to =
    (Returned None, queued [CHR ''{'' # t @ b] to)"
  using put_out_room [of 0 to] assms Receive_from [OF assms(1), of subs key "t @ b" to] by simp

lemma brace_in_key_misroutes_witness:
  "Receive [''a{1'' \<mapsto> True, ''b'' \<mapsto> True] ''b'' ''from a{1{}'' (make_chan 1) =
     (Returned None, queued [''{1{}''] (make_chan 1)) \<and> json_parse ''{1{}'' = None"
proof -
  have "CHR ''{'' \<notin> set ''a''" "[''a{1'' \<mapsto> True, ''b'' \<mapsto> True] ''a'' = None"
      "room 1 (make_chan 1 :: bytes chan)" "[''a{1'' \<mapsto> True, ''b'' \<mapsto> True] (''a'' @ CHR ''{'' # ''1'') \<noteq> None"
    by (simp_all add: room_def make_chan_def)
  from brace_in_key_misroutes [OF this, of "''b''" "''{}''"] have
    "Receive [''a{1'' \<mapsto> True, ''b'' \<mapsto> True] ''b'' ''from a{1{}'' (make_chan 1) = (Returned None, queued [''{1{}''] (make_chan 1))"
    unfolding append_Cons append_Nil .
  moreover have "json_parse ''{1{}'' = None" by code_simp
  ultimately show ?thesis by blast
qed

text \<open>
  C21: handling a subscription request that returns reports no error, has replaced the client's
  subscriptions (the removed keys are gone, the added ones, which win, are in), has told the agents once,
  and has written to the browser the add messages of exactly the stored objects filed under the added
  keys, each once. If keys were added, the application's \<open>OnSubscribe\<close> has then run with these keys and
  objects; a request that adds none writes nothing and runs no handler.
\<close>

theorem subscription_request:
  assumes "mongo_behaves (env_ops env) tag_of (cl_Creator c) stored (env_mongo env) docs"
    and "creator_ok (env_ops env) (cl_Creator c)"
    and "\<forall>i x. docs (cl_coll c) i = Some x \<longrightarrow> TagType (tag_of x) = obj_TypeKey (env_ops env) x"
    and "handleMessage env (UpdateSubscriptionMsg msg) c = (Returned e, c')"
  defines "stored_at \<equiv> \<lambda>i. the (docs (cl_coll c) i)"
  shows "e = None \<and>
    subscriptions c' = (\<lambda>k. if k \<in> set (us_Add msg) then Some True else if k \<in> set (us_Remove msg) then None else subscriptions c k) \<and>
    cl_agents c' = ag_Update (env_agents env) (cl_id c) (us_Add msg) (us_Remove msg) (cl_agents c) \<and>
    (\<exists>ids. distinct ids \<and>
      set ids = {i \<in> ids_with_sub tag_of (docs (cl_coll c)) (us_Add msg). cl_Creator c (TagType (tag_of (stored_at i))) \<noteq> None} \<and>
      cl_ws c' = fold (\<lambda>b w. snd (ws_WriteText (env_ws env) b w)) (map (loaded_bytes (env_ops env) \<circ> stored_at) ids) (cl_ws c) \<and>
      (if us_Add msg = [] then toWebSocket c' = toWebSocket c \<and> cl_custom c' = cl_custom c
       else \<exists>cu d. cl_custom c = Some cu \<and> toWebSocket d = toWebSocket c \<and>
         run_script (env_redis env) (cu_OnSubscribe (env_custom env) (cl_id c) (us_Add msg) (map stored_at ids) cu) d = (Returned (), c')))"
proof -
  obtain e' where call: "updateSubscription env msg c = (Returned e', c')" and e: "e = None"
    using assms(4) by (auto simp: handleMessage_def split: prod.splits run.splits)
  show ?thesis
    using updateSubscription_effect [OF call] updateSubscription_whole [OF assms(1-3) call] e
    unfolding new_subscriptions_def send_loaded_fold map_map stored_at_def by blast
qed

text \<open>A connection that logs what is written, agents that keep a list of keys, and handlers that do nothing.\<close>

definition demo_env :: "(entity, entity_diff, (string \<times> entity) list, entity, mem_db, bytes list, string list, unit) client_env" where
  "demo_env = \<lparr>env_ops = entity_ops, env_mongo = mem_mongo, env_redis = mem_redis,
     env_ws = \<lparr>ws_WriteText = (\<lambda>b w. (None, w @ [b])), ws_WritePing = (\<lambda>w. (None, w)),
       ws_Read = (\<lambda>w. (Inl CloseGoingAway, w)), ws_Close = (\<lambda>w. w)\<rparr>,
     env_agents = \<lparr>ag_Update = (\<lambda>_ add rem a. add @ filter (\<lambda>k. k \<notin> set rem) a), ag_RemoveAgent = (\<lambda>_ a. [])\<rparr>,
     env_custom = \<lparr>cu_OnConnect = (\<lambda>_ _. Finish ()), cu_OnMessage = (\<lambda>_ _ _ _. Finish ()),
       cu_OnSubscribe = (\<lambda>_ _ _ _. Finish ())\<rparr>\<rparr>"

definition demo_client :: "(entity, (string \<times> entity) list, mem_db, bytes list, string list, unit) client" where
  "demo_client = (fst (make_client creator (ms_mongo demo_move) mem_empty [] [] demo_rand))\<lparr>cl_custom := Some ()\<rparr>"

lemma demo_client_fields:
  "cl_Creator demo_client = creator" "cl_coll demo_client = ms_mongo demo_move" "cl_custom demo_client = Some ()"
  "cl_ws demo_client = []" "subscriptions demo_client = Map.empty" "cl_agents demo_client = []"
  by (simp_all add: demo_client_def make_client_def case_prod_unfold Let_def)

lemma demo_subscribe:
  "updateSubscription demo_env sample_update demo_client =
     (Returned None, snd (updateSubscription demo_env sample_update demo_client))"
proof -
  have "fst (updateSubscription demo_env sample_update demo_client) = Returned None"
    by (simp add: updateSubscription_def Let_def demo_client_fields demo_env_def MongoSynk_Load_def mem_mongo_def
        epanic_def sample_update_def del: creator.simps)
  then show ?thesis by (cases "updateSubscription demo_env sample_update demo_client") simp
qed

lemma demo_handled:
  "handleMessage demo_env (UpdateSubscriptionMsg sample_update) demo_client =
     (Returned None, snd (updateSubscription demo_env sample_update demo_client))"
proof -
  obtain c' where "updateSubscription demo_env sample_update demo_client = (Returned None, c')"
    using demo_subscribe by blast
  then show ?thesis by (simp add: handleMessage_def)
qed

lemma subscription_request_witness:
  "cl_ws (snd (updateSubscription demo_env sample_update demo_client)) = [loaded_bytes entity_ops (EHuman demo_human)]"
proof -
  have typed: "\<forall>i x. map_of (cl_coll demo_client) i = Some x \<longrightarrow> TagType (entity_tag x) = obj_TypeKey (env_ops demo_env) x"
  proof -
    have "TagType (entity_tag (EHuman demo_human)) = obj_TypeKey entity_ops (EHuman demo_human)" by code_simp
    then show ?thesis by (simp add: demo_move_def demo_env_def demo_client_fields)
  qed
  have mongo: "mongo_behaves (env_ops demo_env) entity_tag (cl_Creator demo_client) entity_stored (env_mongo demo_env) map_of"
    using mem_mongo_behaves by (simp add: demo_env_def demo_client_fields)
  have creator: "creator_ok (env_ops demo_env) (cl_Creator demo_client)"
    using entity_creator_ok by (simp add: demo_env_def demo_client_fields)
  obtain ids where ids: "distinct ids"
    "set ids = {i \<in> ids_with_sub entity_tag (map_of (cl_coll demo_client)) (us_Add sample_update).
        cl_Creator demo_client (TagType (entity_tag (the (map_of (cl_coll demo_client) i)))) \<noteq> None}"
    "cl_ws (snd (updateSubscription demo_env sample_update demo_client)) =
       fold (\<lambda>b w. snd (ws_WriteText (env_ws demo_env) b w))
        (map (loaded_bytes (env_ops demo_env) \<circ> (\<lambda>i. the (map_of (cl_coll demo_client) i))) ids) (cl_ws demo_client)"
    using subscription_request [OF mongo creator typed demo_handled] by blast
  have "ids_with_sub entity_tag (map_of (ms_mongo demo_move)) [''m:0|0''] = {''a!''}"
    by (auto simp: ids_with_sub_def demo_move_def demo_human_def)
  with ids(2) have "set ids = {''a!''}"
    by (simp add: demo_client_fields sample_update_def demo_move_def demo_human_def)
  with ids(1) have "ids = [''a!'']" by (cases ids; cases "tl ids") auto
  with ids(3) show ?thesis by (simp add: demo_client_fields demo_env_def demo_move_def)
qed

text \<open>
  The client's own subscriptions, which \<open>Receive\<close> consults, and the agents' view of it stay
  equal through every request that does not add and remove the same key, if the agents' update adds
  and removes those keys.
\<close>

theorem subscriptions_match_agents:
  assumes "\<And>i add rem a. set add \<inter> set rem = {} \<Longrightarrow>
      subs_of (ag_Update (env_agents env) i add rem a) i = (subs_of a i \<union> set add) - set rem"
    and "set (us_Add msg) \<inter> set (us_Remove msg) = {}"
    and "dom (subscriptions c) = subs_of (cl_agents c) (cl_id c)"
    and "updateSubscription env msg c = (res, c')"
  shows "dom (subscriptions c') = subs_of (cl_agents c') (cl_id c)"
proof -
  have "dom (new_subscriptions msg (subscriptions c)) = (dom (subscriptions c) \<union> set (us_Add msg)) - set (us_Remove msg)"
    using assms(2) by (auto simp: new_subscriptions_def dom_def split: if_splits)
  with updateSubscription_effect [OF assms(4)] assms(1) [OF assms(2)] assms(3) show ?thesis by simp
qed

lemma subscriptions_match_agents_witness:
  "dom (subscriptions (snd (updateSubscription demo_env sample_update demo_client))) =
     set (cl_agents (snd (updateSubscription demo_env sample_update demo_client)))"
proof -
  have agents: "set (ag_Update (env_agents demo_env) i add rem a) = (set a \<union> set add) - set rem"
    if "set add \<inter> set rem = {}" for i :: ID and add rem a
    using that by (auto simp: demo_env_def)
  show ?thesis
    by (rule subscriptions_match_agents [where subs_of = "\<lambda>a i. set a", OF agents _ _ demo_subscribe])
      (simp_all add: demo_client_fields sample_update_def)
qed

text \<open>
  The goroutines of a client start before its custom client is assigned. A subscription request
  that is handled before then, and that adds keys, panics with a nil dereference when the objects were
  loaded; nothing on that path checks for nil, as the handling of custom messages does.
\<close>

theorem early_subscription_panics:
  assumes "cl_custom c = None" "us_Add msg \<noteq> []"
    and "MongoSynk_Load (cl_Creator c) (env_mongo env) (us_Add msg) (cl_coll c) = (Ret (objs, None), m)"
  shows "fst (handleMessage env (UpdateSubscriptionMsg msg) c) = Panicked nil_call \<and>
    fst (handleMessage env (CustomMsg k) c) = Returned (Some ''Client.handleMessages does not handle synk.CustomMessage'')"
  using updateSubscription_no_custom [OF assms] assms(1)
  by (cases "updateSubscription env msg c") (simp add: handleMessage_def)

lemma early_subscription_panics_witness:
  "fst (handleMessage demo_env (UpdateSubscriptionMsg sample_update) (demo_client\<lparr>cl_custom := None\<rparr>)) = Panicked nil_call"
proof -
  let ?c = "demo_client\<lparr>cl_custom := None\<rparr>"
  obtain objs m where "MongoSynk_Load (cl_Creator ?c) (env_mongo demo_env) (us_Add sample_update) (cl_coll ?c) = (Ret (objs, None), m)"
    by (simp add: demo_client_fields demo_env_def MongoSynk_Load_def mem_mongo_def epanic_def del: creator.simps)
  from early_subscription_panics [OF _ _ this] show ?thesis by (simp add: sample_update_def)
qed

text \<open>
  \<open>WriteToWebSocket\<close> is documented as safe for concurrent calls, but a custom message handler
  that calls it while the buffer of outgoing messages is full blocks for ever: it runs on the main
  loop, which is the only reader of that buffer.
\<close>

theorem handler_write_deadlock:
  assumes "ch_buf (fromWebSocket c) = CustomMsg msg # rest" "cl_custom c = Some cu"
    and "cu_OnMessage (env_custom env) (cl_id c) (cm_Method msg) (cm_Data msg) cu = WriteWS d k"
    and "\<not> ch_closed (toWebSocket c)" "length (ch_buf (toWebSocket c)) = ch_cap (toWebSocket c)"
  shows "fst (main_iteration env MessageIn c) = Blocked"
  by (rule handler_write_blocks [OF assms])

lemma handler_write_deadlock_witness:
  "fst (main_iteration (demo_env\<lparr>env_custom := (env_custom demo_env)\<lparr>cu_OnMessage := \<lambda>_ _ d cu. WriteWS d (Finish cu)\<rparr>\<rparr>)
     MessageIn (demo_client\<lparr>fromWebSocket := (make_chan 64)\<lparr>ch_buf := [CustomMsg \<lparr>cm_Method = ''echo'', cm_Data = ''{}''\<rparr>]\<rparr>,
       toWebSocket := (make_chan 64)\<lparr>ch_buf := replicate 64 ''{}''\<rparr>\<rparr>)) = Blocked"
  by (rule handler_write_deadlock [where msg = "\<lparr>cm_Method = ''echo'', cm_Data = ''{}''\<rparr>" and rest = "[]" and cu = "()"
        and d = "''{}''" and k = "Finish ()"]) (simp_all add: demo_client_fields make_chan_def)

end
