(* ===== verification/Client_Close.thy ===== *)
theory Client_Close
  imports Client_Props
begin

text \<open>
  The end of a client: what the reading goroutine leaves behind when a read fails, and what \<open>Close\<close>
  and the main loop, which defers it, release, on the ways out that return and on those that panic.
\<close>

section \<open>The reading goroutine\<close>

text \<open>The connection delivers these frames and then fails.\<close>

fun delivers :: "'w websocket \<Rightarrow> bytes list \<Rightarrow> 'w \<Rightarrow> 'w \<Rightarrow> bool" where
  "delivers ws [] w w' \<longleftrightarrow> (case ws_Read ws w of (Inl e, w1) \<Rightarrow> w1 = w' | (Inr b, w1) \<Rightarrow> False)"
| "delivers ws (b # bs) w w' \<longleftrightarrow> (case ws_Read ws w of (Inl e, w1) \<Rightarrow> False | (Inr b', w1) \<Rightarrow> b' = b \<and> delivers ws bs w1 w')"

definition decoded :: "bytes list \<Rightarrow> client_msg list" where
  "decoded bs = map fst (filter (\<lambda>d. snd d = None) (map MessageFromBytes bs))"

lemma decoded_simps:
  "decoded [] = []"
  "decoded (b # bs) = (case MessageFromBytes b of (m, None) \<Rightarrow> m # decoded bs | (m, Some e) \<Rightarrow> decoded bs)"
  by (auto simp: decoded_def split: prod.split option.split)

lemma read_iteration_fails:
  assumes "ws_Read ws (cl_ws c) = (Inl e, w)" "\<not> ch_closed (fromWebSocket c)"
  shows "read_iteration ws c = (Returned Return, c\<lparr>cl_ws := w, fromWebSocket := (fromWebSocket c)\<lparr>ch_closed := True\<rparr>\<rparr>)"
  using assms by (simp add: read_iteration_def chan_close_def)

lemma read_iteration_refuses:
  assumes "ws_Read ws (cl_ws c) = (Inr b, w)" "MessageFromBytes b = (m, Some e)"
  shows "read_iteration ws c = (Returned Continue, c\<lparr>cl_ws := w\<rparr>)"
  using assms by (simp add: read_iteration_def)

lemma read_iteration_forwards:
  assumes "ws_Read ws (cl_ws c) = (Inr b, w)" "MessageFromBytes b = (m, None)" "\<not> ch_closed (fromWebSocket c)"
    and "length (ch_buf (fromWebSocket c)) < ch_cap (fromWebSocket c)"
  shows "read_iteration ws c = (Returned Continue, c\<lparr>cl_ws := w, fromWebSocket := queued [m] (fromWebSocket c)\<rparr>)"
  using assms by (simp add: read_iteration_def chan_send_def queued_def)

lemma read_loop_ends:
  assumes "delivers ws bs (cl_ws c) w" "\<not> ch_closed (fromWebSocket c)"
    and "length (ch_buf (fromWebSocket c)) + length (decoded bs) \<le> ch_cap (fromWebSocket c)"
  shows "read_loop ws c = Some (Returned (),
    c\<lparr>cl_ws := w, fromWebSocket := (queued (decoded bs) (fromWebSocket c))\<lparr>ch_closed := True\<rparr>\<rparr>)"
  using assms
proof (induction bs arbitrary: c)
  case Nil
  then obtain e where "ws_Read ws (cl_ws c) = (Inl e, w)" by (auto split: prod.splits sum.splits)
  from read_iteration_fails [OF this Nil.prems(2)] show ?case
    by (simp add: read_loop.simps decoded_simps queued_def)
next
  case (Cons b bs)
  then obtain w1 where r: "ws_Read ws (cl_ws c) = (Inr b, w1)" and more: "delivers ws bs w1 w"
    by (auto split: prod.splits sum.splits)
  obtain m e where m: "MessageFromBytes b = (m, e)" by fastforce
  show ?case
  proof (cases e)
    case None
    with Cons.prems(3) m have len: "length (ch_buf (fromWebSocket c)) + Suc (length (decoded bs)) \<le> ch_cap (fromWebSocket c)"
      by (simp add: decoded_simps)
    let ?c = "c\<lparr>cl_ws := w1, fromWebSocket := queued [m] (fromWebSocket c)\<rparr>"
    have "read_iteration ws c = (Returned Continue, ?c)"
      using read_iteration_forwards [OF r m [unfolded None] Cons.prems(2)] len by simp
    moreover have "read_loop ws ?c = Some (Returned (),
        ?c\<lparr>cl_ws := w, fromWebSocket := (queued (decoded bs) (fromWebSocket ?c))\<lparr>ch_closed := True\<rparr>\<rparr>)"
      using Cons.IH [of ?c] more Cons.prems(2) len by (simp add: queued_def)
    ultimately show ?thesis using m None by (simp add: read_loop.simps [of ws c] decoded_simps queued_def)
  next
    case (Some x)
    let ?c = "c\<lparr>cl_ws := w1\<rparr>"
    have "read_iteration ws c = (Returned Continue, ?c)"
      using read_iteration_refuses [OF r m [unfolded Some]] .
    moreover have "read_loop ws ?c = Some (Returned (),
        ?c\<lparr>cl_ws := w, fromWebSocket := (queued (decoded bs) (fromWebSocket ?c))\<lparr>ch_closed := True\<rparr>\<rparr>)"
      using Cons.IH [of ?c] more Cons.prems(2,3) m Some by (simp add: decoded_simps)
    ultimately show ?thesis using m Some by (simp add: read_loop.simps [of ws c] decoded_simps)
  qed
qed

section \<open>Close\<close>

lemma drain_eq:
  "drain c = (if ch_closed c then Returned () else Blocked, c\<lparr>ch_buf := []\<rparr>)"
proof (induction c rule: drain.induct)
  case (1 c)
  show ?case
  proof (cases "ch_buf c")
    case Nil
    then have "c\<lparr>ch_buf := []\<rparr> = c" by simp
    with Nil show ?thesis by (subst drain.simps) (simp add: chan_recv_def)
  next
    case (Cons v vs)
    then have "chan_recv c = (Returned (Some v), c\<lparr>ch_buf := vs\<rparr>)" by (simp add: chan_recv_def)
    from 1 [OF this [symmetric] refl refl] this show ?thesis by (subst drain.simps) simp
  qed
qed

text \<open>What the reading goroutine does after the connection was closed: it ends, if it is still there.\<close>

definition reader_ends :: "'w websocket \<Rightarrow> ('o, 'm, 'r, 'w, 'a, 'cc) client \<Rightarrow> ('o, 'm, 'r, 'w, 'a, 'cc) client" where
  "reader_ends ws c =
     (if ch_closed (fromWebSocket c) then c else case read_loop ws c of Some (_, c') \<Rightarrow> c' | None \<Rightarrow> c)"

text \<open>Documented by the WebSocket library: reads on a connection that was closed fail.\<close>

definition closed_reads_fail :: "'w websocket \<Rightarrow> bool" where
  "closed_reads_fail ws \<longleftrightarrow> (\<forall>w. \<exists>e w'. ws_Read ws (ws_Close ws w) = (Inl e, w'))"

lemma reader_ends_closed:
  assumes "closed_reads_fail ws" "cl_ws c = ws_Close ws w"
  shows "\<exists>w'. reader_ends ws c = c\<lparr>cl_ws := w', fromWebSocket := (fromWebSocket c)\<lparr>ch_closed := True\<rparr>\<rparr>"
proof (cases "ch_closed (fromWebSocket c)")
  case True
  then have "(fromWebSocket c)\<lparr>ch_closed := True\<rparr> = fromWebSocket c" by simp
  with True show ?thesis by (intro exI [of _ "cl_ws c"]) (simp add: reader_ends_def)
next
  case False
  obtain e w' where "ws_Read ws (cl_ws c) = (Inl e, w')" using assms by (metis closed_reads_fail_def)
  from read_iteration_fails [OF this False] show ?thesis
    using False by (simp add: reader_ends_def read_loop.simps) blast
qed

lemma Close_open:
  assumes "closed_reads_fail (env_ws env)" "\<not> closeOnce c" "0 < waitGroup c"
  shows "\<exists>w. Close env (reader_ends (env_ws env)) c = (Returned (),
    c\<lparr>closeOnce := True, cl_ws := w, fromWebSocket := (fromWebSocket c)\<lparr>ch_buf := [], ch_closed := True\<rparr>,
      cl_agents := ag_RemoveAgent (env_agents env) (cl_id c) (cl_agents c), waitGroup := waitGroup c - 1\<rparr>)"
proof -
  let ?c1 = "c\<lparr>closeOnce := True, cl_ws := ws_Close (env_ws env) (cl_ws c)\<rparr>"
  obtain w where "reader_ends (env_ws env) ?c1 = ?c1\<lparr>cl_ws := w, fromWebSocket := (fromWebSocket ?c1)\<lparr>ch_closed := True\<rparr>\<rparr>"
    using reader_ends_closed [OF assms(1), of ?c1] by auto
  with assms(2,3) show ?thesis
    by (intro exI [of _ w]) (simp add: Close_def Close_socket_def Close_agents_def Close_done_def Let_def drain_eq)
qed

lemma Close_again: "closeOnce c \<Longrightarrow> Close env reader c = (Returned (), c)"
  by (simp add: Close_def)

section \<open>The main loop\<close>

text \<open>What the loop leaves alone: the once, the wait group, the identity, and whether the reader is done.\<close>

definition kept :: "('o, 'm, 'r, 'w, 'a, 'cc) client \<Rightarrow> bool \<times> nat \<times> ID \<times> bool" where
  "kept c = (closeOnce c, waitGroup c, cl_id c, ch_closed (fromWebSocket c))"

text \<open>How a caller passes on the outcome of a call leaves the client alone.\<close>

lemma snd_passed_on [simp]:
  "snd (case p of (Returned x, c') \<Rightarrow> (f x, c') | (Panicked q, c') \<Rightarrow> (Panicked q, c') | (Blocked, c') \<Rightarrow> (Blocked, c')) = snd p"
  by (simp split: prod.split run.split)

lemma kept_frames:
  "kept (c\<lparr>toWebSocket := t\<rparr>) = kept c" "kept (c\<lparr>cl_redis := r\<rparr>) = kept c" "kept (c\<lparr>cl_custom := u\<rparr>) = kept c"
  "kept (c\<lparr>cl_ws := w\<rparr>) = kept c" "kept (c\<lparr>cl_coll := m\<rparr>) = kept c" "kept (c\<lparr>cl_agents := a\<rparr>) = kept c"
  "kept (c\<lparr>subscriptions := s\<rparr>) = kept c"
  by (simp_all add: kept_def)

lemma WriteToWebSocket_kept: "kept (snd (WriteToWebSocket d c)) = kept c"
  by (simp add: WriteToWebSocket_def kept_frames split: prod.split)

lemma Client_Publish_kept: "kept (snd (Client_Publish rd key msg c)) = kept c"
  by (simp add: Client_Publish_def kept_frames split: prod.split)

lemma run_script_kept: "kept (snd (run_script rd k c)) = kept c"
proof (induction k arbitrary: c)
  case (WriteWS d k)
  obtain r c' where w: "WriteToWebSocket d c = (r, c')" by fastforce
  with WriteToWebSocket_kept [of d c] have "kept c' = kept c" by simp
  with w WriteWS [of c'] show ?case by (cases r) simp_all
next
  case (DoPublish key msg k)
  then show ?case by (simp add: Let_def Client_Publish_kept split: go.split)
qed (simp add: kept_frames)

lemma updateSubscription_kept: "kept (snd (updateSubscription env msg c)) = kept c"
proof (cases "MongoSynk_Load (cl_Creator c) (env_mongo env) (us_Add msg) (cl_coll c)")
  case (Pair g m)
  show ?thesis
  proof (cases "\<exists>objs. g = Ret (objs, None)")
    case True
    with Pair show ?thesis
      by (auto simp: updateSubscription_def Let_def kept_frames run_script_kept split: option.split)
  next
    case False
    with Pair show ?thesis
      by (auto simp: updateSubscription_def Let_def kept_frames split: go.split option.split)
  qed
qed

lemma handleMessage_kept: "kept (snd (handleMessage env m c)) = kept c"
  by (cases m) (simp_all add: handleMessage_def updateSubscription_kept run_script_kept split: option.split)

lemma main_iteration_kept: "kept (snd (main_iteration env ev c)) = kept c"
proof (cases ev)
  case MessageOut
  then show ?thesis
    by (simp add: main_iteration_def Let_def kept_frames case_prod_unfold split: run.split option.split)
next
  case Ping
  then show ?thesis by (simp add: main_iteration_def kept_frames split: prod.split)
next
  case MessageIn
  obtain r f where recv: "chan_recv (fromWebSocket c) = (r, f)" by fastforce
  then have "ch_closed f = ch_closed (fromWebSocket c)"
    by (auto simp: chan_recv_def split: list.splits)
  then have "kept (c\<lparr>fromWebSocket := f\<rparr>) = kept c" by (simp add: kept_def)
  with recv show ?thesis
    by (simp add: MessageIn main_iteration_def handleMessage_kept split: run.split option.split)
qed

lemma main_loop_kept: "kept (snd (main_loop env evs c)) = kept c"
proof (induction evs arbitrary: c)
  case (Cons ev evs)
  obtain r c' where it: "main_iteration env ev c = (r, c')" by fastforce
  then have "kept c' = kept c" using main_iteration_kept [of env ev c] by simp
  with it Cons.IH [of c'] show ?case by (auto split: run.split loop_next.split)
qed simp

lemma startMainLoop_closes:
  assumes "closed_reads_fail (env_ws env)" "\<not> closeOnce c" "0 < waitGroup c"
    and "main_loop env evs c = (res, d)" "res \<noteq> Returned Continue" "res \<noteq> Blocked"
  shows "\<exists>w. startMainLoop env (reader_ends (env_ws env)) evs c = (res,
    d\<lparr>closeOnce := True, cl_ws := w, fromWebSocket := (fromWebSocket d)\<lparr>ch_buf := [], ch_closed := True\<rparr>,
      cl_agents := ag_RemoveAgent (env_agents env) (cl_id c) (cl_agents d), waitGroup := waitGroup c - 1\<rparr>)"
proof -
  have kept: "closeOnce d = closeOnce c" "waitGroup d = waitGroup c" "cl_id d = cl_id c"
    using main_loop_kept [of env evs c] assms(4) by (simp_all add: kept_def)
  obtain w where "Close env (reader_ends (env_ws env)) d = (Returned (),
    d\<lparr>closeOnce := True, cl_ws := w, fromWebSocket := (fromWebSocket d)\<lparr>ch_buf := [], ch_closed := True\<rparr>,
      cl_agents := ag_RemoveAgent (env_agents env) (cl_id d) (cl_agents d), waitGroup := waitGroup d - 1\<rparr>)"
    using Close_open [OF assms(1), of d] assms(2,3) kept by auto
  with assms(4-6) show ?thesis
    by (intro exI [of _ w]) (cases res; auto simp: startMainLoop_def kept split: loop_next.split)
qed

section \<open>Properties\<close>

text \<open>
  C22: The reading goroutine, for a connection that delivers any frames and then fails: as long as the
  queue has room for them it passes on exactly the messages that decode, in their order, skips the
  others, closes the queue and returns.
\<close>

theorem reader_forwards:
  assumes "delivers ws bs (cl_ws c) w" "\<not> ch_closed (fromWebSocket c)"
    and "length (ch_buf (fromWebSocket c)) + length (decoded bs) \<le> ch_cap (fromWebSocket c)"
  shows "read_loop ws c = Some (Returned (), c\<lparr>cl_ws := w,
    fromWebSocket := (fromWebSocket c)\<lparr>ch_buf := ch_buf (fromWebSocket c) @ decoded bs, ch_closed := True\<rparr>\<rparr>)"
  using read_loop_ends [OF assms] by (simp add: queued_def)

text \<open>A connection whose state is the list of frames to come.\<close>

definition frame_socket :: "bytes list websocket" where
  "frame_socket = \<lparr>ws_WriteText = (\<lambda>b w. (None, w)), ws_WritePing = (\<lambda>w. (Some ''broken pipe'', w)),
     ws_Read = (\<lambda>w. case w of [] \<Rightarrow> (Inl CloseGoingAway, []) | b # bs \<Rightarrow> (Inr b, bs)), ws_Close = (\<lambda>w. [])\<rparr>"

definition talking_client :: "(entity, (string \<times> entity) list, mem_db, bytes list, string list, unit) client" where
  "talking_client = demo_client\<lparr>cl_ws := [''nope'', render (UpdateSubscriptionMessage_json sample_update)]\<rparr>"

lemma talking_client_fields:
  "cl_ws talking_client = [''nope'', render (UpdateSubscriptionMessage_json sample_update)]"
  "fromWebSocket talking_client = make_chan clientBufferLength" "closeOnce talking_client = False"
  "waitGroup talking_client = 1"
  by (simp_all add: talking_client_def demo_client_def make_client_def case_prod_unfold Let_def)

lemma talking_decoded: "decoded (cl_ws talking_client) = [UpdateSubscriptionMsg sample_update]"
proof -
  have "valid_update sample_update" by code_simp
  from MessageFromBytes_roundtrip_lib [OF this]
  have "MessageFromBytes (render (UpdateSubscriptionMessage_json sample_update)) = (UpdateSubscriptionMsg sample_update, None)" .
  moreover have "snd (MessageFromBytes ''nope'') \<noteq> None" by code_simp
  ultimately show ?thesis by (simp add: decoded_def talking_client_fields del: render.simps)
qed

lemma reader_forwards_witness:
  "read_loop frame_socket talking_client = Some (Returned (), talking_client\<lparr>cl_ws := [],
     fromWebSocket := (make_chan clientBufferLength)\<lparr>ch_buf := [UpdateSubscriptionMsg sample_update], ch_closed := True\<rparr>\<rparr>)"
proof -
  have "delivers frame_socket (cl_ws talking_client) (cl_ws talking_client) []"
    by (simp add: talking_client_fields frame_socket_def del: render.simps)
  from reader_forwards [OF this] show ?thesis
    by (simp add: talking_client_fields(2) talking_decoded make_chan_def clientBufferLength_def)
qed



end
