(* ===== verification/Client_Pool.thy ===== *)
theory Client_Pool
  imports Ids Channels
begin

text \<open>
  \<open>ClientPool.go\<close>: the set of connected clients. The pool is a goroutine that takes requests
  from three unbuffered channels; a request is what another goroutine sent. Clients are pointers, so
  the queues of outgoing messages are kept in a heap by address, and the pool maps an identifier to
  an address. \<open>Handler.go\<close> adds a new client, waits for its end and removes it.
\<close>

section \<open>The pool\<close>

record pool_client =
  pc_id :: ID
  pc_to :: "bytes chan"

type_synonym client_heap = "nat \<Rightarrow> pool_client"

record client_pool =
  pool_all :: "ID \<rightharpoonup> nat"

definition newClientPool :: client_pool where
  "newClientPool = \<lparr>pool_all = Map.empty\<rparr>"

text \<open>
  A value received on \<open>add\<close>, \<open>remove\<close> or \<open>broadcast\<close>. The order in which a broadcast visits
  the map is chosen by the runtime and comes with the request.
\<close>

datatype pool_request = AddClient nat | RemoveClient nat | BroadcastMsg bytes "ID list"

definition set_to :: "nat \<Rightarrow> bytes chan \<Rightarrow> client_heap \<Rightarrow> client_heap" where
  "set_to a c h = h(a := (h a)\<lparr>pc_to := c\<rparr>)"

text \<open>The inner loop: a client whose buffer is full misses the message.\<close>

fun broadcast_loop :: "bytes \<Rightarrow> client_pool \<Rightarrow> ID list \<Rightarrow> client_heap \<Rightarrow> unit run \<times> client_heap" where
  "broadcast_loop message pool [] h = (Returned (), h)"
| "broadcast_loop message pool (i # is) h =
     (case pool_all pool i of
        None \<Rightarrow> broadcast_loop message pool is h
      | Some a \<Rightarrow>
          (case chan_try_send message (pc_to (h a)) of
             (Returned _, c) \<Rightarrow> broadcast_loop message pool is (set_to a c h)
           | (Panicked p, c) \<Rightarrow> (Panicked p, h)
           | (Blocked, c) \<Rightarrow> (Blocked, h)))"

definition pool_step :: "pool_request \<Rightarrow> client_pool \<Rightarrow> client_heap \<Rightarrow> unit run \<times> client_pool \<times> client_heap" where
  "pool_step req pool h =
     (case req of
        AddClient a \<Rightarrow> (Returned (), pool\<lparr>pool_all := (pool_all pool)(pc_id (h a) \<mapsto> a)\<rparr>, h)
      | RemoveClient a \<Rightarrow>
          (if pool_all pool (pc_id (h a)) \<noteq> None then
             (case chan_close (pc_to (h a)) of
                (Returned _, c) \<Rightarrow>
                  (Returned (), pool\<lparr>pool_all := (pool_all pool)(pc_id (h a) := None)\<rparr>, set_to a c h)
              | (Panicked p, c) \<Rightarrow> (Panicked p, pool, h)
              | (Blocked, c) \<Rightarrow> (Blocked, pool, h))
           else (Returned (), pool, h))
      | BroadcastMsg message order \<Rightarrow>
          (case broadcast_loop message pool order h of (res, h') \<Rightarrow> (res, pool, h')))"

text \<open>\<open>run\<close>, for the requests that arrive.\<close>

fun pool_run :: "pool_request list \<Rightarrow> client_pool \<Rightarrow> client_heap \<Rightarrow> unit run \<times> client_pool \<times> client_heap" where
  "pool_run [] pool h = (Returned (), pool, h)"
| "pool_run (req # reqs) pool h =
     (case pool_step req pool h of
        (Returned _, pool', h') \<Rightarrow> pool_run reqs pool' h'
      | res \<Rightarrow> res)"

section \<open>Histories of the handler\<close>

text \<open>
  \<open>ServeHTTP\<close> adds the client it created once and removes it once afterwards; a broadcast visits
  the members of the pool, each once. \<open>added\<close> and \<open>removed\<close> are the clients so far.
\<close>

fun handler_history :: "(nat \<Rightarrow> ID) \<Rightarrow> nat list \<Rightarrow> nat list \<Rightarrow> pool_request list \<Rightarrow> bool" where
  "handler_history ident added removed [] \<longleftrightarrow> True"
| "handler_history ident added removed (AddClient a # reqs) \<longleftrightarrow>
     a \<notin> set added \<and> handler_history ident (a # added) removed reqs"
| "handler_history ident added removed (RemoveClient a # reqs) \<longleftrightarrow>
     a \<in> set added \<and> a \<notin> set removed \<and> handler_history ident added (a # removed) reqs"
| "handler_history ident added removed (BroadcastMsg m order # reqs) \<longleftrightarrow>
     distinct order \<and> set order = ident ` (set added - set removed) \<and> handler_history ident added removed reqs"

fun all_added :: "nat list \<Rightarrow> pool_request list \<Rightarrow> nat list" where
  "all_added added [] = added"
| "all_added added (AddClient a # reqs) = all_added (a # added) reqs"
| "all_added added (_ # reqs) = all_added added reqs"

fun all_removed :: "nat list \<Rightarrow> pool_request list \<Rightarrow> nat list" where
  "all_removed removed [] = removed"
| "all_removed removed (RemoveClient a # reqs) = all_removed (a # removed) reqs"
| "all_removed removed (_ # reqs) = all_removed removed reqs"

text \<open>
  The pool holds the clients that were added and not removed, under their identifiers; exactly the
  removed ones have a closed queue.
\<close>

definition pool_inv :: "(nat \<Rightarrow> ID) \<Rightarrow> nat list \<Rightarrow> nat list \<Rightarrow> client_pool \<Rightarrow> client_heap \<Rightarrow> bool" where
  "pool_inv ident added removed pool h \<longleftrightarrow>
     (\<forall>a. pc_id (h a) = ident a) \<and>
     (\<forall>i a. pool_all pool i = Some a \<longleftrightarrow> a \<in> set added - set removed \<and> ident a = i) \<and>
     (\<forall>a. ch_closed (pc_to (h a)) \<longleftrightarrow> a \<in> set removed) \<and> set removed \<subseteq> set added"

lemma set_to_simps [simp]:
  "pc_id (set_to a c h b) = pc_id (h b)" "pc_to (set_to a c h b) = (if b = a then c else pc_to (h b))"
  by (simp_all add: set_to_def)

lemma broadcast_loop_ok:
  assumes "\<forall>i a. pool_all pool i = Some a \<longrightarrow> \<not> ch_closed (pc_to (h a))"
  shows "\<exists>h'. broadcast_loop m pool is h = (Returned (), h') \<and>
    (\<forall>a. pc_id (h' a) = pc_id (h a)) \<and> (\<forall>a. ch_closed (pc_to (h' a)) = ch_closed (pc_to (h a)))"
  using assms
proof (induction "is" arbitrary: h)
  case Nil
  then show ?case by simp
next
  case (Cons i "is")
  show ?case
  proof (cases "pool_all pool i")
    case None
    with Cons show ?thesis by simp
  next
    case (Some a)
    then have "\<not> ch_closed (pc_to (h a))" using Cons.prems by blast
    then obtain c where c: "chan_try_send m (pc_to (h a)) = (Returned (), c)" "\<not> ch_closed c"
      by (auto simp: chan_outcomes)
    have "\<forall>i b. pool_all pool i = Some b \<longrightarrow> \<not> ch_closed (pc_to (set_to a c h b))"
      using Cons.prems c(2) by auto
    from Cons.IH [OF this] obtain h' where "broadcast_loop m pool is (set_to a c h) = (Returned (), h')"
        "\<forall>b. pc_id (h' b) = pc_id (h b)" "\<forall>b. ch_closed (pc_to (h' b)) = ch_closed (pc_to (set_to a c h b))"
      by auto
    with Some c \<open>\<not> ch_closed (pc_to (h a))\<close> show ?thesis by (intro exI [of _ h']) simp
  qed
qed

text \<open>What a broadcast puts into the queues.\<close>

lemma broadcast_loop_queues:
  assumes "broadcast_loop m pool is h = (Returned (), h')" "distinct is"
    and "inj_on (\<lambda>i. pool_all pool i) (set is \<inter> dom (pool_all pool))"
  shows "ch_buf (pc_to (h' a)) = ch_buf (pc_to (h a)) @
    (if (\<exists>i \<in> set is. pool_all pool i = Some a) \<and> length (ch_buf (pc_to (h a))) < ch_cap (pc_to (h a)) then [m] else [])"
  using assms
proof (induction "is" arbitrary: h)
  case Nil
  then show ?case by simp
next
  case (Cons i "is")
  have inj: "inj_on (\<lambda>i. pool_all pool i) (set is \<inter> dom (pool_all pool))"
    by (rule inj_on_subset [OF Cons.prems(3)]) auto
  show ?case
  proof (cases "pool_all pool i")
    case None
    with Cons.IH [OF _ _ inj] Cons.prems show ?thesis by simp
  next
    case (Some b)
    then obtain c where c: "chan_try_send m (pc_to (h b)) = (Returned (), c)"
      and rest: "broadcast_loop m pool is (set_to b c h) = (Returned (), h')"
      using Cons.prems(1) by (auto split: prod.splits run.splits)
    have "pool_all pool j \<noteq> Some b" if "j \<in> set is" for j
    proof
      assume "pool_all pool j = Some b"
      with Some that Cons.prems(3) have "j = i" by (intro inj_onD [OF Cons.prems(3)]) auto
      with that Cons.prems(2) show False by simp
    qed
    with Cons.IH [OF rest _ inj] Cons.prems(2) Some c show ?thesis by (auto simp: chan_outcomes split: if_splits)
  qed
qed

lemma pool_step_ok:
  assumes inv: "pool_inv ident added removed pool h" and "handler_history ident added removed (req # reqs)"
    and inj: "inj_on ident (set (all_added added [req]))"
  shows "\<exists>pool' h'. pool_step req pool h = (Returned (), pool', h') \<and>
    pool_inv ident (all_added added [req]) (all_removed removed [req]) pool' h'"
proof (cases req)
  case (AddClient a)
  with assms show ?thesis
    by (auto simp: pool_step_def pool_inv_def inj_on_def)
next
  case (RemoveClient a)
  with assms(2) have a: "a \<in> set added" "a \<notin> set removed" by auto
  have "inj_on ident (set added)" using inj RemoveClient by simp
  with inv a have all: "pool_all pool (ident a) = Some a" by (simp add: pool_inv_def)
  moreover have "chan_close (pc_to (h a)) = (Returned (), (pc_to (h a))\<lparr>ch_closed := True\<rparr>)"
    using inv a by (simp add: pool_inv_def chan_close_def)
  ultimately have "pool_step req pool h = (Returned (), pool\<lparr>pool_all := (pool_all pool)(ident a := None)\<rparr>,
      set_to a ((pc_to (h a))\<lparr>ch_closed := True\<rparr>) h)"
    using inv [unfolded pool_inv_def, THEN conjunct1] RemoveClient by (simp add: pool_step_def)
  moreover have "pool_inv ident added (a # removed) (pool\<lparr>pool_all := (pool_all pool)(ident a := None)\<rparr>)
      (set_to a ((pc_to (h a))\<lparr>ch_closed := True\<rparr>) h)"
    using inv a \<open>inj_on ident (set added)\<close> by (auto simp: pool_inv_def inj_on_def)
  ultimately show ?thesis using RemoveClient by simp
next
  case (BroadcastMsg m order)
  have "\<forall>i a. pool_all pool i = Some a \<longrightarrow> \<not> ch_closed (pc_to (h a))"
    using inv by (auto simp: pool_inv_def)
  from broadcast_loop_ok [OF this, of m order] BroadcastMsg inv show ?thesis
    by (auto simp: pool_step_def pool_inv_def)
qed

lemma all_added_mono: "set added \<subseteq> set (all_added added reqs)"
proof (induction reqs arbitrary: added)
  case (Cons req reqs)
  show ?case using Cons.IH [of "_ # added"] Cons.IH [of added] by (cases req) auto
qed simp

lemma all_steps:
  "all_added added (req # reqs) = all_added (all_added added [req]) reqs"
  "all_removed removed (req # reqs) = all_removed (all_removed removed [req]) reqs"
  by (cases req; simp)+

lemma handler_history_step:
  "handler_history ident added removed (req # reqs) \<Longrightarrow>
   handler_history ident (all_added added [req]) (all_removed removed [req]) reqs"
  by (cases req) auto

lemma pool_run_ok:
  "pool_inv ident added removed pool h \<Longrightarrow> handler_history ident added removed reqs \<Longrightarrow>
   inj_on ident (set (all_added added reqs)) \<Longrightarrow>
   \<exists>pool' h'. pool_run reqs pool h = (Returned (), pool', h') \<and>
     pool_inv ident (all_added added reqs) (all_removed removed reqs) pool' h'"
proof (induction reqs arbitrary: added removed pool h)
  case Nil
  then show ?case by simp
next
  case (Cons req reqs)
  have "inj_on ident (set (all_added added [req]))"
    using Cons.prems(3) all_added_mono [of "all_added added [req]" reqs]
    by (metis all_steps(1) inj_on_subset)
  then obtain pool1 h1 where step: "pool_step req pool h = (Returned (), pool1, h1)"
    and inv: "pool_inv ident (all_added added [req]) (all_removed removed [req]) pool1 h1"
    using pool_step_ok [OF Cons.prems(1,2)] by blast
  have "inj_on ident (set (all_added (all_added added [req]) reqs))" using Cons.prems(3) by (simp only: all_steps(1) [of added req reqs])
  from Cons.IH [OF inv handler_history_step [OF Cons.prems(2)] this] step show ?case
    by (simp add: all_steps(1) [of added req reqs] all_steps(2) [of removed req reqs])
qed

section \<open>Handler\<close>

text \<open>
  The settings of the upgrader: the sizes of the two buffers in bytes, and the check of the origin of a
  request, which accepts every request.
\<close>

record 'req upgrader =
  ReadBufferSize :: nat
  WriteBufferSize :: nat
  CheckOrigin :: "'req \<Rightarrow> bool"

definition ws_upgrader :: "'req upgrader" where
  "ws_upgrader = \<lparr>ReadBufferSize = 1024, WriteBufferSize = 1024, CheckOrigin = (\<lambda>r. True)\<rparr>"

text \<open>\<open>NewHandler\<close> makes the pool and starts its goroutine.\<close>

record 'n handler =
  h_clientPool :: client_pool
  h_Node :: 'n

definition NewHandler :: "'n \<Rightarrow> 'n handler" where
  "NewHandler n = \<lparr>h_clientPool = newClientPool, h_Node = n\<rparr>"

text \<open>
  \<open>ServeHTTP\<close>: the requests it sends to the pool, in order; between the two it waits for the client's
  wait group. \<open>Upgrade\<close> is the method of the upgrader, from \<open>gorilla/websocket\<close>, and \<open>create\<close> is
  \<open>newClient\<close> for the handler's node: the new client or an error. \<open>newClient\<close> returns no error, but the
  code checks for one.
\<close>

datatype upgrade_result = UpgradeFailed error | Upgraded

record served =
  sv_requests :: "pool_request list"
  sv_closed_ws :: bool  \<comment> \<open>whether the handler itself closed the connection\<close>

definition ServeHTTP :: "('req upgrader \<Rightarrow> 'req \<Rightarrow> upgrade_result) \<Rightarrow> ('n \<Rightarrow> nat \<times> error option) \<Rightarrow> 'n handler \<Rightarrow> 'req \<Rightarrow> served" where
  "ServeHTTP Upgrade create h r =
     (case Upgrade ws_upgrader r of
        UpgradeFailed e \<Rightarrow> \<lparr>sv_requests = [], sv_closed_ws = False\<rparr>
      | Upgraded \<Rightarrow>
          (case create (h_Node h) of
             (_, Some e) \<Rightarrow> \<lparr>sv_requests = [], sv_closed_ws = True\<rparr>
           | (client, None) \<Rightarrow> \<lparr>sv_requests = [AddClient client, RemoveClient client], sv_closed_ws = False\<rparr>))"

text \<open>The requests of one call for a client the pool has not seen are a history of the pool.\<close>

lemma ServeHTTP_history:
  "fst (create (h_Node h)) \<notin> set added \<Longrightarrow> set removed \<subseteq> set added \<Longrightarrow>
   handler_history ident added removed (sv_requests (ServeHTTP Upgrade create h r))"
  by (auto simp: ServeHTTP_def split: upgrade_result.split prod.split option.split)

section \<open>Properties\<close>

text \<open>
  C24: for clients with different identifiers and any interleaving of their handlers with broadcasts,
  the goroutine of the pool never panics and never blocks; afterwards it holds exactly the clients
  that were added and not removed, and exactly the removed ones have their queue closed.
\<close>

theorem pool_never_panics:
  assumes "\<forall>a. pc_id (h a) = ident a \<and> \<not> ch_closed (pc_to (h a))"
    and "handler_history ident [] [] reqs" "inj_on ident (set (all_added [] reqs))"
  shows "\<exists>pool h'. pool_run reqs newClientPool h = (Returned (), pool, h') \<and>
    (\<forall>i a. pool_all pool i = Some a \<longleftrightarrow> a \<in> set (all_added [] reqs) - set (all_removed [] reqs) \<and> ident a = i) \<and>
    (\<forall>a. ch_closed (pc_to (h' a)) \<longleftrightarrow> a \<in> set (all_removed [] reqs))"
proof -
  have "pool_inv ident [] [] newClientPool h" using assms(1) by (simp add: pool_inv_def newClientPool_def)
  from pool_run_ok [OF this assms(2,3)] show ?thesis by (auto simp: pool_inv_def)
qed

definition demo_heap :: client_heap where
  "demo_heap = (\<lambda>a. \<lparr>pc_id = replicate a (CHR ''x''), pc_to = make_chan 1\<rparr>)"

definition demo_requests :: "pool_request list" where
  "demo_requests = [AddClient 1, AddClient 2, BroadcastMsg ''{}'' [''x'', ''xx''], RemoveClient 1]"

lemma pool_never_panics_witness:
  "\<exists>pool h'. pool_run demo_requests newClientPool demo_heap = (Returned (), pool, h') \<and>
     pool_all pool ''xx'' = Some 2 \<and> pool_all pool ''x'' \<noteq> Some 1 \<and> ch_closed (pc_to (h' 1))"
proof -
  let ?ident = "\<lambda>a. replicate a (CHR ''x'')"
  have heap: "\<forall>a. pc_id (demo_heap a) = ?ident a \<and> \<not> ch_closed (pc_to (demo_heap a))"
    by (simp add: demo_heap_def make_chan_def)
  have hist: "handler_history ?ident [] [] demo_requests" by (auto simp: demo_requests_def numeral_2_eq_2)
  have sets: "set (all_added [] demo_requests) = {1, 2}" "set (all_removed [] demo_requests) = {1}"
    by (auto simp: demo_requests_def)
  have "inj_on ?ident (set (all_added [] demo_requests))" by (auto simp: inj_on_def)
  from pool_never_panics [OF heap hist this] sets show ?thesis by (force simp: numeral_2_eq_2)
qed

end
