(* ===== verification/Life_Refines.thy ===== *)
theory Life_Refines
  imports Lifecycle Client_Close Client_Pool
begin

text \<open>
  The functions of \<open>Client\<close> and \<open>Client_Pool\<close> refine the life cycle of \<open>Lifecycle\<close>: what the passes
  of the main loop, the steps of the reading goroutine, the calls of \<open>Receive\<close> and of
  \<open>WriteToWebSocket\<close>, \<open>OnConnect\<close>, the requests to the pool and the statements of the deferred \<open>Close\<close>
  do to a \<open>synkClient\<close>, in any order, is a run of the transition system, so its invariants hold of the
  client. A pass of the main loop and \<open>OnConnect\<close> are one step here, which is simulated by the single
  operations on the channels that it makes.
\<close>

section \<open>Runs of the life cycle\<close>

lemma life_trans: "life_reaches waits s t \<Longrightarrow> life_reaches waits t u \<Longrightarrow> life_reaches waits s u"
  by (rule reaches_trans)

lemma life_then: "life_step waits s a t \<Longrightarrow> life_reaches waits t u \<Longrightarrow> life_reaches waits s u"
  by (rule life_trans [OF reaches_one])

lemma life_to: "life_step waits s a t \<Longrightarrow> t = u \<Longrightarrow> life_reaches waits s u"
  by (auto intro: reaches_one)

lemma life_same_to: "lf_to s = to \<Longrightarrow> life_reaches waits s (s\<lparr>lf_to := to\<rparr>)"
  using reaches_refl [of waits s] by (cases s) simp

lemma life_same: "lf_main s = mn \<Longrightarrow> lf_to s = to \<Longrightarrow> life_reaches waits s (s\<lparr>lf_main := mn, lf_to := to\<rparr>)"
  using reaches_refl [of waits s] by (cases s) simp

section \<open>Handlers\<close>

text \<open>A handler that returns has sent some messages to the browser, each into a queue with room.\<close>

lemma script_sends:
  "run_script rd k c = (Returned u, c') \<Longrightarrow>
   \<exists>bs. \<forall>s. lf_main s = Handling bs \<longrightarrow> lf_to s = toWebSocket c \<longrightarrow>
     life_reaches waits s (s\<lparr>lf_main := Handling [], lf_to := toWebSocket c'\<rparr>)"
proof (induction k arbitrary: c)
  case (Finish cu)
  then show ?case by (intro exI [of _ "[]"]) (auto intro: life_same)
next
  case (WriteWS b k)
  then obtain to1 where w: "chan_send b (toWebSocket c) = (Returned (), to1)"
    and rest: "run_script rd k (c\<lparr>toWebSocket := to1\<rparr>) = (Returned u, c')"
    by (auto simp: WriteToWebSocket_def split: prod.splits run.splits)
  from WriteWS.IH [OF rest] obtain bs where bs: "\<forall>s. lf_main s = Handling bs \<longrightarrow> lf_to s = to1 \<longrightarrow>
     life_reaches waits s (s\<lparr>lf_main := Handling [], lf_to := toWebSocket c'\<rparr>)" by auto
  have "life_reaches waits s (s\<lparr>lf_main := Handling [], lf_to := toWebSocket c'\<rparr>)"
    if s: "lf_main s = Handling (b # bs)" "lf_to s = toWebSocket c" for s
  proof -
    let ?t = "s\<lparr>lf_to := to1, lf_main := Handling bs\<rparr>"
    have "life_reaches waits s ?t" by (rule reaches_one [OF handler_write [OF s(1)]]) (simp add: w s(2))
    moreover have "life_reaches waits ?t (s\<lparr>lf_main := Handling [], lf_to := toWebSocket c'\<rparr>)"
      using bs [rule_format, of ?t] by simp
    ultimately show ?thesis by (rule life_trans)
  qed
  then show ?case by (intro exI [of _ "b # bs"]) blast
next
  case (DoPublish key msg k)
  obtain g c1 where pub: "Client_Publish rd key msg c = (g, c1)" by fastforce
  with DoPublish.prems obtain e where "g = Ret e" "run_script rd (k e) c1 = (Returned u, c')"
    by (auto simp: Let_def split: go.splits)
  moreover have "toWebSocket c1 = toWebSocket c" using pub by (auto simp: Client_Publish_def split: prod.splits)
  ultimately show ?case using DoPublish.IH [of "k e" c1] by simp
qed

lemma handled_message:
  assumes "handleMessage env m c = (Returned e, c')"
  shows "\<exists>bs. \<forall>s. lf_main s = Handling bs \<longrightarrow> lf_to s = toWebSocket c \<longrightarrow>
     life_reaches waits s (s\<lparr>lf_main := Handling [], lf_to := toWebSocket c'\<rparr>)"
proof -
  have "toWebSocket c' = toWebSocket c \<or>
      (\<exists>rd k d u. run_script rd k d = (Returned u, c') \<and> toWebSocket d = toWebSocket c)"
  proof (cases m)
    case (UpdateSubscriptionMsg msg)
    then obtain e' where "updateSubscription env msg c = (Returned e', c')"
      using assms by (auto simp: handleMessage_def split: prod.splits run.splits)
    then show ?thesis
      by (auto simp: updateSubscription_def Let_def split: if_splits prod.splits go.splits option.splits run.splits) force
  next
    case (CustomMsg msg)
    with assms show ?thesis
      by (fastforce simp: handleMessage_def split: option.splits prod.splits run.splits)
  next
    case (MethodMsg msg)
    with assms show ?thesis by (simp add: handleMessage_def)
  qed
  then show ?thesis
  proof (elim disjE exE conjE)
    assume "toWebSocket c' = toWebSocket c"
    then show ?thesis by (intro exI [of _ "[]"] allI impI life_same) simp_all
  next
    fix rd k d u
    assume "run_script rd k d = (Returned u, c')" "toWebSocket d = toWebSocket c"
    with script_sends [of rd k d u c' waits] show ?thesis by simp
  qed
qed

section \<open>A pass of the main loop\<close>

lemma handled_frame:
  "handleMessage env m c = (res, c') \<Longrightarrow>
   fromWebSocket c' = fromWebSocket c \<and> closeOnce c' = closeOnce c \<and> waitGroup c' = waitGroup c"
  using handleMessage_kept [of env m c] updateSubscription_from [of env _ c]
  by (auto simp: kept_def handleMessage_def run_script_frame(5) split: client_msg.splits option.splits run.splits prod.splits
      dest!: arg_cong [where f = "\<lambda>r. fromWebSocket (snd r)"])

text \<open>
  \<open>knows a i\<close> are the channels of which the agents, in state \<open>a\<close>, pass messages to \<open>Receive\<close> of the client
  with identifier \<open>i\<close>; that is package \<open>pubsub\<close>.
\<close>

abbreviation known :: "('a \<Rightarrow> ID \<Rightarrow> string set) \<Rightarrow> ('o, 'm, 'r, 'w, 'a, 'cc) client \<Rightarrow> string set" where
  "known knows c \<equiv> knows (cl_agents c) (cl_id c)"

definition after_pass :: "('a \<Rightarrow> ID \<Rightarrow> string set) \<Rightarrow> loop_next \<Rightarrow> ('o, 'm, 'r, 'w, 'a, 'cc) client \<Rightarrow> life \<Rightarrow> life" where
  "after_pass knows nx c s = s\<lparr>lf_main := if nx = Continue then InLoop else CloseWs, lf_from := fromWebSocket c,
     lf_to := toWebSocket c, lf_registered := known knows c \<noteq> {}\<rparr>"

lemma main_pass_refines:
  assumes "main_iteration env ev c = (Returned nx, c')" "lf_main s = InLoop" "lf_from s = fromWebSocket c"
    and "lf_to s = toWebSocket c" "lf_registered s = (known knows c \<noteq> {})"
  shows "life_reaches waits s (after_pass knows nx c' s)"
proof (cases ev)
  case MessageOut
  obtain r to1 where recv: "chan_recv (toWebSocket c) = (r, to1)" by fastforce
  show ?thesis
  proof (cases "r = Returned None")
    case True
    with MessageOut recv assms(1) have c': "c' = c\<lparr>toWebSocket := to1\<rparr>" "nx = Return" by (simp_all add: main_iteration_def)
    have "life_step waits s Main (s\<lparr>lf_to := to1, lf_main := CloseWs\<rparr>)"
      using recv True assms(2,4) by (intro out_closed) simp_all
    moreover have "s\<lparr>lf_to := to1, lf_main := CloseWs\<rparr> = after_pass knows nx c' s"
      using assms(2-5) by (intro life.equality) (simp_all add: after_pass_def c')
    ultimately show ?thesis by (rule life_to)
  next
    case False
    with MessageOut recv assms(1) obtain b where b: "r = Returned (Some b)"
      by (auto simp: main_iteration_def split: run.splits option.splits)
    obtain w where c': "c' = c\<lparr>toWebSocket := to1, cl_ws := w\<rparr>"
      using MessageOut recv b assms(1) by (auto simp: main_iteration_def split: prod.splits)
    have out: "chan_recv (lf_to s) = (Returned (Some b), to1)" using recv b assms(4) by simp
    show ?thesis
    proof (cases nx)
      case Continue
      have "s\<lparr>lf_to := to1\<rparr> = after_pass knows nx c' s"
        using assms(2-5) Continue by (intro life.equality) (simp_all add: after_pass_def c')
      with out_written [OF assms(2) out] show ?thesis by (rule life_to)
    next
      case Return
      have "s\<lparr>lf_to := to1, lf_main := CloseWs\<rparr> = after_pass knows nx c' s"
        using assms(2-5) Return by (intro life.equality) (simp_all add: after_pass_def c')
      with out_failed [OF assms(2) out] show ?thesis by (rule life_to)
    qed
  qed
next
  case Ping
  with assms(1) obtain w where c': "c' = c\<lparr>cl_ws := w\<rparr>" by (auto simp: main_iteration_def split: prod.splits)
  show ?thesis
  proof (cases nx)
    case Continue
    have "s = after_pass knows nx c' s"
      using assms(2-5) Continue by (intro life.equality) (simp_all add: after_pass_def c')
    then show ?thesis by (metis reaches_refl)
  next
    case Return
    have "s\<lparr>lf_main := CloseWs\<rparr> = after_pass knows nx c' s"
      using assms(2-5) Return by (intro life.equality) (simp_all add: after_pass_def c')
    with ping_failed [OF assms(2)] show ?thesis by (rule life_to)
  qed
next
  case MessageIn
  obtain r from1 where recv: "chan_recv (fromWebSocket c) = (r, from1)" by fastforce
  show ?thesis
  proof (cases "r = Returned None")
    case True
    with MessageIn recv assms(1) have c': "c' = c\<lparr>fromWebSocket := from1\<rparr>" "nx = Return" by (simp_all add: main_iteration_def)
    have "life_step waits s Main (s\<lparr>lf_from := from1, lf_main := CloseWs\<rparr>)"
      using recv True assms(2,3) by (intro in_closed) simp_all
    moreover have "s\<lparr>lf_from := from1, lf_main := CloseWs\<rparr> = after_pass knows nx c' s"
      using assms(2-5) by (intro life.equality) (simp_all add: after_pass_def c')
    ultimately show ?thesis by (rule life_to)
  next
    case False
    with MessageIn recv assms(1) obtain m e where m: "chan_recv (lf_from s) = (Returned (Some m), from1)"
      and h: "handleMessage env m (c\<lparr>fromWebSocket := from1\<rparr>) = (Returned e, c')" and nx: "nx = Continue"
      by (auto simp: main_iteration_def assms(3) split: run.splits option.splits prod.splits)
    obtain bs where bs: "\<forall>s. lf_main s = Handling bs \<longrightarrow> lf_to s = toWebSocket c \<longrightarrow>
        life_reaches waits s (s\<lparr>lf_main := Handling [], lf_to := toWebSocket c'\<rparr>)"
      using handled_message [OF h, of waits] by auto
    let ?s1 = "s\<lparr>lf_from := from1, lf_main := Handling bs, lf_registered := (known knows c' \<noteq> {})\<rparr>"
    let ?s2 = "?s1\<lparr>lf_main := Handling [], lf_to := toWebSocket c'\<rparr>"
    have "life_step waits s Main ?s1" by (rule message_in [OF assms(2) m])
    moreover have "life_reaches waits ?s1 ?s2" by (rule bs [rule_format]) (simp_all add: assms(4))
    moreover have "life_step waits ?s2 Main (?s2\<lparr>lf_main := InLoop\<rparr>)" by (rule handled) simp
    ultimately have "life_reaches waits s (?s2\<lparr>lf_main := InLoop\<rparr>)" by (blast intro: life_then reaches_step)
    moreover have "?s2\<lparr>lf_main := InLoop\<rparr> = after_pass knows nx c' s"
      using handled_frame [OF h] nx by (intro life.equality) (simp_all add: after_pass_def)
    ultimately show ?thesis by (rule subst [rotated])
  qed
qed

section \<open>The reading goroutine\<close>

text \<open>One call of \<open>ReadMessage\<close>: what the goroutine does next, and the connection after it.\<close>

definition read_next :: "'w websocket \<Rightarrow> 'w \<Rightarrow> reader_pos \<times> 'w" where
  "read_next ws w =
     (case ws_Read ws w of
        (Inl e, w1) \<Rightarrow> (ReaderStopped, w1)
      | (Inr bs, w1) \<Rightarrow>
          (case MessageFromBytes bs of
             (message, Some parseErr) \<Rightarrow> (Reading, w1)
           | (message, None) \<Rightarrow> (Forwarding message, w1)))"

text \<open>A pass of the loop is such a call and the operation on the queue that follows.\<close>

lemma read_iteration_parts:
  "read_iteration ws c =
     (case read_next ws (cl_ws c) of
        (ReaderStopped, w) \<Rightarrow>
          (case chan_close (fromWebSocket c) of
             (Returned _, from') \<Rightarrow> (Returned Return, c\<lparr>cl_ws := w, fromWebSocket := from'\<rparr>)
           | (Panicked p, _) \<Rightarrow> (Panicked p, c\<lparr>cl_ws := w\<rparr>)
           | (Blocked, _) \<Rightarrow> (Blocked, c\<lparr>cl_ws := w\<rparr>))
      | (Reading, w) \<Rightarrow> (Returned Continue, c\<lparr>cl_ws := w\<rparr>)
      | (Forwarding m, w) \<Rightarrow>
          (case chan_send m (fromWebSocket c) of
             (Returned _, from') \<Rightarrow> (Returned Continue, c\<lparr>cl_ws := w, fromWebSocket := from'\<rparr>)
           | (Panicked p, _) \<Rightarrow> (Panicked p, c\<lparr>cl_ws := w\<rparr>)
           | (Blocked, _) \<Rightarrow> (Blocked, c\<lparr>cl_ws := w\<rparr>)))"
  by (simp add: read_iteration_def read_next_def split: prod.split sum.split option.split)

lemma read_next_closed: "closed_reads_fail ws \<Longrightarrow> \<exists>w'. read_next ws (ws_Close ws w) = (ReaderStopped, w')"
  unfolding closed_reads_fail_def read_next_def by (metis (no_types, lifting) case_prod_conv old.sum.simps(5))

section \<open>The other goroutines\<close>

text \<open>\<open>OnConnect\<close> runs on the goroutine of the handler.\<close>

lemma connect_script_refines:
  "run_script rd k c = (Returned u, c') \<Longrightarrow> lf_handler s = Connecting \<Longrightarrow> lf_to s = toWebSocket c \<Longrightarrow>
   life_reaches waits s (s\<lparr>lf_to := toWebSocket c'\<rparr>)"
proof (induction k arbitrary: c s)
  case (Finish cu)
  then show ?case by (intro life_same_to) auto
next
  case (WriteWS b k)
  then obtain to1 where w: "chan_send b (toWebSocket c) = (Returned (), to1)"
    and rest: "run_script rd k (c\<lparr>toWebSocket := to1\<rparr>) = (Returned u, c')"
    by (auto simp: WriteToWebSocket_def split: prod.splits run.splits)
  have "life_step waits s Handler (s\<lparr>lf_to := to1\<rparr>)" by (rule connect_write [OF WriteWS.prems(2), of b]) (simp add: w WriteWS.prems(3))
  from life_then [OF this] WriteWS.IH [OF rest, of "s\<lparr>lf_to := to1\<rparr>"] WriteWS.prems show ?case by simp
next
  case (DoPublish key msg k)
  obtain g c1 where pub: "Client_Publish rd key msg c = (g, c1)" by fastforce
  with DoPublish.prems obtain e where "g = Ret e" "run_script rd (k e) c1 = (Returned u, c')"
    by (auto simp: Let_def split: go.splits)
  moreover have "toWebSocket c1 = toWebSocket c" using pub by (auto simp: Client_Publish_def split: prod.splits)
  ultimately show ?case using DoPublish.IH [of "k e" c1 s] DoPublish.prems by simp
qed

text \<open>A broadcast sends to the client once for each time its identifier is visited.\<close>

lemma broadcast_refines:
  assumes "broadcast_loop m pool is h = (Returned (), h')" "lf_to s = pc_to (h adr)"
    and "\<exists>i. pool_all pool i = Some adr \<Longrightarrow> lf_pooled s"
  shows "life_reaches waits s (s\<lparr>lf_to := pc_to (h' adr)\<rparr>) \<and> (\<forall>b. pc_id (h' b) = pc_id (h b))"
  using assms
proof (induction "is" arbitrary: h s)
  case Nil
  then show ?case using life_same_to [of s "pc_to (h adr)" waits] by simp
next
  case (Cons i "is")
  show ?case
  proof (cases "pool_all pool i")
    case None
    with Cons.prems have "broadcast_loop m pool is h = (Returned (), h')" by simp
    from Cons.IH [OF this Cons.prems(2,3)] show ?thesis by blast
  next
    case (Some a)
    with Cons.prems(1) obtain q where q: "chan_try_send m (pc_to (h a)) = (Returned (), q)"
      and rest: "broadcast_loop m pool is (set_to a q h) = (Returned (), h')"
      by (auto split: prod.splits run.splits)
    show ?thesis
    proof (cases "a = adr")
      case True
      with Some Cons.prems q have "life_step waits s Pool (s\<lparr>lf_to := q\<rparr>)" by (intro broadcast) auto
      moreover have "life_reaches waits (s\<lparr>lf_to := q\<rparr>) (s\<lparr>lf_to := q\<rparr>\<lparr>lf_to := pc_to (h' adr)\<rparr>) \<and>
          (\<forall>b. pc_id (h' b) = pc_id (set_to a q h b))"
        using True Cons.prems(3) by (intro Cons.IH [OF rest]) simp_all
      ultimately show ?thesis by (auto intro: life_then)
    next
      case False
      with Cons.IH [OF rest, of s] Cons.prems show ?thesis by simp
    qed
  qed
qed

section \<open>A connection\<close>

text \<open>
  One client among others: its own goroutines, the handler that serves it, the agents, goroutines of the
  application, and the pool, each running the functions of the code. \<open>cn_called\<close> are the calls of \<open>Receive\<close>
  that have begun, with their arguments, \<open>cn_sending\<close> what those at their send are sending, \<open>cn_writes\<close>
  the running calls of \<open>WriteToWebSocket\<close>. The client is at address \<open>adr\<close> in the heap the pool works on,
  and the other clients of that heap, and of the agents and the services, do what they like.
\<close>

record ('o, 'm, 'r, 'w, 'a, 'cc) connection =
  cn_client :: "('o, 'm, 'r, 'w, 'a, 'cc) client"
  cn_main :: main_pos
  cn_reader :: reader_pos
  cn_called :: "(string \<times> bytes) multiset"
  cn_sending :: "bytes multiset"
  cn_writes :: "bytes multiset"
  cn_handler :: handler_pos
  cn_pool :: client_pool
  cn_heap :: client_heap

definition pool_heap :: "nat \<Rightarrow> ('o, 'm, 'r, 'w, 'a, 'cc) client \<Rightarrow> client_heap \<Rightarrow> client_heap" where
  "pool_heap adr c h = h(adr := \<lparr>pc_id = cl_id c, pc_to = toWebSocket c\<rparr>)"

text \<open>\<open>ServeHTTP\<close> sends its own client to the pool after \<open>newClient\<close>, and again after \<open>Wait\<close>.\<close>

fun handler_next :: "nat \<Rightarrow> nat \<Rightarrow> handler_pos \<Rightarrow> pool_request \<Rightarrow> handler_pos option" where
  "handler_next adr left pos (AddClient b) =
     (if b \<noteq> adr then Some pos else if pos = PoolAdd then Some Waiting else None)"
| "handler_next adr left pos (RemoveClient b) =
     (if b \<noteq> adr then Some pos else if pos = Waiting \<and> left = 0 then Some Finished else None)"
| "handler_next adr left pos (BroadcastMsg message order) = Some pos"

text \<open>
  The steps. Those of the deferred \<open>Close\<close> are its statements, and whether the agents know the client is
  read off their state. \<open>waits\<close> is as in \<open>Lifecycle\<close>.
\<close>

inductive conn_step :: "('a \<Rightarrow> ID \<Rightarrow> string set) \<Rightarrow> bool \<Rightarrow> ('s, 'c, 'a, 'o, ID, 'cc) node \<Rightarrow>
    ('o, 'd, 'm, 'raw, 'r, 'w, 'a, 'cc) client_env \<Rightarrow> nat \<Rightarrow>
    ('o, 'm, 'r, 'w, 'a, 'cc) connection \<Rightarrow> ('o, 'm, 'r, 'w, 'a, 'cc) connection \<Rightarrow> bool" for knows waits n env adr where
  main_pass: "cn_main k = InLoop \<Longrightarrow> main_iteration env ev (cn_client k) = (Returned nx, c') \<Longrightarrow>
     conn_step knows waits n env adr k (k\<lparr>cn_client := c', cn_main := if nx = Continue then InLoop else CloseWs\<rparr>)"
| close_socket_pass: "cn_main k = CloseWs \<Longrightarrow> \<not> closeOnce (cn_client k) \<Longrightarrow>
     conn_step knows waits n env adr k (k\<lparr>cn_client := Close_socket env (cn_client k), cn_main := Drain\<rparr>)"
| drain_pass: "cn_main k = Drain \<Longrightarrow> chan_recv (fromWebSocket (cn_client k)) = (Returned (Some m), from') \<Longrightarrow>
     conn_step knows waits n env adr k (k\<lparr>cn_client := (cn_client k)\<lparr>fromWebSocket := from'\<rparr>\<rparr>)"
| drained_pass: "cn_main k = Drain \<Longrightarrow> chan_recv (fromWebSocket (cn_client k)) = (Returned None, from') \<Longrightarrow>
     conn_step knows waits n env adr k (k\<lparr>cn_client := (cn_client k)\<lparr>fromWebSocket := from'\<rparr>, cn_main := RemoveAgent\<rparr>)"
| remove_agent_pass: "cn_main k = RemoveAgent \<Longrightarrow> (waits \<Longrightarrow> cn_called k = {#} \<and> cn_sending k = {#}) \<Longrightarrow>
     conn_step knows waits n env adr k (k\<lparr>cn_client := Close_agents env (cn_client k), cn_main := WaitGroupDone\<rparr>)"
| group_done_pass: "cn_main k = WaitGroupDone \<Longrightarrow> Close_done (cn_client k) = (Returned (), c') \<Longrightarrow>
     conn_step knows waits n env adr k (k\<lparr>cn_client := c', cn_main := MainStopped\<rparr>)"
| read_pass: "cn_reader k = Reading \<Longrightarrow> read_next (env_ws env) (cl_ws (cn_client k)) = (pos, w) \<Longrightarrow> pos \<noteq> ReaderStopped \<Longrightarrow>
     conn_step knows waits n env adr k (k\<lparr>cn_client := (cn_client k)\<lparr>cl_ws := w\<rparr>, cn_reader := pos\<rparr>)"
| read_end_pass: "cn_reader k = Reading \<Longrightarrow> read_next (env_ws env) (cl_ws (cn_client k)) = (ReaderStopped, w) \<Longrightarrow>
     chan_close (fromWebSocket (cn_client k)) = (Returned (), from') \<Longrightarrow>
     conn_step knows waits n env adr k
       (k\<lparr>cn_client := (cn_client k)\<lparr>cl_ws := w, fromWebSocket := from'\<rparr>, cn_reader := ReaderStopped\<rparr>)"
| forward_pass: "cn_reader k = Forwarding m \<Longrightarrow> chan_send m (fromWebSocket (cn_client k)) = (Returned (), from') \<Longrightarrow>
     conn_step knows waits n env adr k (k\<lparr>cn_client := (cn_client k)\<lparr>fromWebSocket := from'\<rparr>, cn_reader := Reading\<rparr>)"
| receive_call: "key \<in> known knows (cn_client k) \<Longrightarrow>
     conn_step knows waits n env adr k (k\<lparr>cn_called := add_mset (key, bs) (cn_called k)\<rparr>)"
| receive_skip: "(key, bs) \<in># cn_called k \<Longrightarrow> Receive_message (subscriptions (cn_client k)) bs = None \<Longrightarrow>
     conn_step knows waits n env adr k (k\<lparr>cn_called := cn_called k - {#(key, bs)#}\<rparr>)"
| receive_decide: "(key, bs) \<in># cn_called k \<Longrightarrow> Receive_message (subscriptions (cn_client k)) bs = Some b \<Longrightarrow>
     conn_step knows waits n env adr k
       (k\<lparr>cn_called := cn_called k - {#(key, bs)#}, cn_sending := add_mset b (cn_sending k)\<rparr>)"
| receive_send: "b \<in># cn_sending k \<Longrightarrow> chan_send b (toWebSocket (cn_client k)) = (Returned (), to') \<Longrightarrow>
     conn_step knows waits n env adr k
       (k\<lparr>cn_client := (cn_client k)\<lparr>toWebSocket := to'\<rparr>, cn_sending := cn_sending k - {#b#}\<rparr>)"
| write_call: "conn_step knows waits n env adr k (k\<lparr>cn_writes := add_mset b (cn_writes k)\<rparr>)"
| write_send: "b \<in># cn_writes k \<Longrightarrow> WriteToWebSocket b (cn_client k) = (Returned (), c') \<Longrightarrow>
     conn_step knows waits n env adr k (k\<lparr>cn_client := c', cn_writes := cn_writes k - {#b#}\<rparr>)"
| connect_pass: "cn_handler k = Connecting \<Longrightarrow> connect_custom n env (cn_client k) = (Returned (), c') \<Longrightarrow>
     conn_step knows waits n env adr k (k\<lparr>cn_client := c', cn_handler := PoolAdd\<rparr>)"
| pool_pass: "handler_next adr (waitGroup (cn_client k)) (cn_handler k) req = Some pos \<Longrightarrow>
     pool_step req (cn_pool k) (pool_heap adr (cn_client k) (cn_heap k)) = (Returned (), pool, h) \<Longrightarrow>
     conn_step knows waits n env adr k
       (k\<lparr>cn_client := (cn_client k)\<lparr>toWebSocket := pc_to (h adr)\<rparr>, cn_handler := pos, cn_pool := pool, cn_heap := h\<rparr>)"
| others_pass: "pc_id \<circ> h = pc_id \<circ> cn_heap k \<Longrightarrow> knows a (cl_id (cn_client k)) = known knows (cn_client k) \<Longrightarrow>
     conn_step knows waits n env adr k
       (k\<lparr>cn_client := (cn_client k)\<lparr>cl_agents := a, cl_coll := m, cl_redis := r\<rparr>, cn_heap := h\<rparr>)"

section \<open>Every step of a connection is a run of its life\<close>

text \<open>Identifiers are distinct, and the pool files each client under its own.\<close>

definition pool_knows :: "nat \<Rightarrow> ID \<Rightarrow> handler_pos \<Rightarrow> client_pool \<Rightarrow> client_heap \<Rightarrow> bool" where
  "pool_knows adr i pos pool h \<longleftrightarrow>
     (\<forall>b. b \<noteq> adr \<longrightarrow> pc_id (h b) \<noteq> i) \<and>
     (\<forall>j. pool_all pool j = Some adr \<longrightarrow> j = i) \<and>
     (\<forall>j b. b \<noteq> adr \<longrightarrow> pool_all pool j = Some b \<longrightarrow> j = pc_id (h b)) \<and>
     (pool_all pool i = Some adr \<longleftrightarrow> pos = Waiting)"

lemma pool_knows_cong:
  "(\<And>b. b \<noteq> adr \<Longrightarrow> pc_id (h' b) = pc_id (h b)) \<Longrightarrow> (pos' = Waiting \<longleftrightarrow> pos = Waiting) \<Longrightarrow>
   pool_knows adr i pos pool h \<Longrightarrow> pool_knows adr i pos' pool h'"
  by (auto simp: pool_knows_def split: if_splits)

lemma pool_knows_add_own:
  "pool_knows adr i pos pool h \<Longrightarrow> pool_knows adr i Waiting (pool\<lparr>pool_all := (pool_all pool)(i \<mapsto> adr)\<rparr>) h"
  by (simp add: pool_knows_def)

lemma pool_knows_remove_own:
  "pool_knows adr i pos pool h \<Longrightarrow> pool_knows adr i Finished (pool\<lparr>pool_all := (pool_all pool)(i := None)\<rparr>) h"
  by (simp add: pool_knows_def)

lemma pool_knows_add_other:
  "pool_knows adr i pos pool h \<Longrightarrow> b \<noteq> adr \<Longrightarrow>
   pool_knows adr i pos (pool\<lparr>pool_all := (pool_all pool)(pc_id (h b) \<mapsto> b)\<rparr>) h"
  by (simp add: pool_knows_def) blast

lemma pool_knows_remove_other:
  "pool_knows adr i pos pool h \<Longrightarrow> b \<noteq> adr \<Longrightarrow>
   pool_knows adr i pos (pool\<lparr>pool_all := (pool_all pool)(pc_id (h b) := None)\<rparr>) h"
  by (simp add: pool_knows_def) blast

definition conn_shows :: "('a \<Rightarrow> ID \<Rightarrow> string set) \<Rightarrow> ('o, 'd, 'm, 'raw, 'r, 'w, 'a, 'cc) client_env \<Rightarrow> nat \<Rightarrow>
    ('o, 'm, 'r, 'w, 'a, 'cc) connection \<Rightarrow> life \<Rightarrow> bool" where
  "conn_shows knows env adr k s \<longleftrightarrow>
     lf_main s = cn_main k \<and> lf_reader s = cn_reader k \<and> lf_called s = size (cn_called k) \<and>
     lf_sending s = cn_sending k \<and> lf_writing s = cn_writes k \<and> lf_handler s = cn_handler k \<and>
     lf_registered s = (known knows (cn_client k) \<noteq> {}) \<and> lf_pooled s = (cn_handler k = Waiting) \<and>
     lf_open s = (\<not> closeOnce (cn_client k)) \<and> lf_count s = waitGroup (cn_client k) \<and>
     lf_from s = fromWebSocket (cn_client k) \<and> lf_to s = toWebSocket (cn_client k) \<and>
     closeOnce (cn_client k) = (cn_main k \<in> {Drain, RemoveAgent, WaitGroupDone, MainStopped}) \<and>
     (closeOnce (cn_client k) \<longrightarrow> cn_reader k \<noteq> ReaderStopped \<longrightarrow> (\<exists>w. cl_ws (cn_client k) = ws_Close (env_ws env) w)) \<and>
     pool_knows adr (cl_id (cn_client k)) (cn_handler k) (cn_pool k) (cn_heap k)"

lemma pool_heap_simps [simp]:
  "pool_heap adr c h adr = \<lparr>pc_id = cl_id c, pc_to = toWebSocket c\<rparr>" "b \<noteq> adr \<Longrightarrow> pool_heap adr c h b = h b"
  by (simp_all add: pool_heap_def)

lemma pool_pass_refines:
  assumes "handler_next adr (lf_count s) pos req = Some pos'"
    and "pool_step req pool (pool_heap adr c h) = (Returned (), pool', h')"
    and "lf_to s = toWebSocket c" "lf_handler s = pos" "lf_pooled s = (pos = Waiting)" "pool_knows adr (cl_id c) pos pool h"
  shows "life_reaches waits s (s\<lparr>lf_to := pc_to (h' adr), lf_handler := pos', lf_pooled := (pos' = Waiting)\<rparr>) \<and>
    pool_knows adr (cl_id c) pos' pool' h'"
proof (cases req)
  case (AddClient b)
  show ?thesis
  proof (cases "b = adr")
    case True
    with AddClient assms have pos: "pos = PoolAdd" "pos' = Waiting" "h' = pool_heap adr c h"
        "pool' = pool\<lparr>pool_all := (pool_all pool)(cl_id c \<mapsto> adr)\<rparr>"
      by (auto simp: pool_step_def split: if_splits)
    have "life_step waits s Handler (s\<lparr>lf_pooled := True, lf_handler := Waiting\<rparr>)"
      using pos assms(4) by (intro pool_add) simp
    moreover have "s\<lparr>lf_to := pc_to (h' adr), lf_handler := pos', lf_pooled := (pos' = Waiting)\<rparr> = s\<lparr>lf_pooled := True, lf_handler := Waiting\<rparr>"
      using pos assms(3) by (intro life.equality) simp_all
    moreover have "pool_knows adr (cl_id c) pos' pool' h'"
      unfolding pos(2,4) by (rule pool_knows_cong [OF _ _ pool_knows_add_own [OF assms(6)]]) (simp_all add: pos(3))
    ultimately show ?thesis by (metis reaches_one)
  next
    case False
    with AddClient assms have pos: "pos' = pos" "h' = pool_heap adr c h"
        "pool' = pool\<lparr>pool_all := (pool_all pool)(pc_id (h b) \<mapsto> b)\<rparr>"
      by (auto simp: pool_step_def)
    have "s\<lparr>lf_to := pc_to (h' adr), lf_handler := pos', lf_pooled := (pos' = Waiting)\<rparr> = s"
      using pos assms(3-5) by (intro life.equality) simp_all
    moreover have "pool_knows adr (cl_id c) pos' pool' h'"
      unfolding pos(1,3) by (rule pool_knows_cong [OF _ _ pool_knows_add_other [OF assms(6) False]]) (simp_all add: pos(2))
    ultimately show ?thesis by (metis reaches_refl)
  qed
next
  case (RemoveClient b)
  show ?thesis
  proof (cases "b = adr")
    case True
    with RemoveClient assms(1) have pos: "pos = Waiting" "pos' = Finished" "lf_count s = 0"
      by (auto split: if_splits)
    moreover have "pool_all pool (cl_id c) = Some adr" using assms(6) pos(1) by (simp add: pool_knows_def)
    ultimately obtain q where q: "chan_close (toWebSocket c) = (Returned (), q)" and
        h': "h' = set_to adr q (pool_heap adr c h)" and p': "pool' = pool\<lparr>pool_all := (pool_all pool)(cl_id c := None)\<rparr>"
      using True RemoveClient assms(2) by (auto simp: pool_step_def split: prod.splits run.splits)
    let ?s1 = "s\<lparr>lf_handler := PoolRemove\<rparr>"
    let ?s2 = "?s1\<lparr>lf_to := q, lf_pooled := False, lf_handler := Finished\<rparr>"
    have "life_step waits s Handler ?s1" using pos assms(4) by (intro wait_over) simp_all
    moreover have "life_step waits ?s1 Handler ?s2" using q pos assms(3,5) by (intro pool_remove) simp_all
    moreover have "s\<lparr>lf_to := pc_to (h' adr), lf_handler := pos', lf_pooled := (pos' = Waiting)\<rparr> = ?s2"
      using h' pos by (intro life.equality) simp_all
    moreover have "pool_knows adr (cl_id c) pos' pool' h'"
      unfolding pos(2) p' by (rule pool_knows_cong [OF _ _ pool_knows_remove_own [OF assms(6)]]) (simp_all add: h')
    ultimately show ?thesis by (metis life_then reaches_one)
  next
    case False
    with RemoveClient assms(1,2) have pos: "pos' = pos" "pc_to (h' adr) = toWebSocket c" "\<And>a. pc_id (h' a) = pc_id (pool_heap adr c h a)"
        "pool' = pool\<lparr>pool_all := (pool_all pool)(pc_id (h b) := None)\<rparr>"
      by (auto simp: pool_step_def fun_upd_idem split: if_splits prod.splits run.splits)
    have "s\<lparr>lf_to := pc_to (h' adr), lf_handler := pos', lf_pooled := (pos' = Waiting)\<rparr> = s"
      using pos assms(3-5) by (intro life.equality) simp_all
    moreover have "pool_knows adr (cl_id c) pos' pool' h'"
      unfolding pos(1,4) by (rule pool_knows_cong [OF _ _ pool_knows_remove_other [OF assms(6) False]]) (simp_all add: pos(3))
    ultimately show ?thesis by (metis reaches_refl)
  qed
next
  case (BroadcastMsg m order)
  with assms(1,2) have pos: "pos' = pos" "pool' = pool" and loop: "broadcast_loop m pool order (pool_heap adr c h) = (Returned (), h')"
    by (auto simp: pool_step_def split: prod.splits)
  have member: "pos = Waiting" if "pool_all pool i = Some adr" for i
    using assms(6) that unfolding pool_knows_def by blast
  have "life_reaches waits s (s\<lparr>lf_to := pc_to (h' adr)\<rparr>) \<and> (\<forall>b. pc_id (h' b) = pc_id (pool_heap adr c h b))"
    using assms(3,5) member by (intro broadcast_refines [OF loop]) auto
  moreover have "s\<lparr>lf_to := pc_to (h' adr), lf_handler := pos', lf_pooled := (pos' = Waiting)\<rparr> = s\<lparr>lf_to := pc_to (h' adr)\<rparr>"
    using pos assms(4,5) by (intro life.equality) simp_all
  ultimately show ?thesis using assms(6) pos by (auto intro: pool_knows_cong)
qed

lemma connect_custom_Returned:
  assumes "connect_custom n env c = (Returned (), c')"
  obtains k d where "run_script (env_redis env) k d = (Returned (), c')" "toWebSocket d = toWebSocket c" "kept d = kept c"
    "fromWebSocket d = fromWebSocket c" "cl_agents d = cl_agents c" "cl_ws d = cl_ws c"
  using assms by (auto simp: connect_custom_def kept_def split: go.splits option.splits)

text \<open>A step of the connection whose life is one step, or none.\<close>

lemma shown_by_step: "life_step waits s a s' \<Longrightarrow> P s' \<Longrightarrow> \<exists>s'. life_reaches waits s s' \<and> P s'"
  by (blast intro: reaches_one)

lemma shown_already: "P s \<Longrightarrow> \<exists>s'. life_reaches waits s s' \<and> P s'"
  by (blast intro: reaches_refl)

lemma conn_step_refines:
  assumes "closed_reads_fail (env_ws env)" "\<And>i a. knows (ag_RemoveAgent (env_agents env) i a) i = {}"
  shows "conn_step knows waits n env adr k k' \<Longrightarrow> conn_shows knows env adr k s \<Longrightarrow>
    \<exists>s'. life_reaches waits s s' \<and> conn_shows knows env adr k' s'"
proof (induction rule: conn_step.induct)
  case (main_pass k ev nx c')
  then have "life_reaches waits s (after_pass knows nx c' s)"
    by (intro main_pass_refines [OF main_pass(2)]) (auto simp: conn_shows_def)
  moreover have "kept c' = kept (cn_client k)"
    using main_iteration_kept [of env ev "cn_client k"] main_pass(2) by simp
  ultimately show ?case
    using main_pass(1,3) by (intro exI [of _ "after_pass knows nx c' s"]) (auto simp: conn_shows_def after_pass_def kept_def)
next
  case (close_socket_pass k)
  then show ?case
    by (intro shown_by_step [OF close_ws]) (auto simp: conn_shows_def Close_socket_def)
next
  case (drain_pass k m from')
  then show ?case
    by (intro shown_by_step [OF drain]) (auto simp: conn_shows_def)
next
  case (drained_pass k from')
  then show ?case
    by (intro shown_by_step [OF drained]) (auto simp: conn_shows_def)
next
  case (remove_agent_pass k)
  then show ?case
    by (intro shown_by_step [OF remove_agent]) (auto simp: conn_shows_def Close_agents_def assms(2))
next
  case (group_done_pass k c')
  then show ?case
    by (intro shown_by_step [OF group_done]) (auto simp: conn_shows_def Close_done_def split: if_splits)
next
  case (read_pass k pos w)
  have open_ws: "\<not> closeOnce (cn_client k)"
  proof
    assume "closeOnce (cn_client k)"
    then obtain w0 where "cl_ws (cn_client k) = ws_Close (env_ws env) w0"
      using read_pass(1,4) by (auto simp: conn_shows_def)
    with read_next_closed [OF assms(1), of w0] read_pass(2,3) show False by auto
  qed
  show ?case
  proof (cases pos)
    case Reading
    with read_pass open_ws show ?thesis by (intro shown_already) (auto simp: conn_shows_def)
  next
    case (Forwarding m)
    obtain raw where "MessageFromBytes raw = (m, None)"
      using read_pass(2) Forwarding by (auto simp: read_next_def split: prod.splits sum.splits option.splits)
    then have "life_step waits s Reader (s\<lparr>lf_reader := Forwarding m\<rparr>)"
      using read_pass(1,4) open_ws by (intro read_message) (auto simp: conn_shows_def)
    with Forwarding read_pass open_ws show ?thesis by (intro shown_by_step) (auto simp: conn_shows_def)
  qed (use read_pass in simp)
next
  case (read_end_pass k w from')
  then show ?case
    by (intro shown_by_step [OF read_error]) (auto simp: conn_shows_def)
next
  case (forward_pass k m from')
  then show ?case
    by (intro shown_by_step [OF forward]) (auto simp: conn_shows_def)
next
  case (receive_call key k bs)
  then show ?case
    by (intro shown_by_step [OF agent_call]) (auto simp: conn_shows_def)
next
  case (receive_skip key bs k)
  then obtain q where "cn_called k = add_mset (key, bs) q" by (auto dest: multi_member_split)
  with receive_skip show ?case
    by (intro shown_by_step [OF agent_skip [of _ "size q"]]) (auto simp: conn_shows_def)
next
  case (receive_decide key bs k b)
  then obtain q where "cn_called k = add_mset (key, bs) q" by (auto dest: multi_member_split)
  with receive_decide show ?case
    by (intro shown_by_step [OF agent_decide [of _ "size q" _ b]]) (auto simp: conn_shows_def)
next
  case (receive_send b k to')
  then show ?case
    by (intro shown_by_step [OF agent_sent]) (auto simp: conn_shows_def)
next
  case (write_call k b)
  then show ?case
    by (intro shown_by_step [OF app_call [of _ _ b]]) (auto simp: conn_shows_def)
next
  case (write_send b k c')
  then obtain to' where "chan_send b (toWebSocket (cn_client k)) = (Returned (), to')" "c' = (cn_client k)\<lparr>toWebSocket := to'\<rparr>"
    by (auto simp: WriteToWebSocket_def split: prod.splits)
  with write_send show ?case
    by (intro shown_by_step [OF app_sent]) (auto simp: conn_shows_def)
next
  case (connect_pass k c')
  obtain sc d where d: "run_script (env_redis env) sc d = (Returned (), c')" "toWebSocket d = toWebSocket (cn_client k)"
      "kept d = kept (cn_client k)" "fromWebSocket d = fromWebSocket (cn_client k)" "cl_agents d = cl_agents (cn_client k)"
      "cl_ws d = cl_ws (cn_client k)"
    using connect_custom_Returned [OF connect_pass(2)] .
  have frame: "kept c' = kept (cn_client k)" "fromWebSocket c' = fromWebSocket (cn_client k)"
      "cl_agents c' = cl_agents (cn_client k)" "cl_ws c' = cl_ws (cn_client k)"
    using run_script_kept [of "env_redis env" sc d] run_script_frame(2,3,5) [of "env_redis env" sc d] d by simp_all
  let ?s1 = "s\<lparr>lf_to := toWebSocket c'\<rparr>"
  have "life_reaches waits s ?s1"
    using connect_pass by (intro connect_script_refines [OF d(1)]) (simp_all add: conn_shows_def d(2))
  moreover have "life_step waits ?s1 Handler (?s1\<lparr>lf_handler := PoolAdd\<rparr>)"
    using connect_pass by (intro connected) (simp add: conn_shows_def)
  moreover have "conn_shows knows env adr (k\<lparr>cn_client := c', cn_handler := PoolAdd\<rparr>) (?s1\<lparr>lf_handler := PoolAdd\<rparr>)"
    using connect_pass(1,3) frame by (auto simp: conn_shows_def kept_def intro: pool_knows_cong)
  ultimately show ?case by (blast intro: reaches_step)
next
  case (pool_pass k req pos pool h)
  have sh: "lf_count s = waitGroup (cn_client k)" "lf_to s = toWebSocket (cn_client k)" "lf_handler s = cn_handler k"
      "lf_pooled s = (cn_handler k = Waiting)" "pool_knows adr (cl_id (cn_client k)) (cn_handler k) (cn_pool k) (cn_heap k)"
    using pool_pass(3) by (simp_all add: conn_shows_def)
  from pool_pass_refines [OF pool_pass(1) [folded sh(1)] pool_pass(2) sh(2-5), of waits]
  have "life_reaches waits s (s\<lparr>lf_to := pc_to (h adr), lf_handler := pos, lf_pooled := (pos = Waiting)\<rparr>) \<and>
      pool_knows adr (cl_id (cn_client k)) pos pool h" .
  then show ?case using pool_pass(3)
    by (intro exI [of _ "s\<lparr>lf_to := pc_to (h adr), lf_handler := pos, lf_pooled := (pos = Waiting)\<rparr>"])
      (simp add: conn_shows_def)
next
  case (others_pass h k a m r)
  then have "\<And>b. pc_id (h b) = pc_id (cn_heap k b)" by (metis comp_apply)
  with others_pass(2,3) show ?case
    by (intro shown_already) (auto simp: conn_shows_def intro: pool_knows_cong)
qed

text \<open>The connection when \<open>newClient\<close> has started its goroutines.\<close>

definition conn_init :: "('o, 'm, 'r, 'w, 'a, 'cc) client \<Rightarrow> client_pool \<Rightarrow> client_heap \<Rightarrow> ('o, 'm, 'r, 'w, 'a, 'cc) connection" where
  "conn_init c pool h = \<lparr>cn_client = c, cn_main = InLoop, cn_reader = Reading, cn_called = {#}, cn_sending = {#},
     cn_writes = {#}, cn_handler = Connecting, cn_pool = pool, cn_heap = h\<rparr>"

lemma conn_init_shows:
  assumes "make_client mk coll redis agents ws r = (c, r')" "knows agents (cl_id c) = {}"
    and "\<And>j b. pool_all pool j = Some b \<Longrightarrow> b \<noteq> adr \<and> pc_id (h b) = j" "\<And>b. pc_id (h b) = cl_id c \<Longrightarrow> b = adr"
  shows "conn_shows knows env adr (conn_init c pool h) life_init"
proof -
  have "pool_knows adr (cl_id c) Connecting pool h"
    using assms(3,4) unfolding pool_knows_def by (metis handler_pos.distinct(3))
  moreover have "cl_agents c = agents" "fromWebSocket c = make_chan clientBufferLength" "toWebSocket c = make_chan clientBufferLength"
      "\<not> closeOnce c" "waitGroup c = 1"
    using assms(1) by (auto simp: make_client_def split: prod.splits)
  ultimately show ?thesis using assms(2) by (simp add: conn_shows_def conn_init_def life_init_def)
qed

lemma conn_reaches:
  assumes "closed_reads_fail (env_ws env)" "\<And>i a. knows (ag_RemoveAgent (env_agents env) i a) i = {}"
  shows "(conn_step knows waits n env adr)\<^sup>*\<^sup>* k k' \<Longrightarrow> conn_shows knows env adr k s \<Longrightarrow>
    \<exists>s'. life_reaches waits s s' \<and> conn_shows knows env adr k' s'"
proof (induction rule: rtranclp_induct)
  case base
  then show ?case by (blast intro: reaches_refl)
next
  case (step k1 k2)
  then show ?case using conn_step_refines [OF assms step(2)] by (blast intro: life_trans)
qed

section \<open>Close in one go\<close>

lemma drain_passes:
  "cn_main k = Drain \<Longrightarrow> fromWebSocket (cn_client k) = q \<Longrightarrow>
   (conn_step knows waits n env adr)\<^sup>*\<^sup>* k (k\<lparr>cn_client := (cn_client k)\<lparr>fromWebSocket := q\<lparr>ch_buf := []\<rparr>\<rparr>\<rparr>)"
proof (induction "ch_buf q" arbitrary: q k)
  case Nil
  then have "k\<lparr>cn_client := (cn_client k)\<lparr>fromWebSocket := q\<lparr>ch_buf := []\<rparr>\<rparr>\<rparr> = k" by auto
  then show ?case by simp
next
  case (Cons m ms)
  let ?q = "q\<lparr>ch_buf := ms\<rparr>"
  let ?k = "k\<lparr>cn_client := (cn_client k)\<lparr>fromWebSocket := ?q\<rparr>\<rparr>"
  have "conn_step knows waits n env adr k ?k"
    by (rule drain_pass [OF Cons.prems(1), of m]) (simp add: chan_recv_def Cons.prems(2) Cons.hyps(2) [symmetric])
  moreover have "(conn_step knows waits n env adr)\<^sup>*\<^sup>* ?k (k\<lparr>cn_client := (cn_client k)\<lparr>fromWebSocket := q\<lparr>ch_buf := []\<rparr>\<rparr>\<rparr>)"
    using Cons.hyps(1) [of ?q ?k] Cons.prems by simp
  ultimately show ?case by (rule converse_rtranclp_into_rtranclp)
qed

text \<open>The reader, once the connection is closed: it stops, as \<open>reader_ends\<close> says.\<close>

lemma reader_ends_passes:
  assumes "closed_reads_fail (env_ws env)" "cl_ws (cn_client k) = ws_Close (env_ws env) w"
    and "ch_closed (fromWebSocket (cn_client k)) \<longleftrightarrow> cn_reader k = ReaderStopped" "cn_reader k \<in> {Reading, ReaderStopped}"
  defines "c \<equiv> reader_ends (env_ws env) (cn_client k)"
  shows "(conn_step knows waits n env adr)\<^sup>*\<^sup>* k (k\<lparr>cn_client := c, cn_reader := ReaderStopped\<rparr>) \<and>
    (\<exists>w'. c = (cn_client k)\<lparr>cl_ws := w', fromWebSocket := (fromWebSocket (cn_client k))\<lparr>ch_closed := True\<rparr>\<rparr>)"
proof (cases "cn_reader k = ReaderStopped")
  case True
  with assms(3) have "c = cn_client k" "(fromWebSocket (cn_client k))\<lparr>ch_closed := True\<rparr> = fromWebSocket (cn_client k)"
    by (simp_all add: c_def reader_ends_def)
  moreover have "k\<lparr>cn_client := cn_client k, cn_reader := ReaderStopped\<rparr> = k" using True by (cases k) simp
  ultimately show ?thesis by (intro conjI exI [of _ "cl_ws (cn_client k)"]) simp_all
next
  case False
  let ?q = "(fromWebSocket (cn_client k))\<lparr>ch_closed := True\<rparr>"
  have reading: "cn_reader k = Reading" and op: "\<not> ch_closed (fromWebSocket (cn_client k))" using assms(3,4) False by auto
  obtain e w' where fails: "ws_Read (env_ws env) (cl_ws (cn_client k)) = (Inl e, w')"
    using assms(1,2) by (metis closed_reads_fail_def)
  have c: "c = (cn_client k)\<lparr>cl_ws := w', fromWebSocket := ?q\<rparr>"
    using read_iteration_fails [OF fails op] op by (simp add: c_def reader_ends_def read_loop.simps)
  have "conn_step knows waits n env adr k (k\<lparr>cn_client := c, cn_reader := ReaderStopped\<rparr>)"
    unfolding c by (rule read_end_pass [OF reading]) (use fails op in \<open>simp_all add: read_next_def chan_close_def\<close>)
  with c show ?thesis by auto
qed

text \<open>A call of \<open>Close\<close> that nothing interrupts is a run of these steps.\<close>

lemma Close_passes:
  assumes "closed_reads_fail (env_ws env)" "cn_main k = CloseWs" "\<not> closeOnce (cn_client k)" "0 < waitGroup (cn_client k)"
    and "ch_closed (fromWebSocket (cn_client k)) \<longleftrightarrow> cn_reader k = ReaderStopped" "cn_reader k \<in> {Reading, ReaderStopped}"
    and "waits \<Longrightarrow> cn_called k = {#} \<and> cn_sending k = {#}"
  shows "\<exists>c'. Close env (reader_ends (env_ws env)) (cn_client k) = (Returned (), c') \<and>
    (conn_step knows waits n env adr)\<^sup>*\<^sup>* k (k\<lparr>cn_client := c', cn_main := MainStopped, cn_reader := ReaderStopped\<rparr>)"
proof -
  let ?step = "conn_step knows waits n env adr"
  let ?c1 = "Close_socket env (cn_client k)"
  let ?k1 = "k\<lparr>cn_client := ?c1, cn_main := Drain\<rparr>"
  let ?c2 = "reader_ends (env_ws env) ?c1"
  let ?k2 = "?k1\<lparr>cn_client := ?c2, cn_reader := ReaderStopped\<rparr>"
  have s1: "?step k ?k1" by (rule close_socket_pass [OF assms(2,3)])
  have "?step\<^sup>*\<^sup>* ?k1 (?k1\<lparr>cn_client := reader_ends (env_ws env) (cn_client ?k1), cn_reader := ReaderStopped\<rparr>) \<and>
      (\<exists>w'. reader_ends (env_ws env) (cn_client ?k1) =
        (cn_client ?k1)\<lparr>cl_ws := w', fromWebSocket := (fromWebSocket (cn_client ?k1))\<lparr>ch_closed := True\<rparr>\<rparr>)"
    by (rule reader_ends_passes [OF assms(1)]) (use assms(5,6) in \<open>simp_all add: Close_socket_def\<close>)
  then obtain w' where s2: "?step\<^sup>*\<^sup>* ?k1 ?k2"
    and c2: "?c2 = ?c1\<lparr>cl_ws := w', fromWebSocket := (fromWebSocket ?c1)\<lparr>ch_closed := True\<rparr>\<rparr>" by auto
  let ?q = "(fromWebSocket ?c2)\<lparr>ch_buf := []\<rparr>"
  let ?c3 = "?c2\<lparr>fromWebSocket := ?q\<rparr>"
  let ?k3 = "?k2\<lparr>cn_client := ?c3\<rparr>"
  have s3: "?step\<^sup>*\<^sup>* ?k2 ?k3" using drain_passes [of ?k2 "fromWebSocket ?c2"] by simp
  have q: "chan_recv ?q = (Returned None, ?q)" unfolding c2 by (simp add: chan_recv_def)
  let ?k4 = "?k3\<lparr>cn_client := (cn_client ?k3)\<lparr>fromWebSocket := ?q\<rparr>, cn_main := RemoveAgent\<rparr>"
  have s4: "?step ?k3 ?k4" by (rule drained_pass) (use q in simp_all)
  let ?c5 = "Close_agents env ?c3"
  let ?k5 = "?k4\<lparr>cn_client := Close_agents env (cn_client ?k4), cn_main := WaitGroupDone\<rparr>"
  have s5: "?step ?k4 ?k5" by (rule remove_agent_pass) (use assms(7) in simp_all)
  have "waitGroup ?c2 = waitGroup (cn_client k)" unfolding c2 by (simp add: Close_socket_def)
  then have "waitGroup ?c5 = waitGroup (cn_client k)" by (simp add: Close_agents_def)
  with assms(4) obtain c' where done_call: "Close_done ?c5 = (Returned (), c')" by (simp add: Close_done_def)
  let ?k6 = "?k5\<lparr>cn_client := c', cn_main := MainStopped\<rparr>"
  have s6: "?step ?k5 ?k6" by (rule group_done_pass) (use done_call in simp_all)
  have same: "?k6 = k\<lparr>cn_client := c', cn_main := MainStopped, cn_reader := ReaderStopped\<rparr>" by simp
  have "?step\<^sup>*\<^sup>* k ?k6"
  proof -
    have "?step\<^sup>*\<^sup>* k ?k3" using s1 s2 s3 by (meson converse_rtranclp_into_rtranclp rtranclp_trans)
    moreover have "?step\<^sup>*\<^sup>* ?k3 ?k6" using s4 s5 s6 by (meson rtranclp.rtrancl_refl rtranclp.rtrancl_into_rtrancl)
    ultimately show ?thesis by (rule rtranclp_trans)
  qed
  note run = this [unfolded same]
  have "Close env (reader_ends (env_ws env)) (cn_client k) = (Returned (), c')"
  proof -
    have "drain (fromWebSocket ?c2) = (Returned (), ?q)" unfolding drain_eq c2 by simp
    then show ?thesis using assms(3) done_call by (simp add: Close_def Let_def)
  qed
  with run show ?thesis by blast
qed

section \<open>Properties\<close>

lemma conn_reachable:
  assumes "closed_reads_fail (env_ws env)" "\<And>i a. knows (ag_RemoveAgent (env_agents env) i a) i = {}"
    and "make_client mk coll redis agents ws r = (c, r')" "knows agents (cl_id c) = {}"
    and "\<forall>j b. pool_all pool j = Some b \<longrightarrow> b \<noteq> adr \<and> pc_id (h b) = j" "\<forall>b. pc_id (h b) = cl_id c \<longrightarrow> b = adr"
    and "(conn_step knows waits n env adr)\<^sup>*\<^sup>* (conn_init c pool h) k"
  obtains s where "reachable waits s" "conn_shows knows env adr k s" "life_inv waits s"
proof -
  have "conn_shows knows env adr (conn_init c pool h) life_init"
    using assms(5,6) by (intro conn_init_shows [where knows = knows, OF assms(3,4)]) blast+
  from conn_reaches [OF assms(1,2,7) this] life_inv_reachable that show thesis by blast
qed

text \<open>A connection whose main loop has left can be closed in one go, if nothing is in progress.\<close>

lemma leaving_closes:
  assumes "closed_reads_fail (env_ws env)" "conn_shows knows env adr k s" "life_inv waits s"
    and "cn_main k = CloseWs" "cn_reader k \<in> {Reading, ReaderStopped}" "cn_called k = {#}" "cn_sending k = {#}"
  shows "\<exists>c'. Close env (reader_ends (env_ws env)) (cn_client k) = (Returned (), c') \<and>
    (conn_step knows waits n env adr)\<^sup>*\<^sup>* k (k\<lparr>cn_client := c', cn_main := MainStopped, cn_reader := ReaderStopped\<rparr>)"
  using assms(2-) by (intro Close_passes [OF assms(1,4)]) (simp_all add: conn_shows_def life_inv_def)

text \<open>
  C9: however the passes of the main loop, the steps of the reading goroutine, the calls of \<open>Receive\<close>
  and \<open>WriteToWebSocket\<close>, the statements of \<open>Close\<close>, the handler and the pool interleave on a new
  connection, the state of the client, of the calls in progress, of the handler, of the agents and of the
  pool is one that the life cycle reaches, whether or not \<open>RemoveAgent\<close> waits: in particular the agents
  know the client exactly when the life cycle has it registered. And a call of \<open>Close\<close>, when the main
  loop has left and nothing else is in progress, returns, and is a run of these statements.
\<close>

theorem connection_refines_life:
  assumes "closed_reads_fail (env_ws env)" "\<And>i a. knows (ag_RemoveAgent (env_agents env) i a) i = {}"
    and "make_client mk coll redis agents ws r = (c, r')" "knows agents (cl_id c) = {}"
    and "\<forall>j b. pool_all pool j = Some b \<longrightarrow> b \<noteq> adr \<and> pc_id (h b) = j" "\<forall>b. pc_id (h b) = cl_id c \<longrightarrow> b = adr"
    and "(conn_step knows waits n env adr)\<^sup>*\<^sup>* (conn_init c pool h) k"
  shows "(\<exists>s. reachable waits s \<and> lf_main s = cn_main k \<and> lf_reader s = cn_reader k \<and> lf_handler s = cn_handler k \<and>
      lf_called s = size (cn_called k) \<and> lf_sending s = cn_sending k \<and> lf_writing s = cn_writes k \<and>
      lf_from s = fromWebSocket (cn_client k) \<and> lf_to s = toWebSocket (cn_client k) \<and>
      lf_count s = waitGroup (cn_client k) \<and> lf_open s = (\<not> closeOnce (cn_client k)) \<and>
      lf_registered s = (knows (cl_agents (cn_client k)) (cl_id (cn_client k)) \<noteq> {}) \<and>
      lf_pooled s = (pool_all (cn_pool k) (cl_id (cn_client k)) = Some adr)) \<and>
    (cn_main k = CloseWs \<longrightarrow> cn_reader k \<in> {Reading, ReaderStopped} \<longrightarrow> cn_called k = {#} \<longrightarrow> cn_sending k = {#} \<longrightarrow>
      (\<exists>c'. Close env (reader_ends (env_ws env)) (cn_client k) = (Returned (), c') \<and>
        (conn_step knows waits n env adr)\<^sup>*\<^sup>* (conn_init c pool h)
          (k\<lparr>cn_client := c', cn_main := MainStopped, cn_reader := ReaderStopped\<rparr>)))"
proof (intro conjI impI)
  obtain s where s: "reachable waits s" "conn_shows knows env adr k s" "life_inv waits s" using conn_reachable [where knows = knows, OF assms] .
  from s(2) have "lf_pooled s = (pool_all (cn_pool k) (cl_id (cn_client k)) = Some adr)"
    unfolding conn_shows_def pool_knows_def by blast
  with s(1,2) show "\<exists>s. reachable waits s \<and> lf_main s = cn_main k \<and> lf_reader s = cn_reader k \<and> lf_handler s = cn_handler k \<and>
      lf_called s = size (cn_called k) \<and> lf_sending s = cn_sending k \<and> lf_writing s = cn_writes k \<and>
      lf_from s = fromWebSocket (cn_client k) \<and> lf_to s = toWebSocket (cn_client k) \<and>
      lf_count s = waitGroup (cn_client k) \<and> lf_open s = (\<not> closeOnce (cn_client k)) \<and>
      lf_registered s = (knows (cl_agents (cn_client k)) (cl_id (cn_client k)) \<noteq> {}) \<and>
      lf_pooled s = (pool_all (cn_pool k) (cl_id (cn_client k)) = Some adr)"
    by (intro exI [of _ s]) (simp add: conn_shows_def)
  assume "cn_main k = CloseWs" "cn_reader k \<in> {Reading, ReaderStopped}" "cn_called k = {#}" "cn_sending k = {#}"
  from leaving_closes [OF assms(1) s(2,3) this, of n]
  obtain c' where "Close env (reader_ends (env_ws env)) (cn_client k) = (Returned (), c')"
    and run: "(conn_step knows waits n env adr)\<^sup>*\<^sup>* k (k\<lparr>cn_client := c', cn_main := MainStopped, cn_reader := ReaderStopped\<rparr>)"
    by blast
  with rtranclp_trans [OF assms(7) run] show "\<exists>c'. Close env (reader_ends (env_ws env)) (cn_client k) = (Returned (), c') \<and>
      (conn_step knows waits n env adr)\<^sup>*\<^sup>* (conn_init c pool h)
        (k\<lparr>cn_client := c', cn_main := MainStopped, cn_reader := ReaderStopped\<rparr>)"
    by blast
qed

text \<open>A connection whose browser is gone: it connects, is pooled, and leaves at the first ping.\<close>

definition gone_env :: "(entity, entity_diff, (string \<times> entity) list, entity, mem_db, bytes list, string list, unit) client_env" where
  "gone_env = demo_env\<lparr>env_ws := frame_socket\<rparr>"

definition gone_node :: "(unit, unit, string list, entity, ID, unit) node" where
  "gone_node = \<lparr>mongoSession = (), redisPool = \<lparr>MaxIdle = 100, IdleTimeout = 240, pool_Dial = (\<lambda>_. Ret ())\<rparr>,
     redisAgents = [], newContainer = None, newClientFn = Some (\<lambda>_. Some ())\<rparr>"

definition gone_client :: "(entity, (string \<times> entity) list, mem_db, bytes list, string list, unit) client" where
  "gone_client = fst (make_client creator [] mem_empty [] [] demo_rand)"

definition gone_heap :: client_heap where
  "gone_heap = (\<lambda>b. \<lparr>pc_id = (if b = 0 then cl_id gone_client else CHR ''x'' # cl_id gone_client), pc_to = make_chan 0\<rparr>)"

text \<open>The agents of the examples are one list of keys.\<close>

definition listed :: "string list \<Rightarrow> ID \<Rightarrow> string set" where
  "listed a i = set a"

lemma gone_client_made: "make_client creator [] mem_empty [] [] demo_rand = (gone_client, snd (NewID demo_rand))"
  by (simp add: gone_client_def make_client_def case_prod_unfold Let_def)

lemma gone_fields:
  "fromWebSocket gone_client = make_chan clientBufferLength" "toWebSocket gone_client = make_chan clientBufferLength"
  "closeOnce gone_client = False" "waitGroup gone_client = 1" "cl_ws gone_client = []"
  by (simp_all add: gone_client_def make_client_def case_prod_unfold Let_def)

lemma gone_assumptions:
  "closed_reads_fail (env_ws gone_env)" "listed (ag_RemoveAgent (env_agents gone_env) i a) i = {}" "listed [] j = {}"
  "\<forall>j b. pool_all newClientPool j = Some b \<longrightarrow> b \<noteq> 0 \<and> pc_id (gone_heap b) = j"
  "\<forall>b. pc_id (gone_heap b) = cl_id gone_client \<longrightarrow> b = 0"
  by (simp_all add: closed_reads_fail_def gone_env_def frame_socket_def demo_env_def listed_def newClientPool_def gone_heap_def)

text \<open>The connection before \<open>Close\<close>.\<close>

lemma gone_run:
  "\<exists>k. (conn_step listed waits gone_node gone_env 0)\<^sup>*\<^sup>* (conn_init gone_client newClientPool gone_heap) k \<and>
     cn_main k = CloseWs \<and> cn_reader k = Reading \<and> cn_called k = {#} \<and> cn_sending k = {#} \<and> cn_handler k = Waiting"
proof -
  let ?step = "conn_step listed waits gone_node gone_env 0"
  let ?k0 = "conn_init gone_client newClientPool gone_heap"
  let ?c1 = "gone_client\<lparr>cl_custom := Some ()\<rparr>"
  let ?k1 = "?k0\<lparr>cn_client := ?c1, cn_handler := PoolAdd\<rparr>"
  have s1: "?step ?k0 ?k1"
    by (rule connect_pass)
      (simp_all add: conn_init_def connect_custom_def NewClient_def gone_node_def gone_env_def demo_env_def)
  obtain p h where pool: "pool_step (AddClient 0) (cn_pool ?k1) (pool_heap 0 (cn_client ?k1) (cn_heap ?k1)) = (Returned (), p, h)"
    by (simp add: pool_step_def conn_init_def)
  let ?k2 = "?k1\<lparr>cn_client := (cn_client ?k1)\<lparr>toWebSocket := pc_to (h 0)\<rparr>, cn_handler := Waiting, cn_pool := p, cn_heap := h\<rparr>"
  have s2: "?step ?k1 ?k2" by (rule pool_pass [OF _ pool]) simp
  let ?k3 = "?k2\<lparr>cn_client := cn_client ?k2, cn_main := if Return = Continue then InLoop else CloseWs\<rparr>"
  have s3: "?step ?k2 ?k3"
    by (rule main_pass [where ev = Ping]) (simp_all add: conn_init_def main_iteration_def gone_env_def frame_socket_def gone_fields)
  have "?step\<^sup>*\<^sup>* ?k0 ?k3"
    using s1 s2 s3 by (meson rtranclp.rtrancl_refl rtranclp.rtrancl_into_rtrancl)
  moreover have "cn_main ?k3 = CloseWs \<and> cn_reader ?k3 = Reading \<and> cn_called ?k3 = {#} \<and> cn_sending ?k3 = {#} \<and> cn_handler ?k3 = Waiting"
    by (simp add: conn_init_def)
  ultimately show ?thesis by blast
qed

lemma connection_refines_life_witness:
  "\<exists>s. reachable True s \<and> lf_main s = CloseWs \<and> lf_handler s = Waiting"
proof -
  obtain k where k: "(conn_step listed True gone_node gone_env 0)\<^sup>*\<^sup>* (conn_init gone_client newClientPool gone_heap) k"
    "cn_main k = CloseWs" "cn_handler k = Waiting" using gone_run by blast
  from connection_refines_life [where knows = listed, OF gone_assumptions(1) gone_assumptions(2) gone_client_made gone_assumptions(3) gone_assumptions(4,5) k(1)] k(2,3)
  show ?thesis by auto
qed

lemma gone_closed:
  "\<exists>k. (conn_step listed waits gone_node gone_env 0)\<^sup>*\<^sup>* (conn_init gone_client newClientPool gone_heap) k \<and>
     cn_main k = MainStopped \<and> cn_handler k = Waiting"
proof -
  obtain k where k: "(conn_step listed waits gone_node gone_env 0)\<^sup>*\<^sup>* (conn_init gone_client newClientPool gone_heap) k"
    "cn_main k = CloseWs" "cn_reader k = Reading" "cn_called k = {#}" "cn_sending k = {#}" "cn_handler k = Waiting"
    using gone_run by blast
  obtain s where s: "conn_shows listed gone_env 0 k s" "life_inv waits s"
    using conn_reachable [where knows = listed, OF gone_assumptions(1) gone_assumptions(2) gone_client_made gone_assumptions(3) gone_assumptions(4,5) k(1)] by blast
  obtain c' where "(conn_step listed waits gone_node gone_env 0)\<^sup>*\<^sup>* k (k\<lparr>cn_client := c', cn_main := MainStopped, cn_reader := ReaderStopped\<rparr>)"
    using leaving_closes [OF gone_assumptions(1) s k(2) _ k(4,5)] k(3) by blast
  with k(1) have "(conn_step listed waits gone_node gone_env 0)\<^sup>*\<^sup>* (conn_init gone_client newClientPool gone_heap)
      (k\<lparr>cn_client := c', cn_main := MainStopped, cn_reader := ReaderStopped\<rparr>)" by (rule rtranclp_trans)
  moreover have "cn_handler (k\<lparr>cn_client := c', cn_main := MainStopped, cn_reader := ReaderStopped\<rparr>) = Waiting" using k(6) by simp
  ultimately show ?thesis by (metis connection.select_convs(2) connection.surjective connection.update_convs(1,2,3))
qed

lemma Receive_open: "\<not> ch_closed to \<Longrightarrow> fst (Receive subs key bs to) \<noteq> Panicked p"
  by (auto simp: Receive_def Let_def chan_send_def split: option.split)

text \<open>
  C10: on a new connection, in every interleaving, whether or not \<open>RemoveAgent\<close> waits for a running
  \<open>Receive\<close>: a \<open>Receive\<close> that the agents begin, the reading goroutine, the deferred \<open>Close\<close>, which
  makes the agents forget the client, the release of the wait group and the handler's removal from the
  pool do not panic; the buffers keep their bounds; and the queue of outgoing messages is closed only
  when the main loop has stopped, the agents do not know the client and the handler is finished. A
  \<open>Receive\<close> that is running then can panic only if \<open>RemoveAgent\<close> does not wait.
\<close>

theorem connection_calls_safe:
  assumes "closed_reads_fail (env_ws env)" "\<And>i a. knows (ag_RemoveAgent (env_agents env) i a) i = {}"
    and "make_client mk coll redis agents ws r = (c, r')" "knows agents (cl_id c) = {}"
    and "\<forall>j b. pool_all pool j = Some b \<longrightarrow> b \<noteq> adr \<and> pc_id (h b) = j" "\<forall>b. pc_id (h b) = cl_id c \<longrightarrow> b = adr"
    and "(conn_step knows waits n env adr)\<^sup>*\<^sup>* (conn_init c pool h) k"
  defines "client \<equiv> cn_client k"
  shows "(knows (cl_agents client) (cl_id client) \<noteq> {} \<longrightarrow> fst (Receive (subscriptions client) key bs (toWebSocket client)) \<noteq> Panicked p) \<and>
    (b \<in># cn_sending k \<longrightarrow> fst (chan_send b (toWebSocket client)) = Panicked p \<longrightarrow> \<not> waits) \<and>
    (cn_reader k = Reading \<longrightarrow> fst (read_iteration (env_ws env) client) \<noteq> Panicked p) \<and>
    (cn_reader k = Forwarding m \<longrightarrow> fst (chan_send m (fromWebSocket client)) \<noteq> Panicked p) \<and>
    (cn_main k = CloseWs \<longrightarrow> (\<exists>c'. Close env (reader_ends (env_ws env)) client = (Returned (), c') \<and> knows (cl_agents c') (cl_id c') = {})) \<and>
    (cn_main k = WaitGroupDone \<longrightarrow> fst (Close_done client) = Returned ()) \<and>
    (cn_handler k = Waiting \<longrightarrow>
       fst (pool_step (RemoveClient adr) (cn_pool k) (pool_heap adr client (cn_heap k))) = Returned ()) \<and>
    length (ch_buf (toWebSocket client)) \<le> clientBufferLength \<and> length (ch_buf (fromWebSocket client)) \<le> clientBufferLength \<and>
    (ch_closed (toWebSocket client) \<longrightarrow> cn_main k = MainStopped \<and> knows (cl_agents client) (cl_id client) = {} \<and>
       cn_handler k = Finished \<and> (waits \<longrightarrow> cn_called k = {#} \<and> cn_sending k = {#}))"
proof -
  obtain s where s: "conn_shows knows env adr k s" "life_inv waits s" using conn_reachable [where knows = knows, OF assms(1-7)] by blast
  have to: "ch_closed (toWebSocket client) \<Longrightarrow> cn_main k = MainStopped \<and> knows (cl_agents client) (cl_id client) = {} \<and>
       cn_handler k = Finished \<and> (waits \<longrightarrow> cn_called k = {#} \<and> cn_sending k = {#})"
    using s by (auto simp: conn_shows_def life_inv_def client_def)
  have sending: "\<not> waits" if "b \<in># cn_sending k" "fst (chan_send b (toWebSocket client)) = Panicked p"
    using that to by (auto simp: chan_send_def split: if_splits)
  have lens: "length (ch_buf (toWebSocket client)) \<le> clientBufferLength" "length (ch_buf (fromWebSocket client)) \<le> clientBufferLength"
    using s by (auto simp: conn_shows_def life_inv_def chan_ok_def client_def)
  have from_open: "\<not> ch_closed (fromWebSocket client)" if "cn_reader k \<noteq> ReaderStopped"
    using s that by (simp add: conn_shows_def life_inv_def client_def)
  have read: "fst (read_iteration (env_ws env) client) \<noteq> Panicked p" if "cn_reader k = Reading"
    using from_open that by (simp add: read_iteration_def chan_close_def chan_send_def split: prod.split sum.split option.split)
  have forward: "fst (chan_send m (fromWebSocket client)) \<noteq> Panicked p" if "cn_reader k = Forwarding m"
    using from_open that by (simp add: chan_send_def)
  have close: "\<exists>c'. Close env (reader_ends (env_ws env)) client = (Returned (), c') \<and> knows (cl_agents c') (cl_id c') = {}"
    if "cn_main k = CloseWs"
  proof -
    have "\<not> closeOnce client" "0 < waitGroup client"
      using s that by (simp_all add: conn_shows_def life_inv_def client_def)
    from Close_open [OF assms(1) this] show ?thesis by (auto simp: assms(2))
  qed
  have group: "fst (Close_done client) = Returned ()" if "cn_main k = WaitGroupDone"
    using s that by (simp add: conn_shows_def life_inv_def Close_done_def client_def)
  have pool: "fst (pool_step (RemoveClient adr) (cn_pool k) (pool_heap adr client (cn_heap k))) = Returned ()"
    if "cn_handler k = Waiting"
  proof -
    have "pool_all (cn_pool k) (cl_id client) = Some adr"
      using s(1) that unfolding conn_shows_def pool_knows_def client_def by blast
    moreover have "\<not> ch_closed (toWebSocket client)" using to that by auto
    ultimately show ?thesis by (simp add: pool_step_def chan_close_def)
  qed
  have receive: "fst (Receive (subscriptions client) key bs (toWebSocket client)) \<noteq> Panicked p"
    if "knows (cl_agents client) (cl_id client) \<noteq> {}"
    using to that Receive_open by metis
  show ?thesis by (intro conjI impI receive sending read forward close group pool lens) (use to in auto)
qed

lemma connection_calls_safe_witness:
  "\<exists>k. (conn_step listed False gone_node gone_env 0)\<^sup>*\<^sup>* (conn_init gone_client newClientPool gone_heap) k \<and> cn_main k = MainStopped \<and>
     fst (pool_step (RemoveClient 0) (cn_pool k) (pool_heap 0 (cn_client k) (cn_heap k))) = Returned ()"
proof -
  obtain k where k: "(conn_step listed False gone_node gone_env 0)\<^sup>*\<^sup>* (conn_init gone_client newClientPool gone_heap) k"
    "cn_main k = MainStopped" "cn_handler k = Waiting" using gone_closed by blast
  from connection_calls_safe [where knows = listed, OF gone_assumptions(1) gone_assumptions(2) gone_client_made gone_assumptions(3) gone_assumptions(4,5) k(1)] k
  show ?thesis by auto
qed

end
