(* ===== verification/Replica.thy ===== *)
theory Replica
  imports Client_Lemmas Examples
begin

text \<open>
  What all of this is for: the objects a browser holds are the stored objects of the keys it is
  subscribed to. The browser is not part of the repository; \<open>browser\<close> is the specification of
  what the messages mean to it (an add message creates or replaces an object, a mod message merges the
  diff, and drops the object when it names a new key that the browser is not subscribed to, a rem
  message removes it). The theorems show that the messages which \<open>MongoSynk\<close> publishes and
  \<open>Receive\<close> lets through keep the replica exact.
\<close>

section \<open>The browser\<close>

record view =
  vw_fields :: "string \<rightharpoonup> json"
  vw_key :: string
  vw_version :: "json option"

type_synonym cache = "string \<rightharpoonup> view"

fun jstring :: "json option \<Rightarrow> string option" where
  "jstring (Some (JStr s)) = Some s"
| "jstring _ = None"

definition browser_message :: "(string \<rightharpoonup> bool) \<Rightarrow> (string \<rightharpoonup> json) \<Rightarrow> string \<Rightarrow> string \<Rightarrow> cache \<Rightarrow> cache" where
  "browser_message subs f method i cache =
     (if method = ''add'' then
        (case (f ''state'', jstring (f ''sKey'')) of
           (Some state, Some k) \<Rightarrow> cache(i \<mapsto> \<lparr>vw_fields = json_fields state, vw_key = k, vw_version = f ''v''\<rparr>)
         | _ \<Rightarrow> cache)
      else if method = ''mod'' then
        (case (cache i, f ''diff'') of
           (Some view, Some diff) \<Rightarrow>
             (let k = (case jstring (f ''nsKey'') of Some k \<Rightarrow> k | None \<Rightarrow> vw_key view)
              in if subs k = None then cache(i := None)
                 else cache(i \<mapsto> \<lparr>vw_fields = vw_fields view ++ json_fields diff, vw_key = k, vw_version = f ''v''\<rparr>))
         | _ \<Rightarrow> cache)
      else if method = ''rem'' then cache(i := None)
      else cache)"

definition browser :: "(string \<rightharpoonup> bool) \<Rightarrow> bytes \<Rightarrow> cache \<Rightarrow> cache" where
  "browser subs b cache =
     (case json_parse b of
        Some (JObj ms) \<Rightarrow>
          (case (jstring (map_of ms ''method''), jstring (map_of ms ''id'')) of
             (Some method, Some i) \<Rightarrow> browser_message subs (map_of ms) method i cache
           | _ \<Rightarrow> cache)
      | _ \<Rightarrow> cache)"

section \<open>The exact replica\<close>

definition state_fields :: "('o, 'd) object_ops \<Rightarrow> 'o \<Rightarrow> string \<rightharpoonup> json" where
  "state_fields ops x = (case obj_MarshalDiff ops (obj_State ops x) of Inr j \<Rightarrow> json_fields j | Inl e \<Rightarrow> Map.empty)"

definition view_of :: "('o, 'd) object_ops \<Rightarrow> 'o \<Rightarrow> view" where
  "view_of ops x = \<lparr>vw_fields = state_fields ops x, vw_key = obj_GetPrevSubKey ops x,
     vw_version = Some (juint (obj_Version ops x))\<rparr>"

definition replica :: "('o, 'd) object_ops \<Rightarrow> (string \<rightharpoonup> 'o) \<Rightarrow> (string \<rightharpoonup> bool) \<Rightarrow> cache" where
  "replica ops D subs i =
     (case D i of
        None \<Rightarrow> None
      | Some x \<Rightarrow> if subs (obj_GetPrevSubKey ops x) = None then None else Some (view_of ops x))"

lemma replica_update:
  "replica ops (D(i \<mapsto> x)) subs =
     (replica ops D subs)(i := if subs (obj_GetPrevSubKey ops x) = None then None else Some (view_of ops x))"
  by (simp add: replica_def fun_eq_iff)

lemma replica_delete: "replica ops (D(i := None)) subs = (replica ops D subs)(i := None)"
  by (simp add: replica_def fun_eq_iff)

section \<open>Reading the messages\<close>

text \<open>Objects whose texts can be encoded: valid UTF-8 throughout, well-formed field values.\<close>

definition encodable :: "('o, 'd) object_ops \<Rightarrow> 'o \<Rightarrow> bool" where
  "encodable ops x \<longleftrightarrow> valid_utf8 (obj_TagGetID ops x) \<and> valid_utf8 (obj_TypeKey ops x) \<and>
     valid_utf8 (obj_GetSubKey ops x) \<and> valid_utf8 (obj_GetPrevSubKey ops x) \<and>
     (\<forall>j. obj_MarshalDiff ops (obj_State ops x) = Inr j \<longrightarrow> wf_json j) \<and>
     (\<forall>j. obj_MarshalDiff ops (fst (obj_Resolve ops x)) = Inr j \<longrightarrow> wf_json j) \<and>
     (\<forall>j. obj_MarshalDiff ops (obj_State ops (snd (obj_Resolve ops x))) = Inr j \<longrightarrow> wf_json j)"

lemma message_names_valid:
  "valid_utf8 ''method''" "valid_utf8 ''state''" "valid_utf8 ''id''" "valid_utf8 ''sKey''" "valid_utf8 ''psKey''"
  "valid_utf8 ''v''" "valid_utf8 ''t''" "valid_utf8 ''diff''" "valid_utf8 ''nsKey''" "valid_utf8 ''add''"
  "valid_utf8 ''mod''" "valid_utf8 ''rem''"
  by code_simp+

lemma browser_add:
  assumes "marshal (addMsg_json ops m) = Inr b" "obj_MarshalDiff ops (add_State m) = Inr j" "wf_json j"
    and "valid_utf8 (add_ID m)" "valid_utf8 (add_SKey m)" "valid_utf8 (add_PSKey m)" "valid_utf8 (add_Type m)"
  shows "browser subs b cache =
    cache(add_ID m \<mapsto> \<lparr>vw_fields = json_fields j, vw_key = add_SKey m, vw_version = Some (juint (add_Version m))\<rparr>)"
proof -
  let ?ms = "omitempty [(''method'', Some addMethod_json), (''state'', Some j), (''id'', Some (JStr (add_ID m))),
       (''sKey'', Some (JStr (add_SKey m))), (''psKey'', nonempty (add_PSKey m)),
       (''v'', Some (juint (add_Version m))), (''t'', Some (JStr (add_Type m)))]"
  have b: "b = render (JObj ?ms)" using assms(1,2) by (simp add: addMsg_json_def del: render.simps omitempty.simps)
  have "wf_json (JObj ?ms)"
    using assms(3-) message_names_valid by (simp add: nonempty_def addMethod_json_def del: valid_utf8.simps)
  then have "json_parse b = Some (JObj ?ms)" unfolding b by (rule parse_render)
  then show ?thesis by (simp add: browser_def browser_message_def nonempty_def addMethod_json_def)
qed

lemma browser_mod_eq:
  assumes "marshal (modMsg_json ops m) = Inr b" "obj_MarshalDiff ops (mod_Diff m) = Inr j" "wf_json j"
    and "valid_utf8 (mod_ID m)" "valid_utf8 (mod_SKey m)" "valid_utf8 (mod_NSKey m)"
  shows "browser subs b cache =
    (case cache (mod_ID m) of
       None \<Rightarrow> cache
     | Some view \<Rightarrow>
         (let k = (if mod_NSKey m = '''' then vw_key view else mod_NSKey m)
          in cache(mod_ID m := if subs k = None then None
             else Some \<lparr>vw_fields = vw_fields view ++ json_fields j, vw_key = k, vw_version = Some (juint (mod_Version m))\<rparr>)))"
proof -
  let ?ms = "omitempty [(''method'', Some modMethod_json), (''diff'', Some j), (''id'', Some (JStr (mod_ID m))),
       (''v'', Some (juint (mod_Version m))), (''sKey'', Some (JStr (mod_SKey m))),
       (''nsKey'', nonempty (mod_NSKey m))]"
  have b: "b = render (JObj ?ms)" using assms(1,2) by (simp add: modMsg_json_def del: render.simps omitempty.simps)
  have "wf_json (JObj ?ms)"
    using assms(3-6) message_names_valid by (simp add: nonempty_def modMethod_json_def del: valid_utf8.simps)
  then have "json_parse b = Some (JObj ?ms)" unfolding b by (rule parse_render)
  then show ?thesis
    by (cases "cache (mod_ID m)"; cases "mod_NSKey m = []")
      (simp_all add: browser_def browser_message_def nonempty_def modMethod_json_def Let_def)
qed

lemma browser_mod:
  assumes "marshal (modMsg_json ops m) = Inr b" "obj_MarshalDiff ops (mod_Diff m) = Inr j" "wf_json j"
    and "valid_utf8 (mod_ID m)" "valid_utf8 (mod_SKey m)" "valid_utf8 (mod_NSKey m)" "cache (mod_ID m) = Some view"
    and k_def: "k = (if mod_NSKey m = '''' then vw_key view else mod_NSKey m)"
  shows "browser subs b cache = cache(mod_ID m :=
    if subs k = None then None
    else Some \<lparr>vw_fields = vw_fields view ++ json_fields j, vw_key = k, vw_version = Some (juint (mod_Version m))\<rparr>)"
  unfolding browser_mod_eq [OF assms(1-6)] assms(7) k_def by (simp add: Let_def)

lemma browser_rem:
  assumes "marshal (remMsg_json m) = Inr b" "valid_utf8 (rem_ID m)" "valid_utf8 (rem_SKey m)" "valid_utf8 (rem_Type m)"
  shows "browser subs b cache = cache(rem_ID m := None)"
proof -
  let ?ms = "[(''method'', remMethod_json), (''sKey'', JStr (rem_SKey m)), (''t'', JStr (rem_Type m)), (''id'', JStr (rem_ID m))]"
  have b: "b = render (JObj ?ms)" using assms(1) by (simp add: remMsg_json_def del: render.simps)
  have "wf_json (JObj ?ms)" using assms(2-) message_names_valid by (simp add: remMethod_json_def del: valid_utf8.simps)
  then have "json_parse b = Some (JObj ?ms)" unfolding b by (rule parse_render)
  then show ?thesis by (simp add: browser_def browser_message_def remMethod_json_def)
qed

section \<open>The operations\<close>

text \<open>The messages of an operation, delivered to one client and passed on to its browser.\<close>

definition updated :: "(string \<rightharpoonup> bool) \<Rightarrow> redis_db \<Rightarrow> redis_db \<Rightarrow> cache \<Rightarrow> cache" where
  "updated subs d d' cache =
     fold (browser subs) (ch_buf (deliver_all subs (published_since d d') (make_chan clientBufferLength))) cache"

text \<open>The document of an object shows what its clients know about it.\<close>

definition synced :: "('o, 'd) object_ops \<Rightarrow> (string \<rightharpoonup> 'o) \<Rightarrow> 'o \<Rightarrow> bool" where
  "synced ops D x \<longleftrightarrow> (\<exists>y. D (obj_TagGetID ops x) = Some y \<and> view_of ops y = view_of ops x)"

text \<open>
  A move that can be announced: the old key has no brace, which would end the header, and the new
  key is not empty, which a mod message shows as no move.
\<close>

definition announceable :: "('o, 'd) object_ops \<Rightarrow> 'o \<Rightarrow> bool" where
  "announceable ops x \<longleftrightarrow> CHR ''{'' \<notin> set (obj_GetPrevSubKey ops x) \<and>
     (obj_GetSubKey ops x = obj_GetPrevSubKey ops x \<or> obj_GetSubKey ops x \<noteq> '''')"

lemma fresh_room: "room 2 (make_chan clientBufferLength)" "room 1 (make_chan clientBufferLength)"
    "ch_buf (make_chan clientBufferLength) = []"
  by (simp_all add: room_def make_chan_def clientBufferLength_def)

lemma synced_replica:
  "synced ops D x \<Longrightarrow> replica ops D subs (obj_TagGetID ops x) =
     (if subs (obj_GetPrevSubKey ops x) = None then None else Some (view_of ops x))"
  by (auto simp: synced_def replica_def view_of_def)

context stored_object
begin

lemma stored_view: "view_of ops (stored x) = view_of ops x"
  by (simp add: view_of_def state_fields_def stored_state stored_prev version stored_tag)

lemma Modify_replica:
  assumes "redis_behaves rd db" "mongo_behaves ops tag_of mk stored mg docs"
    and "MongoSynk_Modify ops mg rd s = (Ret v, s')"
  defines "x \<equiv> ms_obj s"
  assumes "synced ops (docs (ms_mongo s)) x" "encodable ops x" "announceable ops x"
  shows "updated subs (db (ms_redis s)) (db (ms_redis s')) (replica ops (docs (ms_mongo s)) subs) =
    replica ops (docs (ms_mongo s')) subs"
proof -
  let ?i = "obj_TagGetID ops x" and ?p = "obj_GetPrevSubKey ops x" and ?n = "obj_GetSubKey ops x"
  let ?y = "modified_obj ops x" and ?R = "replica ops (docs (ms_mongo s)) subs"
  obtain js jd js' where js: "obj_MarshalDiff ops (obj_State ops x) = Inr js"
    and jd: "obj_MarshalDiff ops (fst (obj_Resolve ops x)) = Inr jd"
    and js': "obj_MarshalDiff ops (obj_State ops (snd (obj_Resolve ops x))) = Inr js'"
    and merge: "json_fields js' = json_fields js ++ json_fields jd"
    using resolve_merge by blast
  have valid: "valid_utf8 ?i" "valid_utf8 ?p" "valid_utf8 ?n" "valid_utf8 (obj_TypeKey ops x)" "wf_json jd" "wf_json js'"
    using assms(6) jd js' by (auto simp: encodable_def)
  have brace: "CHR ''{'' \<notin> set (obj_GetPrevSubKey ops (ms_obj s))" using assms(7) by (simp add: announceable_def x_def)
  obtain m a where m: "marshal (modMsg_json ops (mod_msg_of ops x)) = Inr m"
    and a: "marshal (addMsg_json ops (add_msg_of ops ?y ?p (obj_TypeKey ops x))) = Inr a"
    and del: "deliver_all subs (published_since (db (ms_redis s)) (db (ms_redis s'))) (make_chan clientBufferLength) =
      queued (modify_delivery subs ?p ?n m a) (make_chan clientBufferLength)"
    using Modify_delivered [OF assms(1-3) brace fresh_room(1)] unfolding x_def by blast
  have D': "docs (ms_mongo s') = (docs (ms_mongo s))(?i \<mapsto> stored ?y)"
    using Modify_Ret [OF assms(1-3)] unfolding x_def by simp
  have R': "replica ops (docs (ms_mongo s')) subs = ?R(?i := if subs ?n = None then None else
      Some \<lparr>vw_fields = json_fields js', vw_key = ?n, vw_version = Some (juint (obj_Version ops x + 1))\<rparr>)"
    by (simp add: D' replica_update stored_view stored_prev modified_keys)
      (simp add: view_of_def state_fields_def modified_frame modified_keys js')
  have R: "?R ?i = (if subs ?p = None then None else Some (view_of ops x))"
    by (rule synced_replica [OF assms(5)])
  have "fold (browser subs) (modify_delivery subs ?p ?n m a) ?R = replica ops (docs (ms_mongo s')) subs"
  proof (cases "subs ?p = None")
    case False
    have msg: "mod_ID (mod_msg_of ops x) = ?i" "mod_SKey (mod_msg_of ops x) = ?p" "mod_Diff (mod_msg_of ops x) = fst (obj_Resolve ops x)"
        "mod_Version (mod_msg_of ops x) = obj_Version ops x + 1" "mod_NSKey (mod_msg_of ops x) = (if ?n = ?p then '''' else ?n)"
      by (simp_all add: mod_msg_of_def resolve_version)
    have "?n = (if mod_NSKey (mod_msg_of ops x) = '''' then vw_key (view_of ops x) else mod_NSKey (mod_msg_of ops x))"
      using assms(7) by (auto simp: msg announceable_def view_of_def)
    moreover have "valid_utf8 (mod_NSKey (mod_msg_of ops x))" using valid(3) by (simp add: msg)
    ultimately have "browser subs m ?R = ?R(?i := if subs ?n = None then None
        else Some \<lparr>vw_fields = vw_fields (view_of ops x) ++ json_fields jd, vw_key = ?n, vw_version = Some (juint (obj_Version ops x + 1))\<rparr>)"
      using browser_mod [OF m, of jd ?R "view_of ops x" ?n subs] R False valid jd unfolding msg by simp
    moreover have "vw_fields (view_of ops x) = json_fields js" by (simp add: view_of_def state_fields_def js)
    ultimately show ?thesis using False by (simp add: modify_delivery_def R' merge)
  next
    case True
    have "browser subs a ?R = ?R(?i \<mapsto> \<lparr>vw_fields = json_fields js', vw_key = ?n, vw_version = Some (juint (obj_Version ops x + 1))\<rparr>)"
      using browser_add [OF a, of js'] valid js' by (simp add: add_msg_of_def modified_frame modified_keys)
    moreover have "?R(?i := None) = ?R" using R True by (simp add: fun_upd_idem)
    ultimately show ?thesis using True by (simp add: modify_delivery_def R')
  qed
  then show ?thesis by (simp add: updated_def del queued_def fresh_room)
qed

text \<open>
  A move to the empty key: the mod message leaves the new key out, so a browser that knew the object
  merges the diff and keeps it under the old key.
\<close>

lemma Modify_to_empty_key:
  assumes "redis_behaves rd db" "mongo_behaves ops tag_of mk stored mg docs"
    and "MongoSynk_Modify ops mg rd s = (Ret v, s')"
  defines "x \<equiv> ms_obj s"
  assumes "synced ops (docs (ms_mongo s)) x" "encodable ops x" "CHR ''{'' \<notin> set (obj_GetPrevSubKey ops x)"
    and "obj_GetPrevSubKey ops x \<noteq> ''''" "obj_GetSubKey ops x = ''''"
    and "subs (obj_GetPrevSubKey ops x) \<noteq> None" "subs '''' = None"
  shows "updated subs (db (ms_redis s)) (db (ms_redis s')) (replica ops (docs (ms_mongo s)) subs) (obj_TagGetID ops x) =
      Some ((view_of ops (ms_obj s'))\<lparr>vw_key := obj_GetPrevSubKey ops x\<rparr>) \<and>
    replica ops (docs (ms_mongo s')) subs (obj_TagGetID ops x) = None"
proof -
  let ?i = "obj_TagGetID ops x" and ?p = "obj_GetPrevSubKey ops x" and ?R = "replica ops (docs (ms_mongo s)) subs"
  obtain js jd js' where js: "obj_MarshalDiff ops (obj_State ops x) = Inr js"
    and jd: "obj_MarshalDiff ops (fst (obj_Resolve ops x)) = Inr jd"
    and js': "obj_MarshalDiff ops (obj_State ops (snd (obj_Resolve ops x))) = Inr js'"
    and merge: "json_fields js' = json_fields js ++ json_fields jd"
    using resolve_merge by blast
  have valid: "valid_utf8 ?i" "valid_utf8 ?p" "wf_json jd" using assms(6) jd by (auto simp: encodable_def)
  obtain m a where m: "marshal (modMsg_json ops (mod_msg_of ops x)) = Inr m"
    and del: "deliver_all subs (published_since (db (ms_redis s)) (db (ms_redis s'))) (make_chan clientBufferLength) =
      queued (modify_delivery subs ?p (obj_GetSubKey ops x) m a) (make_chan clientBufferLength)"
    using Modify_delivered [OF assms(1-3) assms(7) [unfolded x_def] fresh_room(1)] unfolding x_def by blast
  have x': "ms_obj s' = modified_obj ops x" and D': "docs (ms_mongo s') = (docs (ms_mongo s))(?i \<mapsto> stored (modified_obj ops x))"
    using Modify_Ret [OF assms(1-3)] by (simp_all add: x_def)
  have msg: "mod_ID (mod_msg_of ops x) = ?i" "mod_SKey (mod_msg_of ops x) = ?p" "mod_Diff (mod_msg_of ops x) = fst (obj_Resolve ops x)"
      "mod_Version (mod_msg_of ops x) = obj_Version ops x + 1" "mod_NSKey (mod_msg_of ops x) = ''''"
    using assms(9) by (simp_all add: mod_msg_of_def resolve_version)
  have R: "?R ?i = Some (view_of ops x)" using synced_replica [OF assms(5)] assms(10) by simp
  have "valid_utf8 ''''" by simp
  from browser_mod_eq [OF m, unfolded msg, OF jd valid(3,1,2) this, of subs ?R] R assms(10)
  have "browser subs m ?R ?i =
      Some \<lparr>vw_fields = json_fields js ++ json_fields jd, vw_key = ?p, vw_version = Some (juint (obj_Version ops x + 1))\<rparr>"
    by (simp add: Let_def view_of_def state_fields_def js)
  moreover have "updated subs (db (ms_redis s)) (db (ms_redis s')) ?R = browser subs m ?R"
    using assms(10) by (simp add: updated_def del queued_def fresh_room modify_delivery_def)
  moreover have "replica ops (docs (ms_mongo s')) subs ?i = None"
    using assms(9,11) by (simp add: replica_def D' stored_prev modified_keys)
  ultimately show ?thesis
    by (simp add: x' view_of_def state_fields_def modified_frame js' merge)
qed

lemma Modify_synced:
  assumes "redis_behaves rd db" "mongo_behaves ops tag_of mk stored mg docs"
    and "MongoSynk_Modify ops mg rd s = (Ret v, s')"
  shows "synced ops (docs (ms_mongo s')) (ms_obj s')"
  using Modify_Ret [OF assms] by (auto simp: synced_def modified_frame stored_view)

lemma Create_replica:
  assumes "redis_behaves rd db" "mongo_behaves ops tag_of mk stored mg docs"
    and "MongoSynk_Create ops mg rd s = (Ret v, s')"
    and "encodable ops (ms_obj s')" "valid_utf8 (obj_TypeKey ops (ms_obj s))"
  shows "updated subs (db (ms_redis s)) (db (ms_redis s')) (replica ops (docs (ms_mongo s)) subs) =
      replica ops (docs (ms_mongo s')) subs \<and> synced ops (docs (ms_mongo s')) (ms_obj s')"
proof -
  let ?x = "ms_obj s'" and ?R = "replica ops (docs (ms_mongo s)) subs"
  have free: "docs (ms_mongo s) (obj_TagGetID ops ?x) = None"
    and D': "docs (ms_mongo s') = (docs (ms_mongo s))(obj_TagGetID ops ?x \<mapsto> stored ?x)"
    and x: "?x = created_obj ops (ms_obj s) (ms_rand s)"
    using Create_Ret [OF assms(1-3)] by auto
  have key: "obj_GetPrevSubKey ops ?x = obj_GetSubKey ops ?x" unfolding x by (rule created_keys(1))
  obtain b where b: "marshal (addMsg_json ops (add_msg_of ops ?x '''' (obj_TypeKey ops (ms_obj s)))) = Inr b"
    and del: "deliver_all subs (published_since (db (ms_redis s)) (db (ms_redis s'))) (make_chan clientBufferLength) =
      queued (if subs (obj_GetSubKey ops ?x) \<noteq> None then [b] else []) (make_chan clientBufferLength)"
    using Create_delivered [OF assms(1-3) fresh_room(2)] by blast
  obtain js where js: "obj_MarshalDiff ops (obj_State ops ?x) = Inr js" using diff_json by blast
  have "browser subs b ?R = ?R(obj_TagGetID ops ?x \<mapsto> view_of ops ?x)"
    using browser_add [OF b, of js] js assms(4,5) by (simp add: add_msg_of_def encodable_def view_of_def state_fields_def key)
  moreover have "?R(obj_TagGetID ops ?x := None) = ?R" using free by (simp add: replica_def fun_upd_idem)
  ultimately have "updated subs (db (ms_redis s)) (db (ms_redis s')) ?R = replica ops (docs (ms_mongo s')) subs"
    by (simp add: updated_def del queued_def fresh_room D' replica_update stored_view stored_prev key)
  moreover have "synced ops (docs (ms_mongo s')) ?x" by (simp add: synced_def D' stored_view)
  ultimately show ?thesis by blast
qed

lemma Delete_replica:
  assumes "redis_behaves rd db" "mongo_behaves ops tag_of mk stored mg docs"
    and "MongoSynk_Delete ops mg rd s = (Ret v, s')"
  defines "x \<equiv> ms_obj s"
  assumes "synced ops (docs (ms_mongo s)) x" "encodable ops x"
  shows "updated subs (db (ms_redis s)) (db (ms_redis s')) (replica ops (docs (ms_mongo s)) subs) =
    replica ops (docs (ms_mongo s')) subs"
proof -
  let ?i = "obj_TagGetID ops x" and ?R = "replica ops (docs (ms_mongo s)) subs"
  have D': "docs (ms_mongo s') = (docs (ms_mongo s))(?i := None)" using Delete_Ret [OF assms(1-3)] by (simp add: x_def)
  obtain b where b: "marshal (remMsg_json (rem_msg_of ops x)) = Inr b"
    and del: "deliver_all subs (published_since (db (ms_redis s)) (db (ms_redis s'))) (make_chan clientBufferLength) =
      queued (if subs (obj_GetPrevSubKey ops x) \<noteq> None then [b] else []) (make_chan clientBufferLength)"
    using Delete_delivered [OF assms(1-3) fresh_room(2)] unfolding x_def by blast
  have "browser subs b ?R = ?R(?i := None)"
    using browser_rem [OF b] assms(6) by (simp add: rem_msg_of_def encodable_def)
  moreover have "subs (obj_GetPrevSubKey ops x) = None \<Longrightarrow> ?R(?i := None) = ?R"
    using synced_replica [OF assms(5), of subs] by (simp add: fun_upd_idem)
  ultimately show ?thesis by (simp add: updated_def del queued_def fresh_room D' replica_delete)
qed

end

section \<open>Subscribing\<close>

text \<open>
  What every document satisfies: it is filed under its identifier and its clients' key, has nothing
  pending, is of its own type, and can be encoded.
\<close>

definition document_ok :: "('o, 'd) object_ops \<Rightarrow> ('o \<Rightarrow> tag) \<Rightarrow> string \<Rightarrow> 'o \<Rightarrow> bool" where
  "document_ok ops tag_of i y \<longleftrightarrow> TagID (tag_of y) = i \<and> sub_agrees ops tag_of y \<and> \<not> obj_Changed ops y \<and>
     TagType (tag_of y) = obj_TypeKey ops y \<and>
     valid_utf8 (obj_TagGetID ops y) \<and> valid_utf8 (obj_TypeKey ops y) \<and> valid_utf8 (obj_GetPrevSubKey ops y) \<and>
     (\<forall>j. obj_MarshalDiff ops (obj_State ops y) = Inr j \<longrightarrow> wf_json j)"

definition documents_ok :: "('o, 'd) object_ops \<Rightarrow> ('o \<Rightarrow> tag) \<Rightarrow> (string \<rightharpoonup> 'o) \<Rightarrow> bool" where
  "documents_ok ops tag_of D \<longleftrightarrow> (\<forall>i y. D i = Some y \<longrightarrow> document_ok ops tag_of i y)"

text \<open>The browser forgets what it is no longer subscribed to.\<close>

definition forget :: "(string \<rightharpoonup> bool) \<Rightarrow> cache \<Rightarrow> cache" where
  "forget subs cache i = (case cache i of Some v \<Rightarrow> if subs (vw_key v) = None then None else Some v | None \<Rightarrow> None)"

context stored_object
begin

lemma browser_loaded:
  assumes "document_ok ops tag_of i y"
  shows "browser subs (loaded_bytes ops y) cache = cache(i \<mapsto> view_of ops y)"
proof -
  obtain js where js: "obj_MarshalDiff ops (obj_State ops y) = Inr js" using diff_json by blast
  let ?m = "\<lparr>add_State = obj_State ops y, add_ID = obj_TagGetID ops y, add_SKey = obj_GetSubKey ops y, add_PSKey = '''',
    add_Version = obj_Version ops y, add_Type = obj_TypeKey ops y\<rparr>"
  obtain b where b: "marshal (addMsg_json ops ?m) = Inr b" using marshal_add by blast
  then have "loaded_bytes ops y = b" by (simp add: loaded_bytes_def)
  moreover have "obj_GetSubKey ops y = obj_GetPrevSubKey ops y"
    using assms unchanged_sub by (simp add: document_ok_def)
  moreover have "obj_TagGetID ops y = i" using assms by (simp add: document_ok_def get_id)
  ultimately show ?thesis
    using browser_add [OF b, of js subs cache] js assms by (simp add: document_ok_def view_of_def state_fields_def)
qed

lemma browser_loaded_all:
  assumes "documents_ok ops tag_of D" "set ids \<subseteq> dom D"
  shows "fold (browser subs) (map (loaded_bytes ops) (map (\<lambda>i. the (D i)) ids)) cache =
    (\<lambda>i. if i \<in> set ids then Some (view_of ops (the (D i))) else cache i)"
  using assms(2)
proof (induction ids arbitrary: cache)
  case (Cons i ids)
  then have "document_ok ops tag_of i (the (D i))" using assms(1) by (auto simp: documents_ok_def)
  from browser_loaded [OF this] Cons show ?case by (auto simp: fun_eq_iff)
qed simp

text \<open>Loading keys shows every object of these keys, and leaves the rest of the browser alone.\<close>

lemma Load_shown:
  assumes "mongo_behaves ops tag_of mk stored mg docs" "creator_ok ops mk" "documents_ok ops tag_of (docs m)"
    and types: "\<forall>i y. docs m i = Some y \<longrightarrow> mk (obj_TypeKey ops y) \<noteq> None"
    and load: "MongoSynk_Load mk mg keys m = (Ret (objs, e), m')"
  shows "docs m' = docs m \<and> fold (browser subs) (map (loaded_bytes ops) objs) cache =
    (\<lambda>i. case docs m i of
       Some y \<Rightarrow> if obj_GetPrevSubKey ops y \<in> set keys then Some (view_of ops y) else cache i
     | None \<Rightarrow> cache i)"
proof -
  have doc: "document_ok ops tag_of i y" if "docs m i = Some y" for i y
    using assms(3) that by (simp add: documents_ok_def)
  then have typed: "\<forall>i y. docs m i = Some y \<longrightarrow> TagType (tag_of y) = obj_TypeKey ops y" by (auto simp: document_ok_def)
  obtain ids where m': "docs m' = docs m" and objs: "objs = map (\<lambda>i. the (docs m i)) ids"
    and ids: "set ids = {i \<in> ids_with_sub tag_of (docs m) keys. mk (TagType (tag_of (the (docs m i)))) \<noteq> None}"
    using Load_Ret [OF assms(1,2) typed load] by blast
  have mem: "i \<in> set ids \<longleftrightarrow> (\<exists>y. docs m i = Some y \<and> obj_GetPrevSubKey ops y \<in> set keys)" for i
    using doc types by (auto simp: ids ids_with_sub_def document_ok_def sub_agrees_def)
  have "set ids \<subseteq> dom (docs m)" using mem by auto
  from browser_loaded_all [OF assms(3) this] have
    "fold (browser subs) (map (loaded_bytes ops) objs) cache =
      (\<lambda>i. if i \<in> set ids then Some (view_of ops (the (docs m i))) else cache i)"
    by (simp add: objs)
  with m' show ?thesis by (auto simp: fun_eq_iff mem split: option.split)
qed

lemma Subscribe_replica:
  fixes subs :: "string \<rightharpoonup> bool"
  assumes "mongo_behaves ops tag_of mk stored mg docs" "creator_ok ops mk" "documents_ok ops tag_of (docs m)"
    and types: "\<forall>i y. docs m i = Some y \<longrightarrow> mk (obj_TypeKey ops y) \<noteq> None"
    and load: "MongoSynk_Load mk mg (us_Add msg) m = (Ret (objs, e), m')"
  defines "subs' \<equiv> new_subscriptions msg subs"
  shows "docs m' = docs m \<and>
    fold (browser subs') (map (loaded_bytes ops) objs) (forget subs' (replica ops (docs m) subs)) = replica ops (docs m') subs'"
  using Load_shown [OF assms(1-3) types load, of subs' "forget subs' (replica ops (docs m) subs)"]
  by (auto simp: fun_eq_iff forget_def replica_def subs'_def new_subscriptions_def view_of_def split: option.split)

end

end
