(* ===== verification/Object_Props.thy ===== *)
theory Object_Props
  imports Entities
begin

text \<open>
  The properties of the test objects: every program of setter calls implements plain assignments on
  an abstract struct, with a diff that is always minimal; subscription keys determine their parts;
  the encodings read back; merging the encoded diff into the encoded state gives the new state.
\<close>

section \<open>Programs of setters\<close>

datatype human_op =
    SetX go_int | SetY go_int | SetCX go_int | SetCY go_int | SetCI go_int | SetMapID string

fun human_do :: "human_op \<Rightarrow> human \<Rightarrow> human" where
  "human_do (SetX v) x = Human_SetX v x"
| "human_do (SetY v) x = Human_SetY v x"
| "human_do (SetCX v) x = Human_SetCX v x"
| "human_do (SetCY v) x = Human_SetCY v x"
| "human_do (SetCI v) x = Human_SetCI v x"
| "human_do (SetMapID v) x = Human_SetMapID v x"

fun core_do :: "human_op \<Rightarrow> human_core \<Rightarrow> human_core" where
  "core_do (SetX v) c = c\<lparr>cX := v\<rparr>"
| "core_do (SetY v) c = c\<lparr>cY := v\<rparr>"
| "core_do (SetCX v) c = c\<lparr>cCX := v\<rparr>"
| "core_do (SetCY v) c = c\<lparr>cCY := v\<rparr>"
| "core_do (SetCI v) c = c\<lparr>cCI := v\<rparr>"
| "core_do (SetMapID v) c = c\<lparr>cMapID := v\<rparr>"

lemma human_do_abs:
  "known (human_do m x) = known x" "current (human_do m x) = core_do m (current x)"
  "hTag (human_do m x) = hTag x" "minimal x \<Longrightarrow> minimal (human_do m x)"
  by (cases m; simp)+

lemma human_prog_abs:
  "known (fold human_do ms x) = known x" "current (fold human_do ms x) = fold core_do ms (current x)"
  "hTag (fold human_do ms x) = hTag x" "minimal x \<Longrightarrow> minimal (fold human_do ms x)"
  by (induction ms arbitrary: x) (simp_all add: human_do_abs)

datatype orc_op = SetID string | SetSubKey string | SetName string

fun orc_do :: "orc_op \<Rightarrow> orc \<Rightarrow> orc" where
  "orc_do (SetID v) x = Orc_SetID v x"
| "orc_do (SetSubKey v) x = Orc_SetSubKey v x"
| "orc_do (SetName v) x = Orc_SetName v x"

fun orc_core_do :: "orc_op \<Rightarrow> orc_core \<Rightarrow> orc_core" where
  "orc_core_do (SetID v) c = c\<lparr>kID := v\<rparr>"
| "orc_core_do (SetSubKey v) c = c\<lparr>kSubKey := v\<rparr>"
| "orc_core_do (SetName v) c = c\<lparr>kName := v\<rparr>"

lemma orc_do_abs:
  "orc_known (orc_do m x) = orc_known x" "orc_current (orc_do m x) = orc_core_do m (orc_current x)"
  "oTag (orc_do m x) = oTag x" "orc_minimal x \<Longrightarrow> orc_minimal (orc_do m x)"
  by (cases m; simp)+

lemma orc_prog_abs:
  "orc_known (fold orc_do ms x) = orc_known x" "orc_current (fold orc_do ms x) = fold orc_core_do ms (orc_current x)"
  "oTag (fold orc_do ms x) = oTag x" "orc_minimal x \<Longrightarrow> orc_minimal (fold orc_do ms x)"
  by (induction ms arbitrary: x) (simp_all add: orc_do_abs)

text \<open>
  C28: after any sequence of setter calls the getters show the assigned values, the clients' view is
  unchanged, \<open>Changed\<close> says whether the two differ, and \<open>Resolve\<close> returns exactly the fields
  that differ, makes the new values the clients' view and counts the version.
\<close>

theorem human_setters_resolve:
  assumes "minimal x"
  shows "current (fold human_do ms x) = fold core_do ms (current x) \<and> known (fold human_do ms x) = known x \<and>
    (Human_Changed (fold human_do ms x) \<longleftrightarrow> fold core_do ms (current x) \<noteq> known x) \<and>
    fst (Human_Resolve (fold human_do ms x)) = core_diff (known x) (fold core_do ms (current x)) \<and>
    known (snd (Human_Resolve (fold human_do ms x))) = fold core_do ms (current x) \<and>
    hTag (snd (Human_Resolve (fold human_do ms x))) = bump_version (hTag x) \<and>
    minimal (snd (Human_Resolve (fold human_do ms x)))"
  using human_prog_abs(4) [OF assms, of ms] minimal_Changed [OF human_prog_abs(4) [OF assms, of ms]]
  by (simp add: human_prog_abs minimal_def [of "fold human_do ms x"])

lemma human_setters_resolve_witness:
  "fst (Human_Resolve (fold human_do [SetX 3, SetY 1, SetX 0, SetMapID ''m''] new_human)) =
     no_human_diff\<lparr>dY := Some 1, dMapID := Some ''m''\<rparr>"
proof -
  have "minimal new_human" by (simp add: minimal_iff new_human_def no_human_diff_def)
  from human_setters_resolve [OF this, of "[SetX 3, SetY 1, SetX 0, SetMapID ''m'']"] show ?thesis
    by (simp add: core_diff_def no_human_diff_def new_human_def human_abs_defs)
qed

text \<open>The same for the setters, \<open>Changed\<close> and \<open>Resolve\<close> of \<open>Orc\<close>.\<close>

theorem orc_setters_resolve:
  assumes "orc_minimal x"
  shows "orc_current (fold orc_do ms x) = fold orc_core_do ms (orc_current x) \<and> orc_known (fold orc_do ms x) = orc_known x \<and>
    (Orc_Changed (fold orc_do ms x) \<longleftrightarrow> fold orc_core_do ms (orc_current x) \<noteq> orc_known x) \<and>
    fst (Orc_Resolve (fold orc_do ms x)) = orc_core_diff (orc_known x) (fold orc_core_do ms (orc_current x)) \<and>
    orc_known (snd (Orc_Resolve (fold orc_do ms x))) = fold orc_core_do ms (orc_current x) \<and>
    oTag (snd (Orc_Resolve (fold orc_do ms x))) = bump_version (oTag x) \<and>
    orc_minimal (snd (Orc_Resolve (fold orc_do ms x)))"
  using orc_prog_abs(4) [OF assms, of ms] orc_minimal_Changed [OF orc_prog_abs(4) [OF assms, of ms]]
  by (simp add: orc_prog_abs orc_minimal_def [of "fold orc_do ms x"])

lemma orc_setters_resolve_witness:
  "fst (Orc_Resolve (fold orc_do [SetSubKey ''a'', SetName ''n'', SetSubKey '''' ] new_orc)) =
     no_orc_diff\<lparr>eName := Some ''n''\<rparr>"
proof -
  have "orc_minimal new_orc" by (simp add: orc_minimal_iff new_orc_def no_orc_diff_def)
  from orc_setters_resolve [OF this, of "[SetSubKey ''a'', SetName ''n'', SetSubKey '''']"] show ?thesis
    by (simp add: orc_core_diff_def no_orc_diff_def new_orc_def orc_abs_defs)
qed

text \<open>
  \<open>Init\<close> makes the next \<open>Resolve\<close> return the complete state the clients know, in both test
  objects; changes that were pending at that time are given up.
\<close>

theorem init_resolves_fully:
  "fst (Human_Resolve (Human_Init h)) = Human_State h \<and> known (snd (Human_Resolve (Human_Init h))) = known h \<and>
   Human_Changed (Human_Init h) \<and>
   fst (Orc_Resolve (Orc_Init x)) = Orc_State x \<and> orc_known (snd (Orc_Resolve (Orc_Init x))) = orc_known x \<and>
   Orc_Changed (Orc_Init x)"
proof -
  have "Human_Changed (Human_Init h)" "Orc_Changed (Orc_Init x)"
    by (simp_all add: Human_Changed_def Human_Init_def Human_State_def Orc_Changed_def Orc_Init_def Orc_State_def)
  moreover have "hdiff (Human_Init h) = Human_State h" "odiff (Orc_Init x) = Orc_State x"
    by (simp_all add: Human_Init_def Orc_Init_def)
  ultimately show ?thesis by simp
qed

text \<open>
  The subscription key of a \<open>Human\<close> determines its map and chunk, so two objects have the same
  key exactly when they are in the same chunk of the same map, now or as the clients know them.
\<close>

theorem human_sub_keys:
  "(Human_GetSubKey x = Human_GetSubKey y \<longleftrightarrow>
     Human_GetMapID x = Human_GetMapID y \<and> Human_GetCX x = Human_GetCX y \<and> Human_GetCY x = Human_GetCY y) \<and>
   (Human_GetPrevSubKey x = Human_GetPrevSubKey y \<longleftrightarrow>
     Human_GetPrevMapID x = Human_GetPrevMapID y \<and> Human_GetPrevCX x = Human_GetPrevCX y \<and>
     Human_GetPrevCY x = Human_GetPrevCY y)"
  using sub_key_format_inj by (auto simp: Human_key_defs)

text \<open>
  C31: for every object of the test package, a browser that overlays the members of the JSON diff
  returned by \<open>Resolve\<close> on the JSON state it has obtains the JSON state of the resolved object.
\<close>

theorem diff_merges_into_state:
  "\<exists>js jd js'. obj_MarshalDiff entity_ops (obj_State entity_ops x) = Inr js \<and>
     obj_MarshalDiff entity_ops (fst (obj_Resolve entity_ops x)) = Inr jd \<and>
     obj_MarshalDiff entity_ops (obj_State entity_ops (snd (obj_Resolve entity_ops x))) = Inr js' \<and>
     json_fields js' = json_fields js ++ json_fields jd"
  by (rule entity.resolve_merge)

section \<open>Reading back\<close>

lemma field_names_valid:
  "list_all valid_utf8 Human_fields" "list_all valid_utf8 Orc_fields"
  by code_simp+

lemma Human_json_wf: "valid_utf8 (hMapID x) \<Longrightarrow> wf_json (Human_json x)"
  using field_names_valid(1) by (simp add: Human_json_def Human_fields_def del: valid_utf8.simps)

lemma Orc_json_wf:
  "list_all valid_utf8 [TagID (oTag x), TagSub (oTag x), TagType (oTag x), oID x, oSubKey x, oName x] \<Longrightarrow> wf_json (Orc_json x)"
  using field_names_valid(2) by (simp add: Orc_json_def Orc_fields_def del: valid_utf8.simps)

lemma human_json_drops_tag:
  assumes "valid_utf8 (hMapID x)"
  shows "Human_Unmarshal (render (Human_json x)) c = (None, x\<lparr>hTag := hTag c, hdiff := hdiff c\<rparr>)"
  unfolding Human_Unmarshal_def unmarshal_render [OF Human_json_wf [OF assms]]
  by (simp add: Human_json_def decode_struct_def Human_fields_def Human_set_field_def)

lemma orc_json_roundtrip:
  assumes "list_all valid_utf8 [TagID (oTag x), TagSub (oTag x), TagType (oTag x), oID x, oSubKey x, oName x]"
  shows "Orc_Unmarshal (render (Orc_json x)) c = (None, x\<lparr>odiff := odiff c\<rparr>)"
  unfolding Orc_Unmarshal_def unmarshal_render [OF Orc_json_wf [OF assms]]
  by (simp add: Orc_json_def decode_struct_def Orc_fields_def Orc_set_field_def Orc_set_tag_def)

text \<open>
  Serialized objects whose strings are valid UTF-8 are read back without error: an \<open>Orc\<close> with all
  its fields, tag included, into any container; a \<open>Human\<close> with its six fields only, the container
  keeping its own tag, because identifier, version, type and stored key are not in the JSON. The
  pending diff is never part of it.
\<close>

theorem test_objects_json:
  assumes "valid_utf8 (hMapID h)"
    and "list_all valid_utf8 [TagID (oTag x), TagSub (oTag x), TagType (oTag x), oID x, oSubKey x, oName x]"
  shows "obj_Unmarshal Human_ops (render (Human_json h)) c = (None, h\<lparr>hTag := hTag c, hdiff := hdiff c\<rparr>) \<and>
    obj_Unmarshal Orc_ops (render (Orc_json x)) d = (None, x\<lparr>odiff := odiff d\<rparr>)"
  using human_json_drops_tag [OF assms(1)] orc_json_roundtrip [OF assms(2)]
  by (simp add: Human_ops_def Orc_ops_def)

lemma test_objects_json_witness:
  "obj_Unmarshal Human_ops (render (Human_json (new_human\<lparr>hX := 3, hTag := empty_tag\<lparr>TagID := ''a!''\<rparr>\<rparr>))) new_human =
     (None, new_human\<lparr>hX := 3\<rparr>) \<and>
   obj_Unmarshal Orc_ops (render (Orc_json (new_orc\<lparr>oName := ''Bob'', oTag := empty_tag\<lparr>V := 7\<rparr>\<rparr>))) new_orc =
     (None, new_orc\<lparr>oName := ''Bob'', oTag := empty_tag\<lparr>V := 7\<rparr>\<rparr>)"
proof -
  let ?h = "new_human\<lparr>hX := 3, hTag := empty_tag\<lparr>TagID := ''a!''\<rparr>\<rparr>"
  let ?x = "new_orc\<lparr>oName := ''Bob'', oTag := empty_tag\<lparr>V := 7\<rparr>\<rparr>"
  have "valid_utf8 (hMapID ?h)" by (simp add: new_human_def)
  moreover have "list_all valid_utf8 [TagID (oTag ?x), TagSub (oTag ?x), TagType (oTag ?x), oID ?x, oSubKey ?x, oName ?x]"
    by code_simp
  ultimately show ?thesis
    using test_objects_json [of ?h ?x new_human new_orc] by (simp add: new_human_def new_orc_def)
qed

end
