(* ===== verification/World.thy ===== *)
theory World
  imports Replica Object_Props
begin

text \<open>
  The whole system around one client: a process that owns objects in memory, changes them with their
  setters and calls \<open>MongoSynk\<close>, the collection, the Redis server, and a client with its browser
  that changes its subscriptions. The invariant is that every object in memory is in step with its
  document, every document is well-formed, and the browser holds the exact replica.
\<close>

section \<open>Objects and documents\<close>

datatype mutation = OnHuman human_op | OnOrc orc_op

fun entity_do :: "mutation \<Rightarrow> entity \<Rightarrow> entity" where
  "entity_do (OnHuman m) (EHuman h) = EHuman (human_do m h)"
| "entity_do (OnOrc m) (EOrc x) = EOrc (orc_do m x)"
| "entity_do _ x = x"

lemma entity_do_frame:
  "obj_TagGetID entity_ops (entity_do m x) = obj_TagGetID entity_ops x"
  "entity_tag (entity_do m x) = entity_tag x"
  "obj_TypeKey entity_ops (entity_do m x) = obj_TypeKey entity_ops x"
  "obj_GetPrevSubKey entity_ops (entity_do m x) = obj_GetPrevSubKey entity_ops x"
  "obj_Version entity_ops (entity_do m x) = obj_Version entity_ops x"
  by (induction m x rule: entity_do.induct)
    (simp_all add: entity_ops_def Human_ops_def Orc_ops_def human_do_abs orc_do_abs core_keys orc_core_keys)

lemma orc_state_known: "orc_known x = orc_known y \<Longrightarrow> Orc_State x = Orc_State y"
  by (simp add: Orc_State_def orc_known_def Orc_get_defs)

lemma entity_do_state: "obj_State entity_ops (entity_do m x) = obj_State entity_ops x"
proof (induction m x rule: entity_do.induct)
  case (1 m h)
  have "Human_State (human_do m h) = Human_State h" by (simp add: Human_State_known human_do_abs)
  then show ?case by (simp add: entity_ops_def Human_ops_def)
next
  case (2 m x)
  have "Orc_State (orc_do m x) = Orc_State x" by (rule orc_state_known) (simp add: orc_do_abs)
  then show ?case by (simp add: entity_ops_def Orc_ops_def)
qed simp_all

lemma entity_do_view: "view_of entity_ops (entity_do m x) = view_of entity_ops x"
  by (simp add: view_of_def state_fields_def entity_do_frame entity_do_state)

lemma entity_OnCreate_id: "run_OnCreate entity_ops x = x"
  by (cases x) (simp_all add: run_OnCreate_def entity_ops_def Human_ops_def Orc_ops_def)

context stored_object
begin

lemma document_ok_stored:
  "sub_agrees ops tag_of x \<Longrightarrow> TagType (tag_of x) = obj_TypeKey ops x \<Longrightarrow> valid_utf8 (obj_TagGetID ops x) \<Longrightarrow>
   valid_utf8 (obj_TypeKey ops x) \<Longrightarrow> valid_utf8 (obj_GetPrevSubKey ops x) \<Longrightarrow>
   \<forall>j. obj_MarshalDiff ops (obj_State ops x) = Inr j \<longrightarrow> wf_json j \<Longrightarrow>
   document_ok ops tag_of (obj_TagGetID ops x) (stored x)"
  by (simp add: document_ok_def stored_tag stored_unchanged stored_type stored_state stored_prev get_id)

lemma modified_tag_type: "TagType (tag_of (modified_obj ops x)) = TagType (tag_of x)"
  by (simp add: modified_obj_def Let_def set_sub_tag resolve_tag tag_defs)

lemma modified_document:
  "encodable ops x \<Longrightarrow> sub_agrees ops tag_of x \<Longrightarrow> TagType (tag_of x) = obj_TypeKey ops x \<Longrightarrow>
   document_ok ops tag_of (obj_TagGetID ops x) (stored (modified_obj ops x))"
  using document_ok_stored [of "modified_obj ops x"]
  by (simp add: modified_frame modified_keys modified_agrees modified_tag_type encodable_def)

lemma documents_ok_update:
  "documents_ok ops tag_of D \<Longrightarrow> document_ok ops tag_of i y \<Longrightarrow> documents_ok ops tag_of (D(i \<mapsto> y))"
  by (simp add: documents_ok_def)

end

lemma created_tag_type:
  "TagType (entity_tag x) \<in> {'''', obj_TypeKey entity_ops x} \<Longrightarrow>
   TagType (entity_tag (created_obj entity_ops x r)) = obj_TypeKey entity_ops (created_obj entity_ops x r)"
  by (auto simp: created_obj_def Let_def entity_OnCreate_id entity.laws tag_defs(2-) entity.init_tag)

section \<open>The system\<close>

record ('m, 'r) world =
  w_live :: "string \<rightharpoonup> entity"
  w_rand :: rand
  w_mongo :: 'm
  w_redis :: 'r
  w_subs :: "string \<rightharpoonup> bool"
  w_cache :: cache

text \<open>The state a call of \<open>MongoSynk\<close> starts from, and the world after it returned.\<close>

definition call_on :: "('m, 'r) world \<Rightarrow> entity \<Rightarrow> (entity, 'm, 'r) mstate" where
  "call_on w x = \<lparr>ms_obj = x, ms_rand = w_rand w, ms_mongo = w_mongo w, ms_redis = w_redis w\<rparr>"

definition after_call :: "('r \<Rightarrow> redis_db) \<Rightarrow> (entity, 'm, 'r) mstate \<Rightarrow> (string \<rightharpoonup> entity) \<Rightarrow> ('m, 'r) world \<Rightarrow> ('m, 'r) world" where
  "after_call db s live w = w\<lparr>w_live := live, w_rand := ms_rand s, w_mongo := ms_mongo s, w_redis := ms_redis s,
     w_cache := updated (w_subs w) (db (w_redis w)) (db (ms_redis s)) (w_cache w)\<rparr>"

inductive world_step :: "('m, entity, 'raw) mongo \<Rightarrow> 'r redis \<Rightarrow> ('r \<Rightarrow> redis_db) \<Rightarrow> ('m, 'r) world \<Rightarrow> ('m, 'r) world \<Rightarrow> bool"
  for mg rd db where
  mutate: "w_live w i = Some x \<Longrightarrow> world_step mg rd db w (w\<lparr>w_live := (w_live w)(i \<mapsto> entity_do m x)\<rparr>)"
| create: "MongoSynk_Create entity_ops mg rd (call_on w x) = (Ret v, s) \<Longrightarrow> encodable entity_ops (ms_obj s) \<Longrightarrow>
     TagType (entity_tag x) \<in> {'''', obj_TypeKey entity_ops x} \<Longrightarrow>
     world_step mg rd db w (after_call db s ((w_live w)(obj_TagGetID entity_ops (ms_obj s) \<mapsto> ms_obj s)) w)"
| modify: "w_live w i = Some x \<Longrightarrow> MongoSynk_Modify entity_ops mg rd (call_on w x) = (Ret v, s) \<Longrightarrow>
     encodable entity_ops x \<Longrightarrow> announceable entity_ops x \<Longrightarrow>
     world_step mg rd db w (after_call db s ((w_live w)(i \<mapsto> ms_obj s)) w)"
| delete: "w_live w i = Some x \<Longrightarrow> MongoSynk_Delete entity_ops mg rd (call_on w x) = (Ret v, s) \<Longrightarrow>
     encodable entity_ops x \<Longrightarrow>
     world_step mg rd db w (after_call db s ((w_live w)(i := None)) w)"
| subscribe: "MongoSynk_Load creator mg (us_Add msg) (w_mongo w) = (Ret (objs, e), m') \<Longrightarrow>
     subs' = new_subscriptions msg (w_subs w) \<Longrightarrow>
     world_step mg rd db w (w\<lparr>w_mongo := m', w_subs := subs',
       w_cache := fold (browser subs') (map (loaded_bytes entity_ops) objs) (forget subs' (w_cache w))\<rparr>)"

inductive world_reaches :: "('m, entity, 'raw) mongo \<Rightarrow> 'r redis \<Rightarrow> ('r \<Rightarrow> redis_db) \<Rightarrow> ('m, 'r) world \<Rightarrow> ('m, 'r) world \<Rightarrow> bool"
  for mg rd db w where
  world_start: "world_reaches mg rd db w w"
| world_next: "world_reaches mg rd db w w' \<Longrightarrow> world_step mg rd db w' w'' \<Longrightarrow> world_reaches mg rd db w w''"

text \<open>The empty world: no documents, no objects, nothing in the browser.\<close>

definition world_empty :: "('m \<Rightarrow> string \<rightharpoonup> entity) \<Rightarrow> ('m, 'r) world \<Rightarrow> bool" where
  "world_empty docs w \<longleftrightarrow> docs (w_mongo w) = Map.empty \<and> w_live w = Map.empty \<and> w_cache w = Map.empty"

definition live_ok :: "(string \<rightharpoonup> entity) \<Rightarrow> string \<Rightarrow> entity \<Rightarrow> bool" where
  "live_ok D i x \<longleftrightarrow> obj_TagGetID entity_ops x = i \<and> synced entity_ops D x \<and> sub_agrees entity_ops entity_tag x \<and>
     TagType (entity_tag x) = obj_TypeKey entity_ops x"

definition world_inv :: "('m \<Rightarrow> string \<rightharpoonup> entity) \<Rightarrow> ('m, 'r) world \<Rightarrow> bool" where
  "world_inv docs w \<longleftrightarrow> documents_ok entity_ops entity_tag (docs (w_mongo w)) \<and>
     (\<forall>i x. w_live w i = Some x \<longrightarrow> live_ok (docs (w_mongo w)) i x) \<and>
     w_cache w = replica entity_ops (docs (w_mongo w)) (w_subs w)"

lemma world_inv_empty: "world_empty docs w \<Longrightarrow> world_inv docs w"
  by (simp add: world_empty_def world_inv_def documents_ok_def replica_def fun_eq_iff)

text \<open>Objects are only in step with their own documents.\<close>

lemma live_ok_frame: "live_ok D j x \<Longrightarrow> D' j = D j \<Longrightarrow> live_ok D' j x"
  by (auto simp: live_ok_def synced_def)

lemma live_ok_mutate: "live_ok D i x \<Longrightarrow> live_ok D i (entity_do m x)"
  by (auto simp: live_ok_def synced_def entity_do_frame entity_do_view sub_agrees_def)

lemma creator_total: "creator (obj_TypeKey entity_ops x) \<noteq> None"
  by (cases x) (simp_all add: entity_ops_def Human_ops_def Orc_ops_def)

lemma call_on_simps [simp]:
  "ms_obj (call_on w x) = x" "ms_mongo (call_on w x) = w_mongo w" "ms_redis (call_on w x) = w_redis w" "ms_rand (call_on w x) = w_rand w"
  by (simp_all add: call_on_def)

section \<open>The invariant\<close>

lemma world_invD:
  assumes "world_inv docs w"
  shows "documents_ok entity_ops entity_tag (docs (w_mongo w))"
    and "w_live w i = Some x \<Longrightarrow> live_ok (docs (w_mongo w)) i x"
    and "w_cache w = replica entity_ops (docs (w_mongo w)) (w_subs w)"
  using assms unfolding world_inv_def by blast+

lemma world_inv_afterI:
  assumes "documents_ok entity_ops entity_tag (docs (ms_mongo s))"
    and "\<And>i x. live i = Some x \<Longrightarrow> live_ok (docs (ms_mongo s)) i x"
    and "updated (w_subs w) (db (w_redis w)) (db (ms_redis s)) (w_cache w) = replica entity_ops (docs (ms_mongo s)) (w_subs w)"
  shows "world_inv docs (after_call db s live w)"
  using assms by (simp add: world_inv_def after_call_def)

text \<open>An operation touches one document only.\<close>

lemma others_live:
  assumes "world_inv docs w" "docs m = (docs (w_mongo w))(i := d)" "w_live w j = Some z" "j \<noteq> i"
  shows "live_ok (docs m) j z"
proof (rule live_ok_frame)
  show "live_ok (docs (w_mongo w)) j z" by (rule world_invD(2) [OF assms(1,3)])
  show "docs m j = docs (w_mongo w) j" unfolding assms(2) using assms(4) by (rule fun_upd_other)
qed

lemma world_inv_mutate:
  assumes "world_inv docs w" "w_live w i = Some x"
  shows "world_inv docs (w\<lparr>w_live := (w_live w)(i \<mapsto> entity_do m x)\<rparr>)"
proof -
  have "live_ok (docs (w_mongo w)) j z" if "((w_live w)(i \<mapsto> entity_do m x)) j = Some z" for j z
    using that live_ok_mutate [OF world_invD(2) [OF assms], of m] world_invD(2) [OF assms(1), of j z]
    by (cases "j = i") simp_all
  with world_invD(1,3) [OF assms(1)] show ?thesis by (simp add: world_inv_def)
qed

text \<open>What a call does to the collection, to its object, and to a browser that is up to date.\<close>

lemma create_kept:
  assumes "redis_behaves rd db" "mongo_behaves entity_ops entity_tag creator entity_stored mg docs"
    and call: "MongoSynk_Create entity_ops mg rd s = (Ret v, s')" and enc: "encodable entity_ops (ms_obj s')"
    and "TagType (entity_tag (ms_obj s)) \<in> {'''', obj_TypeKey entity_ops (ms_obj s)}"
    and "documents_ok entity_ops entity_tag (docs (ms_mongo s))"
  shows "documents_ok entity_ops entity_tag (docs (ms_mongo s'))"
    and "live_ok (docs (ms_mongo s')) (obj_TagGetID entity_ops (ms_obj s')) (ms_obj s')"
    and "docs (ms_mongo s') = (docs (ms_mongo s))(obj_TagGetID entity_ops (ms_obj s') \<mapsto> entity_stored (ms_obj s'))"
    and "valid_utf8 (obj_TypeKey entity_ops (ms_obj s))"
    and "updated subs (db (ms_redis s)) (db (ms_redis s')) (replica entity_ops (docs (ms_mongo s)) subs) = replica entity_ops (docs (ms_mongo s')) subs"
proof -
  let ?y = "ms_obj s'" and ?D = "docs (ms_mongo s)"
  have y: "?y = created_obj entity_ops (ms_obj s) (ms_rand s)" using Create_Ret [OF assms(1,2) call] by simp
  show D: "docs (ms_mongo s') = ?D(obj_TagGetID entity_ops ?y \<mapsto> entity_stored ?y)"
    using Create_Ret [OF assms(1,2) call] by simp
  have typed: "TagType (entity_tag ?y) = obj_TypeKey entity_ops ?y" unfolding y by (rule created_tag_type [OF assms(5)])
  have agrees: "sub_agrees entity_ops entity_tag ?y" unfolding y by (rule entity.created_keys(2))
  have doc: "document_ok entity_ops entity_tag (obj_TagGetID entity_ops ?y) (entity_stored ?y)"
    using entity_db.document_ok_stored [OF agrees typed] enc by (simp add: encodable_def)
  show "documents_ok entity_ops entity_tag (docs (ms_mongo s'))"
    unfolding D by (rule entity_db.documents_ok_update [OF assms(6) doc])
  have "obj_TypeKey entity_ops ?y = obj_TypeKey entity_ops (ms_obj s)"
    by (simp add: y created_obj_def Let_def entity_OnCreate_id entity.laws)
  then show type: "valid_utf8 (obj_TypeKey entity_ops (ms_obj s))" using enc by (simp add: encodable_def)
  note rep = entity_db.Create_replica [OF assms(1,2) call enc type, of subs]
  show "live_ok (docs (ms_mongo s')) (obj_TagGetID entity_ops ?y) ?y" using rep typed agrees by (simp add: live_ok_def)
  show "updated subs (db (ms_redis s)) (db (ms_redis s')) (replica entity_ops ?D subs) = replica entity_ops (docs (ms_mongo s')) subs"
    using rep by blast
qed

lemma modify_kept:
  assumes "redis_behaves rd db" "mongo_behaves entity_ops entity_tag creator entity_stored mg docs"
    and call: "MongoSynk_Modify entity_ops mg rd s = (Ret v, s')"
    and live: "live_ok (docs (ms_mongo s)) i (ms_obj s)"
    and enc: "encodable entity_ops (ms_obj s)" and ann: "announceable entity_ops (ms_obj s)"
    and "documents_ok entity_ops entity_tag (docs (ms_mongo s))"
  shows "documents_ok entity_ops entity_tag (docs (ms_mongo s'))"
    and "live_ok (docs (ms_mongo s')) i (ms_obj s')"
    and "docs (ms_mongo s') = (docs (ms_mongo s))(i \<mapsto> entity_stored (ms_obj s'))"
    and "updated subs (db (ms_redis s)) (db (ms_redis s')) (replica entity_ops (docs (ms_mongo s)) subs) = replica entity_ops (docs (ms_mongo s')) subs"
proof -
  let ?x = "ms_obj s" and ?D = "docs (ms_mongo s)"
  have x: "obj_TagGetID entity_ops ?x = i" "synced entity_ops ?D ?x" "sub_agrees entity_ops entity_tag ?x"
      "TagType (entity_tag ?x) = obj_TypeKey entity_ops ?x"
    using live by (simp_all add: live_ok_def)
  have y: "ms_obj s' = modified_obj entity_ops ?x" using Modify_Ret [OF assms(1,2) call] by simp
  show D: "docs (ms_mongo s') = ?D(i \<mapsto> entity_stored (ms_obj s'))"
    using Modify_Ret [OF assms(1,2) call] x(1) by simp
  have doc: "document_ok entity_ops entity_tag i (entity_stored (ms_obj s'))"
    using entity_db.modified_document [OF enc x(3,4)] by (simp add: y x(1))
  show "documents_ok entity_ops entity_tag (docs (ms_mongo s'))"
    unfolding D by (rule entity_db.documents_ok_update [OF assms(7) doc])
  show "live_ok (docs (ms_mongo s')) i (ms_obj s')"
    using entity_db.Modify_synced [OF assms(1,2) call] x entity.modified_agrees [OF x(3)]
    by (simp add: live_ok_def y entity.modified_frame entity_db.modified_tag_type)
  show "updated subs (db (ms_redis s)) (db (ms_redis s')) (replica entity_ops ?D subs) = replica entity_ops (docs (ms_mongo s')) subs"
    by (rule entity_db.Modify_replica [OF assms(1,2) call x(2) enc ann])
qed

lemma delete_kept:
  assumes "redis_behaves rd db" "mongo_behaves entity_ops entity_tag creator entity_stored mg docs"
    and call: "MongoSynk_Delete entity_ops mg rd s = (Ret v, s')"
    and live: "live_ok (docs (ms_mongo s)) i (ms_obj s)" and enc: "encodable entity_ops (ms_obj s)"
    and "documents_ok entity_ops entity_tag (docs (ms_mongo s))"
  shows "documents_ok entity_ops entity_tag (docs (ms_mongo s'))"
    and "docs (ms_mongo s') = (docs (ms_mongo s))(i := None)"
    and "updated subs (db (ms_redis s)) (db (ms_redis s')) (replica entity_ops (docs (ms_mongo s)) subs) = replica entity_ops (docs (ms_mongo s')) subs"
proof -
  have x: "obj_TagGetID entity_ops (ms_obj s) = i" "synced entity_ops (docs (ms_mongo s)) (ms_obj s)"
    using live by (simp_all add: live_ok_def)
  show D: "docs (ms_mongo s') = (docs (ms_mongo s))(i := None)" using Delete_Ret [OF assms(1,2) call] x(1) by simp
  show "documents_ok entity_ops entity_tag (docs (ms_mongo s'))" unfolding D using assms(6) by (simp add: documents_ok_def)
  show "updated subs (db (ms_redis s)) (db (ms_redis s')) (replica entity_ops (docs (ms_mongo s)) subs) = replica entity_ops (docs (ms_mongo s')) subs"
    by (rule entity_db.Delete_replica [OF assms(1,2) call x(2) enc])
qed

lemma world_inv_create:
  assumes "redis_behaves rd db" "mongo_behaves entity_ops entity_tag creator entity_stored mg docs" "world_inv docs w"
    and call: "MongoSynk_Create entity_ops mg rd (call_on w x) = (Ret v, s)" and enc: "encodable entity_ops (ms_obj s)"
    and "TagType (entity_tag x) \<in> {'''', obj_TypeKey entity_ops x}"
  shows "world_inv docs (after_call db s ((w_live w)(obj_TagGetID entity_ops (ms_obj s) \<mapsto> ms_obj s)) w)"
proof -
  note kept = create_kept [OF assms(1,2) call enc, unfolded call_on_simps, OF assms(6) world_invD(1) [OF assms(3)]]
  have "updated (w_subs w) (db (w_redis w)) (db (ms_redis s)) (w_cache w) = replica entity_ops (docs (ms_mongo s)) (w_subs w)"
    unfolding world_invD(3) [OF assms(3)] by (rule kept(5))
  with kept(1) show ?thesis
    using kept(2) others_live [OF assms(3) kept(3)]
    by (intro world_inv_afterI) (simp_all split: if_splits)
qed

lemma world_inv_modify:
  assumes "redis_behaves rd db" "mongo_behaves entity_ops entity_tag creator entity_stored mg docs" "world_inv docs w"
    and live: "w_live w i = Some x" and call: "MongoSynk_Modify entity_ops mg rd (call_on w x) = (Ret v, s)"
    and enc: "encodable entity_ops x" and ann: "announceable entity_ops x"
  shows "world_inv docs (after_call db s ((w_live w)(i \<mapsto> ms_obj s)) w)"
proof -
  note kept = modify_kept [OF assms(1,2) call, unfolded call_on_simps,
      OF world_invD(2) [OF assms(3) live] enc ann world_invD(1) [OF assms(3)]]
  have "updated (w_subs w) (db (w_redis w)) (db (ms_redis s)) (w_cache w) = replica entity_ops (docs (ms_mongo s)) (w_subs w)"
    unfolding world_invD(3) [OF assms(3)] by (rule kept(4))
  with kept(1) show ?thesis
    using kept(2) others_live [OF assms(3) kept(3)]
    by (intro world_inv_afterI) (simp_all split: if_splits)
qed

lemma world_inv_delete:
  assumes "redis_behaves rd db" "mongo_behaves entity_ops entity_tag creator entity_stored mg docs" "world_inv docs w"
    and live: "w_live w i = Some x" and call: "MongoSynk_Delete entity_ops mg rd (call_on w x) = (Ret v, s)"
    and enc: "encodable entity_ops x"
  shows "world_inv docs (after_call db s ((w_live w)(i := None)) w)"
proof -
  note kept = delete_kept [OF assms(1,2) call, unfolded call_on_simps,
      OF world_invD(2) [OF assms(3) live] enc world_invD(1) [OF assms(3)]]
  have "updated (w_subs w) (db (w_redis w)) (db (ms_redis s)) (w_cache w) = replica entity_ops (docs (ms_mongo s)) (w_subs w)"
    unfolding world_invD(3) [OF assms(3)] by (rule kept(3))
  with kept(1) show ?thesis
    using others_live [OF assms(3) kept(2)]
    by (intro world_inv_afterI) (simp_all split: if_splits)
qed

lemma world_inv_subscribe:
  assumes "mongo_behaves entity_ops entity_tag creator entity_stored mg docs" "world_inv docs w"
    and load: "MongoSynk_Load creator mg (us_Add msg) (w_mongo w) = (Ret (objs, e), m')"
    and subs: "subs' = new_subscriptions msg (w_subs w)"
  shows "world_inv docs (w\<lparr>w_mongo := m', w_subs := subs',
    w_cache := fold (browser subs') (map (loaded_bytes entity_ops) objs) (forget subs' (w_cache w))\<rparr>)"
proof -
  have "\<forall>i y. docs (w_mongo w) i = Some y \<longrightarrow> creator (obj_TypeKey entity_ops y) \<noteq> None"
    using creator_total by blast
  note rep = entity_db.Subscribe_replica [OF assms(1) entity_creator_ok world_invD(1) [OF assms(2)] this load, of "w_subs w"]
  let ?w = "w\<lparr>w_mongo := m', w_subs := subs',
    w_cache := fold (browser subs') (map (loaded_bytes entity_ops) objs) (forget subs' (w_cache w))\<rparr>"
  have fields: "w_mongo ?w = m'" "w_subs ?w = subs'" "w_live ?w = w_live w"
      "w_cache ?w = fold (browser subs') (map (loaded_bytes entity_ops) objs) (forget subs' (w_cache w))"
    by simp_all
  show ?thesis
    unfolding world_inv_def fields unfolding world_invD(3) [OF assms(2)] unfolding subs rep [THEN conjunct2]
    unfolding rep [THEN conjunct1] using world_invD [OF assms(2)] by blast
qed

lemma world_inv_step:
  assumes "world_step mg rd db w w'" "world_inv docs w"
    and "redis_behaves rd db" "mongo_behaves entity_ops entity_tag creator entity_stored mg docs"
  shows "world_inv docs w'"
  using assms
proof (induction rule: world_step.induct)
  case (mutate w i x m)
  show ?case by (rule world_inv_mutate [OF mutate.prems(1) mutate.hyps])
next
  case (create w x v s)
  show ?case by (rule world_inv_create [OF create.prems(2,3,1) create.hyps])
next
  case (modify w i x v s)
  show ?case by (rule world_inv_modify [OF modify.prems(2,3,1) modify.hyps])
next
  case (delete w i x v s)
  show ?case by (rule world_inv_delete [OF delete.prems(2,3,1) delete.hyps])
next
  case (subscribe msg w objs e m' subs')
  show ?case by (rule world_inv_subscribe [OF subscribe.prems(3,1) subscribe.hyps])
qed

text \<open>
  C1: starting from an empty collection, in every history of setter calls, creations, modifications
  (moves included), deletions and changes of subscriptions, what the browser holds is exactly the
  stored objects whose subscription key it is subscribed to, each with its current state, key and
  version, and each object in memory is in step with its document. Provided the calls return, the
  texts are valid UTF-8, an old key has no brace and a new key is not empty.
\<close>

theorem browser_replica_exact:
  assumes "redis_behaves rd db" "mongo_behaves entity_ops entity_tag creator entity_stored mg docs"
    and "world_empty docs w" "world_reaches mg rd db w w'"
  shows "w_cache w' = replica entity_ops (docs (w_mongo w')) (w_subs w') \<and>
    documents_ok entity_ops entity_tag (docs (w_mongo w')) \<and>
    (\<forall>i x. w_live w' i = Some x \<longrightarrow> live_ok (docs (w_mongo w')) i x)"
proof -
  have "world_inv docs w'"
    using assms(4)
  proof (induction rule: world_reaches.induct)
    case world_start
    show ?case by (rule world_inv_empty [OF assms(3)])
  next
    case (world_next w1 w2)
    show ?case by (rule world_inv_step [OF world_next.hyps(2) world_next.IH assms(1,2)])
  qed
  then show ?thesis by (simp add: world_inv_def)
qed

text \<open>A history for the witness: a browser that watches one chunk, and a human created there.\<close>

fun encodes_well :: "error + json \<Rightarrow> bool" where
  "encodes_well (Inl e) = True"
| "encodes_well (Inr j) = wf_json j"

lemma encodes_well_iff: "encodes_well r \<longleftrightarrow> (\<forall>j. r = Inr j \<longrightarrow> wf_json j)"
  by (cases r) simp_all

definition demo_world :: "((string \<times> entity) list, mem_db) world" where
  "demo_world = \<lparr>w_live = Map.empty, w_rand = demo_rand, w_mongo = [], w_redis = mem_empty,
     w_subs = [''m:0|0'' \<mapsto> True], w_cache = Map.empty\<rparr>"

definition demo_created :: "(entity, (string \<times> entity) list, mem_db) mstate" where
  "demo_created = snd (MongoSynk_Create entity_ops mem_mongo mem_redis demo_new)"

definition demo_obj :: entity where
  "demo_obj = EHuman \<lparr>hTag = \<lparr>TagID = ''1234567890abcde!'', TagSub = ''m:0|0'', TagType = ''c:h'', V = 1\<rparr>,
     hX = 0, hY = 0, hCX = 0, hCY = 0, hCI = 0, hMapID = ''m'', hdiff = no_human_diff\<rparr>"

lemma demo_created_obj: "ms_obj demo_created = demo_obj"
  by code_simp

lemma demo_obj_texts:
  "valid_utf8 (obj_TagGetID entity_ops demo_obj)" "valid_utf8 (obj_TypeKey entity_ops demo_obj)"
  "valid_utf8 (obj_GetSubKey entity_ops demo_obj)" "valid_utf8 (obj_GetPrevSubKey entity_ops demo_obj)"
  "encodes_well (obj_MarshalDiff entity_ops (obj_State entity_ops demo_obj))"
  "encodes_well (obj_MarshalDiff entity_ops (fst (obj_Resolve entity_ops demo_obj)))"
  "encodes_well (obj_MarshalDiff entity_ops (obj_State entity_ops (snd (obj_Resolve entity_ops demo_obj))))"
  by code_simp+

lemma demo_created_encodable: "encodable entity_ops (ms_obj demo_created)"
  unfolding encodable_def encodes_well_iff [symmetric] demo_created_obj using demo_obj_texts by blast

lemma browser_replica_exact_witness:
  "\<exists>w'. world_reaches mem_mongo mem_redis mem_view demo_world w' \<and> map_of (w_mongo w') \<noteq> Map.empty \<and>
     w_cache w' = replica entity_ops (map_of (w_mongo w')) (w_subs w')"
proof -
  let ?i = "obj_TagGetID entity_ops (ms_obj demo_created)"
  let ?w = "after_call mem_view demo_created ((w_live demo_world)(?i \<mapsto> ms_obj demo_created)) demo_world"
  let ?x = "EHuman (Human_SetMapID ''m'' new_human)"
  have "call_on demo_world ?x = demo_new" by (simp add: call_on_def demo_world_def demo_new_def)
  then have call: "MongoSynk_Create entity_ops mem_mongo mem_redis (call_on demo_world ?x) = (Ret None, demo_created)"
    using demo_Create by (simp add: demo_created_def)
  have "TagType (entity_tag ?x) \<in> {'''', obj_TypeKey entity_ops ?x}" by (simp add: new_human_def empty_tag_def Human_SetMapID_def)
  from world_step.create [OF call demo_created_encodable this, of mem_view]
  have reach: "world_reaches mem_mongo mem_redis mem_view demo_world ?w" by (blast intro: world_reaches.intros)
  have empty: "world_empty map_of demo_world" by (simp add: world_empty_def demo_world_def)
  have "map_of (ms_mongo demo_created) ?i \<noteq> None" using Create_Ret [OF mem_redis_behaves mem_mongo_behaves call] by simp
  then have "map_of (w_mongo ?w) \<noteq> Map.empty" by (auto simp: after_call_def)
  with browser_replica_exact [OF mem_redis_behaves mem_mongo_behaves empty reach] reach show ?thesis by blast
qed

end
