(* ===== verification/Concurrent.thy ===== *)
theory Concurrent
  imports World
begin

text \<open>
  Many calls at the same time: processes own different objects and call \<open>Create\<close>, \<open>Modify\<close> and
  \<open>Delete\<close> on them concurrently. A call writes its document and then publishes its messages one after the
  other; between these effects come those of the calls on other objects, the deliveries to a client
  and the main loop of that client. The invariant adds up, for each object, what the browser holds,
  what is in the client's queue about the object, and what its call has still to publish.
\<close>

section \<open>Messages about one object\<close>

text \<open>What passes of a message to a client, and what it does to one object in the browser.\<close>

definition passed :: "(string \<rightharpoonup> bool) \<Rightarrow> string \<times> bytes \<Rightarrow> bytes list" where
  "passed subs km = ch_buf (deliver subs km (make_chan 1))"

definition effect :: "(string \<rightharpoonup> bool) \<Rightarrow> string \<Rightarrow> bytes \<Rightarrow> view option \<Rightarrow> view option" where
  "effect subs i b v = browser subs b ((\<lambda>_. None)(i := v)) i"

definition tells :: "(string \<rightharpoonup> bool) \<Rightarrow> string \<Rightarrow> bytes \<Rightarrow> bool" where
  "tells subs i b \<longleftrightarrow> (\<forall>cache. browser subs b cache = cache(i := effect subs i b (cache i)))"

lemma tellsI: "(\<And>cache. browser subs b cache = cache(i := g (cache i))) \<Longrightarrow> tells subs i b"
  by (simp add: tells_def effect_def)

lemma fold_tells:
  "list_all (tells subs i) bs \<Longrightarrow> fold (browser subs) bs cache = cache(i := fold (effect subs i) bs (cache i))"
proof (induction bs arbitrary: cache)
  case (Cons b bs)
  then have "browser subs b cache = cache(i := effect subs i b (cache i))" by (simp add: tells_def)
  with Cons show ?case by (auto simp: fun_eq_iff)
qed simp

lemma deliver_passed: "room 1 to \<Longrightarrow> deliver subs km to = queued (passed subs km) to"
  by (auto simp: passed_def deliver_def Receive_def Receive_send put_out_def room_def queued_def make_chan_def Let_def
      split: option.split)

lemma passed_short: "length (passed subs km) \<le> 1"
  by (auto simp: passed_def deliver_def Receive_def Receive_send put_out_def make_chan_def Let_def split: option.split)

lemma deliver_all_passed:
  "room (length ms) to \<Longrightarrow> deliver_all subs ms to = queued (concat (map (passed subs) ms)) to"
proof (induction ms arbitrary: to)
  case (Cons km ms)
  have "room 1 to" by (rule room_mono [OF Cons.prems]) simp
  moreover have "room (length ms) (queued (passed subs km) to)"
    using Cons.prems passed_short [of subs km] by (auto simp: room_def queued_def)
  ultimately show ?case using Cons.IH by (simp add: deliver_passed)
qed simp

lemma passed_json: "passed subs (ch, CHR ''{'' # r) = (if subs ch = None then [] else [CHR ''{'' # r])"
  by (simp add: passed_def deliver_def Receive_plain put_out_def make_chan_def)

lemma passed_moved:
  "CHR ''{'' \<notin> set psk \<Longrightarrow> passed subs (ch, ''from '' @ psk @ CHR ''{'' # r) =
     (if subs ch = None \<or> subs psk \<noteq> None then [] else [CHR ''{'' # r])"
  using Receive_from [of psk subs ch r "make_chan 1"] by (simp add: passed_def deliver_def put_out_def make_chan_def)

text \<open>A call on one object: few messages, all about the object, which take the browser from one replica to the next.\<close>

definition announces :: "(string \<rightharpoonup> bool) \<Rightarrow> string \<Rightarrow> (string \<times> bytes) list \<Rightarrow> bool" where
  "announces subs i ms \<longleftrightarrow> list_all (\<lambda>km. list_all (tells subs i) (passed subs km)) ms"

lemma announces_tells: "announces subs i ms \<Longrightarrow> list_all (tells subs i) (concat (map (passed subs) ms))"
  by (induction ms) (simp_all add: announces_def)

lemma updated_effect:
  assumes "announces subs i (published_since d d')" "length (published_since d d') \<le> 2"
    and "updated subs d d' cache = cache'"
  shows "fold (effect subs i) (concat (map (passed subs) (published_since d d'))) (cache i) = cache' i"
proof -
  have "room (length (published_since d d')) (make_chan clientBufferLength)"
    using assms(2) by (intro room_mono [OF fresh_room(1)])
  from deliver_all_passed [OF this]
  have "updated subs d d' cache = fold (browser subs) (concat (map (passed subs) (published_since d d'))) cache"
    by (simp add: updated_def queued_def fresh_room)
  also have "\<dots> = cache(i := fold (effect subs i) (concat (map (passed subs) (published_since d d'))) (cache i))"
    by (rule fold_tells [OF announces_tells [OF assms(1)]])
  finally show ?thesis using assms(3) by auto
qed

context stored_object
begin

lemma Modify_effects:
  assumes "redis_behaves rd db" "mongo_behaves ops tag_of mk stored mg docs"
    and "MongoSynk_Modify ops mg rd s = (Ret v, s')"
  defines "x \<equiv> ms_obj s"
  assumes "encodable ops x" "announceable ops x"
  obtains r1 r2 f where
    "published_since (db (ms_redis s)) (db (ms_redis s')) =
      (if obj_GetSubKey ops x = obj_GetPrevSubKey ops x then [(obj_GetPrevSubKey ops x, CHR ''{'' # r1)]
       else [(obj_GetPrevSubKey ops x, CHR ''{'' # r1), (obj_GetSubKey ops x, ''from '' @ obj_GetPrevSubKey ops x @ CHR ''{'' # r2)])"
    "\<And>subs. tells subs (obj_TagGetID ops x) (CHR ''{'' # r1)" "\<And>subs. tells subs (obj_TagGetID ops x) (CHR ''{'' # r2)"
    "\<And>subs u. effect subs (obj_TagGetID ops x) (CHR ''{'' # r1) u = (case u of None \<Rightarrow> None | Some view \<Rightarrow>
       (let k = (if obj_GetSubKey ops x = obj_GetPrevSubKey ops x then vw_key view else obj_GetSubKey ops x)
        in if subs k = None then None else Some \<lparr>vw_fields = vw_fields view ++ f, vw_key = k,
          vw_version = Some (juint (obj_Version ops x + 1))\<rparr>))"
    "\<And>subs u. effect subs (obj_TagGetID ops x) (CHR ''{'' # r2) u = Some (view_of ops (modified_obj ops x))"
    "view_of ops (modified_obj ops x) = \<lparr>vw_fields = vw_fields (view_of ops x) ++ f, vw_key = obj_GetSubKey ops x,
      vw_version = Some (juint (obj_Version ops x + 1))\<rparr>"
proof -
  let ?i = "obj_TagGetID ops x" and ?p = "obj_GetPrevSubKey ops x" and ?n = "obj_GetSubKey ops x"
  let ?y = "modified_obj ops x"
  obtain js jd js' where js: "obj_MarshalDiff ops (obj_State ops x) = Inr js"
    and jd: "obj_MarshalDiff ops (fst (obj_Resolve ops x)) = Inr jd"
    and js': "obj_MarshalDiff ops (obj_State ops (snd (obj_Resolve ops x))) = Inr js'"
    and merge: "json_fields js' = json_fields js ++ json_fields jd"
    using resolve_merge by blast
  have valid: "valid_utf8 ?i" "valid_utf8 ?p" "valid_utf8 ?n" "valid_utf8 (obj_TypeKey ops x)" "wf_json jd" "wf_json js'"
    using assms(5) jd js' by (auto simp: encodable_def)
  obtain m a where m: "marshal (modMsg_json ops (mod_msg_of ops x)) = Inr m"
    and a: "marshal (addMsg_json ops (add_msg_of ops ?y ?p (obj_TypeKey ops x))) = Inr a"
    and pub: "published_since (db (ms_redis s)) (db (ms_redis s')) =
      (if ?n = ?p then [(?p, m)] else [(?p, m), (?n, ''from '' @ ?p @ a)])"
    using Modify_published [OF assms(1-3)] unfolding x_def by blast
  obtain r1 r2 where br: "m = CHR ''{'' # r1" "a = CHR ''{'' # r2"
    using marshal_msg_brace(2) [OF m] marshal_msg_brace(1) [OF a] by blast
  have msg: "mod_ID (mod_msg_of ops x) = ?i" "mod_SKey (mod_msg_of ops x) = ?p" "mod_Diff (mod_msg_of ops x) = fst (obj_Resolve ops x)"
      "mod_NSKey (mod_msg_of ops x) = (if ?n = ?p then '''' else ?n)" "mod_Version (mod_msg_of ops x) = obj_Version ops x + 1"
    by (simp_all add: mod_msg_of_def resolve_version)
  have "valid_utf8 (mod_NSKey (mod_msg_of ops x))" using valid(3) by (simp add: msg)
  note mod_eq = browser_mod_eq [OF m, unfolded msg, OF jd valid(5,1,2) this [unfolded msg]]
  have key: "(if (if ?n = ?p then '''' else ?n) = '''' then vw_key view else if ?n = ?p then '''' else ?n) =
      (if ?n = ?p then vw_key view else ?n)" for view :: view
    using assms(6) by (auto simp: announceable_def)
  let ?g = "\<lambda>subs v. case v of None \<Rightarrow> None | Some view \<Rightarrow>
    (let k = (if ?n = ?p then vw_key view else ?n)
     in if subs k = None then None else Some \<lparr>vw_fields = vw_fields view ++ json_fields jd, vw_key = k,
       vw_version = Some (juint (obj_Version ops x + 1))\<rparr>)"
  have m_eq: "browser subs m cache = cache(?i := ?g subs (cache ?i))" for subs cache
    unfolding mod_eq key by (cases "cache ?i") (simp_all add: Let_def fun_upd_idem)
  have view: "view_of ops ?y = \<lparr>vw_fields = json_fields js', vw_key = ?n, vw_version = Some (juint (obj_Version ops x + 1))\<rparr>"
    by (simp add: view_of_def state_fields_def modified_frame modified_keys js')
  have a_eq: "browser subs a cache = cache(?i := Some (view_of ops ?y))" for subs cache
    using browser_add [OF a, of js'] valid js' by (simp add: add_msg_of_def modified_frame modified_keys view)
  show thesis
  proof (rule that [OF pub [unfolded br]])
    show "tells subs ?i (CHR ''{'' # r1)" for subs
      unfolding br(1) [symmetric] by (rule tellsI [where g = "?g subs"]) (rule m_eq)
    show "tells subs ?i (CHR ''{'' # r2)" for subs
      unfolding br(2) [symmetric] by (rule tellsI) (rule a_eq)
    show "effect subs ?i (CHR ''{'' # r1) u = ?g subs u" for subs u
      unfolding br(1) [symmetric] effect_def m_eq by simp
    show "effect subs ?i (CHR ''{'' # r2) u = Some (view_of ops ?y)" for subs u
      unfolding br(2) [symmetric] effect_def a_eq by simp
    show "view_of ops ?y = \<lparr>vw_fields = vw_fields (view_of ops x) ++ json_fields jd, vw_key = ?n,
        vw_version = Some (juint (obj_Version ops x + 1))\<rparr>"
      unfolding view merge by (simp add: view_of_def state_fields_def js)
  qed
qed

lemma Modify_announces:
  assumes "redis_behaves rd db" "mongo_behaves ops tag_of mk stored mg docs"
    and "MongoSynk_Modify ops mg rd s = (Ret v, s')" "encodable ops (ms_obj s)" "announceable ops (ms_obj s)"
  shows "announces subs (obj_TagGetID ops (ms_obj s)) (published_since (db (ms_redis s)) (db (ms_redis s'))) \<and>
    length (published_since (db (ms_redis s)) (db (ms_redis s'))) \<le> 2"
proof (rule Modify_effects [OF assms])
  fix r1 r2 f
  assume pub: "published_since (db (ms_redis s)) (db (ms_redis s')) =
      (if obj_GetSubKey ops (ms_obj s) = obj_GetPrevSubKey ops (ms_obj s) then [(obj_GetPrevSubKey ops (ms_obj s), CHR ''{'' # r1)]
       else [(obj_GetPrevSubKey ops (ms_obj s), CHR ''{'' # r1),
         (obj_GetSubKey ops (ms_obj s), ''from '' @ obj_GetPrevSubKey ops (ms_obj s) @ CHR ''{'' # r2)])"
    and tells: "\<And>subs. tells subs (obj_TagGetID ops (ms_obj s)) (CHR ''{'' # r1)" "\<And>subs. tells subs (obj_TagGetID ops (ms_obj s)) (CHR ''{'' # r2)"
  have "CHR ''{'' \<notin> set (obj_GetPrevSubKey ops (ms_obj s))" using assms(5) by (simp add: announceable_def)
  note moved = passed_moved [OF this, simplified]
  show ?thesis
    by (cases "obj_GetSubKey ops (ms_obj s) = obj_GetPrevSubKey ops (ms_obj s)")
      (simp_all only: pub if_True if_False, simp_all add: announces_def passed_json moved tells)
qed

lemma Create_effects:
  assumes "redis_behaves rd db" "mongo_behaves ops tag_of mk stored mg docs"
    and "MongoSynk_Create ops mg rd s = (Ret v, s')"
    and "encodable ops (ms_obj s')" "valid_utf8 (obj_TypeKey ops (ms_obj s))"
  obtains r where "published_since (db (ms_redis s)) (db (ms_redis s')) = [(obj_GetPrevSubKey ops (ms_obj s'), CHR ''{'' # r)]"
    "\<And>subs. tells subs (obj_TagGetID ops (ms_obj s')) (CHR ''{'' # r)"
    "\<And>subs u. effect subs (obj_TagGetID ops (ms_obj s')) (CHR ''{'' # r) u = Some (view_of ops (ms_obj s'))"
proof -
  let ?y = "ms_obj s'" and ?i = "obj_TagGetID ops (ms_obj s')"
  have y: "?y = created_obj ops (ms_obj s) (ms_rand s)" using Create_Ret [OF assms(1-3)] by auto
  have key: "obj_GetPrevSubKey ops ?y = obj_GetSubKey ops ?y" unfolding y by (rule created_keys(1))
  obtain b where b: "marshal (addMsg_json ops (add_msg_of ops ?y '''' (obj_TypeKey ops (ms_obj s)))) = Inr b"
    and pub: "published_since (db (ms_redis s)) (db (ms_redis s')) = [(obj_GetSubKey ops ?y, b)]"
    using Create_Ret [OF assms(1-3)] y created_keys [of "ms_obj s" "ms_rand s"] set_sub_keys(1)
    by (fastforce simp: add_msg_of_def)
  obtain js where js: "obj_MarshalDiff ops (obj_State ops ?y) = Inr js" using diff_json by blast
  obtain r where br: "b = CHR ''{'' # r" using marshal_msg_brace(1) [OF b] by blast
  have eq: "browser subs b cache = cache(?i := Some (view_of ops ?y))" for subs cache
    using browser_add [OF b, of js] js assms(4,5)
    by (simp add: add_msg_of_def encodable_def view_of_def state_fields_def key)
  show thesis
  proof (rule that [OF pub [unfolded br, folded key]])
    show "tells subs ?i (CHR ''{'' # r)" for subs unfolding br [symmetric] by (rule tellsI) (rule eq)
    show "effect subs ?i (CHR ''{'' # r) u = Some (view_of ops ?y)" for subs u
      unfolding br [symmetric] effect_def eq by simp
  qed
qed

lemma Create_announces:
  assumes "redis_behaves rd db" "mongo_behaves ops tag_of mk stored mg docs"
    and "MongoSynk_Create ops mg rd s = (Ret v, s')"
    and "encodable ops (ms_obj s')" "valid_utf8 (obj_TypeKey ops (ms_obj s))"
  shows "announces subs (obj_TagGetID ops (ms_obj s')) (published_since (db (ms_redis s)) (db (ms_redis s'))) \<and>
    length (published_since (db (ms_redis s)) (db (ms_redis s'))) \<le> 2"
  by (rule Create_effects [OF assms]) (simp add: announces_def passed_json)

lemma Delete_effects:
  assumes "redis_behaves rd db" "mongo_behaves ops tag_of mk stored mg docs"
    and "MongoSynk_Delete ops mg rd s = (Ret v, s')" "encodable ops (ms_obj s)"
  obtains r where "published_since (db (ms_redis s)) (db (ms_redis s')) = [(obj_GetPrevSubKey ops (ms_obj s), CHR ''{'' # r)]"
    "\<And>subs. tells subs (obj_TagGetID ops (ms_obj s)) (CHR ''{'' # r)"
    "\<And>subs u. effect subs (obj_TagGetID ops (ms_obj s)) (CHR ''{'' # r) u = None"
proof -
  let ?i = "obj_TagGetID ops (ms_obj s)"
  obtain b where b: "marshal (remMsg_json (rem_msg_of ops (ms_obj s))) = Inr b"
    and pub: "published_since (db (ms_redis s)) (db (ms_redis s')) = [(obj_GetPrevSubKey ops (ms_obj s), b)]"
    using Delete_Ret [OF assms(1-3)] by auto
  obtain r where br: "b = CHR ''{'' # r" using marshal_msg_brace(3) [OF b] by blast
  have eq: "browser subs b cache = cache(?i := None)" for subs cache
    using browser_rem [OF b] assms(4) by (simp add: rem_msg_of_def encodable_def)
  show thesis
  proof (rule that [OF pub [unfolded br]])
    show "tells subs ?i (CHR ''{'' # r)" for subs unfolding br [symmetric] by (rule tellsI) (rule eq)
    show "effect subs ?i (CHR ''{'' # r) u = None" for subs u unfolding br [symmetric] effect_def eq by simp
  qed
qed

lemma Delete_announces:
  assumes "redis_behaves rd db" "mongo_behaves ops tag_of mk stored mg docs"
    and "MongoSynk_Delete ops mg rd s = (Ret v, s')" "encodable ops (ms_obj s)"
  shows "announces subs (obj_TagGetID ops (ms_obj s)) (published_since (db (ms_redis s)) (db (ms_redis s'))) \<and>
    length (published_since (db (ms_redis s)) (db (ms_redis s'))) \<le> 2"
  by (rule Delete_effects [OF assms]) (simp add: announces_def passed_json)

end

section \<open>The system\<close>

text \<open>
  The objects that processes hold in memory, the random source, the collection, what the running call on
  each object has still to publish, and one client with its browser. \<open>docs\<close> is what is stored.
\<close>

record 'm system =
  cs_live :: "string \<rightharpoonup> entity"
  cs_rand :: rand
  cs_mongo :: 'm
  cs_pending :: "string \<Rightarrow> (string \<times> bytes) list"
  cs_to :: "bytes chan"
  cs_cache :: cache

text \<open>A call and what it has to publish; the messages do not depend on the server that gets them.\<close>

definition call_with :: "'m system \<Rightarrow> 'r \<Rightarrow> entity \<Rightarrow> (entity, 'm, 'r) mstate" where
  "call_with w r x = \<lparr>ms_obj = x, ms_rand = cs_rand w, ms_mongo = cs_mongo w, ms_redis = r\<rparr>"

definition written :: "('r \<Rightarrow> redis_db) \<Rightarrow> 'r \<Rightarrow> (entity, 'm, 'r) mstate \<Rightarrow> string \<Rightarrow> entity option \<Rightarrow> 'm system \<Rightarrow> 'm system" where
  "written db r s i x w = w\<lparr>cs_live := (cs_live w)(i := x), cs_rand := ms_rand s, cs_mongo := ms_mongo s,
     cs_pending := (cs_pending w)(i := published_since (db r) (db (ms_redis s)))\<rparr>"

text \<open>
  A call is in progress on an object while it has messages to publish; the same process does not start
  another one. A delivery waits for room in the queue.
\<close>

inductive system_step :: "('m, entity, 'raw) mongo \<Rightarrow> 'r redis \<Rightarrow> ('r \<Rightarrow> redis_db) \<Rightarrow> (string \<rightharpoonup> bool) \<Rightarrow> 'm system \<Rightarrow> 'm system \<Rightarrow> bool"
  for mg rd db subs where
  sys_mutate: "cs_live w i = Some x \<Longrightarrow> cs_pending w i = [] \<Longrightarrow>
     system_step mg rd db subs w (w\<lparr>cs_live := (cs_live w)(i \<mapsto> entity_do m x)\<rparr>)"
| sys_create: "MongoSynk_Create entity_ops mg rd (call_with w r x) = (Ret v, s) \<Longrightarrow> encodable entity_ops (ms_obj s) \<Longrightarrow>
     TagType (entity_tag x) \<in> {'''', obj_TypeKey entity_ops x} \<Longrightarrow> i = obj_TagGetID entity_ops (ms_obj s) \<Longrightarrow> cs_pending w i = [] \<Longrightarrow>
     system_step mg rd db subs w (written db r s i (Some (ms_obj s)) w)"
| sys_modify: "cs_live w i = Some x \<Longrightarrow> cs_pending w i = [] \<Longrightarrow> MongoSynk_Modify entity_ops mg rd (call_with w r x) = (Ret v, s) \<Longrightarrow>
     encodable entity_ops x \<Longrightarrow> announceable entity_ops x \<Longrightarrow>
     system_step mg rd db subs w (written db r s i (Some (ms_obj s)) w)"
| sys_delete: "cs_live w i = Some x \<Longrightarrow> cs_pending w i = [] \<Longrightarrow> MongoSynk_Delete entity_ops mg rd (call_with w r x) = (Ret v, s) \<Longrightarrow>
     encodable entity_ops x \<Longrightarrow>
     system_step mg rd db subs w (written db r s i None w)"
| sys_publish: "cs_pending w i = km # kms \<Longrightarrow> room 1 (cs_to w) \<Longrightarrow>
     system_step mg rd db subs w (w\<lparr>cs_pending := (cs_pending w)(i := kms), cs_to := deliver subs km (cs_to w)\<rparr>)"
| sys_flush: "chan_recv (cs_to w) = (Returned (Some b), to') \<Longrightarrow>
     system_step mg rd db subs w (w\<lparr>cs_to := to', cs_cache := browser subs b (cs_cache w)\<rparr>)"

inductive system_reaches :: "('m, entity, 'raw) mongo \<Rightarrow> 'r redis \<Rightarrow> ('r \<Rightarrow> redis_db) \<Rightarrow> (string \<rightharpoonup> bool) \<Rightarrow> 'm system \<Rightarrow> 'm system \<Rightarrow> bool"
  for mg rd db subs w where
  system_refl: "system_reaches mg rd db subs w w"
| system_more: "system_reaches mg rd db subs w w' \<Longrightarrow> system_step mg rd db subs w' w'' \<Longrightarrow> system_reaches mg rd db subs w w''"

text \<open>At the start nothing is stored, nothing is in flight, and the browser is empty.\<close>

definition system_empty :: "('m \<Rightarrow> string \<rightharpoonup> entity) \<Rightarrow> 'm system \<Rightarrow> bool" where
  "system_empty docs w \<longleftrightarrow> docs (cs_mongo w) = Map.empty \<and> cs_live w = Map.empty \<and> cs_cache w = Map.empty \<and>
     (\<forall>i. cs_pending w i = []) \<and> cs_to w = make_chan clientBufferLength"

section \<open>The invariant\<close>

text \<open>The messages of the queue about one object; \<open>qs\<close> is the queue with the object of each message.\<close>

definition about :: "string \<Rightarrow> (string \<times> bytes) list \<Rightarrow> bytes list" where
  "about i qs = map snd (filter (\<lambda>p. fst p = i) qs)"

definition in_flight :: "(string \<rightharpoonup> bool) \<Rightarrow> (string \<times> bytes) list \<Rightarrow> (string \<Rightarrow> (string \<times> bytes) list) \<Rightarrow> string \<Rightarrow> bytes list" where
  "in_flight subs qs pending i = about i qs @ concat (map (passed subs) (pending i))"

definition in_step :: "('m \<Rightarrow> string \<rightharpoonup> entity) \<Rightarrow> (string \<rightharpoonup> bool) \<Rightarrow> (string \<times> bytes) list \<Rightarrow> 'm system \<Rightarrow> bool" where
  "in_step docs subs qs w \<longleftrightarrow> map snd qs = ch_buf (cs_to w) \<and> list_all (\<lambda>(i, b). tells subs i b) qs \<and>
     (\<forall>i. announces subs i (cs_pending w i)) \<and>
     (\<forall>i. fold (effect subs i) (in_flight subs qs (cs_pending w) i) (cs_cache w i) = replica entity_ops (docs (cs_mongo w)) subs i)"

definition stored_ok :: "('m \<Rightarrow> string \<rightharpoonup> entity) \<Rightarrow> 'm system \<Rightarrow> bool" where
  "stored_ok docs w \<longleftrightarrow> documents_ok entity_ops entity_tag (docs (cs_mongo w)) \<and>
     (\<forall>i x. cs_live w i = Some x \<longrightarrow> live_ok (docs (cs_mongo w)) i x)"

definition system_inv :: "('m \<Rightarrow> string \<rightharpoonup> entity) \<Rightarrow> (string \<rightharpoonup> bool) \<Rightarrow> 'm system \<Rightarrow> bool" where
  "system_inv docs subs w \<longleftrightarrow> stored_ok docs w \<and> (\<exists>qs. in_step docs subs qs w)"

lemma about_simps [simp]:
  "about i [] = []" "about i (qs @ qs') = about i qs @ about i qs'"
  "about i ((j, b) # qs) = (if j = i then b # about i qs else about i qs)"
  "about i (map (Pair j) bs) = (if j = i then bs else [])"
  by (simp_all add: about_def filter_map comp_def)

lemma system_inv_empty: "system_empty docs w \<Longrightarrow> system_inv docs subs w"
proof -
  assume "system_empty docs w"
  then have "stored_ok docs w" "in_step docs subs [] w"
    by (simp_all add: system_empty_def stored_ok_def documents_ok_def in_step_def in_flight_def announces_def replica_def fresh_room)
  then show ?thesis by (auto simp: system_inv_def)
qed

lemma in_stepD:
  "in_step docs subs qs w \<Longrightarrow>
   fold (effect subs i) (in_flight subs qs (cs_pending w) i) (cs_cache w i) = replica entity_ops (docs (cs_mongo w)) subs i"
  unfolding in_step_def by blast

text \<open>Publishing and passing on do not change what an object will look like.\<close>

lemma in_step_publish:
  assumes "in_step docs subs qs w" "cs_pending w i = km # kms" "room 1 (cs_to w)"
  shows "in_step docs subs (qs @ map (Pair i) (passed subs km))
    (w\<lparr>cs_pending := (cs_pending w)(i := kms), cs_to := deliver subs km (cs_to w)\<rparr>)"
proof -
  have pend: "announces subs i (km # kms)" using assms(1) unfolding in_step_def assms(2) [symmetric] by blast
  then have "list_all (\<lambda>(j, b). tells subs j b) (map (Pair i) (passed subs km))"
    by (simp add: announces_def list_all_iff)
  moreover have "announces subs i kms" using pend by (simp add: announces_def)
  moreover have "in_flight subs (qs @ map (Pair i) (passed subs km)) ((cs_pending w)(i := kms)) j = in_flight subs qs (cs_pending w) j" for j
    by (cases "j = i") (simp_all add: in_flight_def assms(2))
  ultimately show ?thesis
    using assms(1) unfolding in_step_def deliver_passed [OF assms(3)] by (simp add: queued_def comp_def)
qed

lemma in_step_flush:
  assumes "in_step docs subs ((i, b) # qs) w" "to' = (cs_to w)\<lparr>ch_buf := map snd qs\<rparr>"
  shows "in_step docs subs qs (w\<lparr>cs_to := to', cs_cache := browser subs b (cs_cache w)\<rparr>)"
proof -
  have "tells subs i b" using assms(1) by (simp add: in_step_def)
  then have now: "browser subs b (cs_cache w) = (cs_cache w)(i := effect subs i b (cs_cache w i))" by (simp add: tells_def)
  have "fold (effect subs j) (in_flight subs qs (cs_pending w) j) (browser subs b (cs_cache w) j) =
      replica entity_ops (docs (cs_mongo w)) subs j" for j
    using in_stepD [OF assms(1), of j] by (cases "j = i") (simp_all add: now in_flight_def)
  with assms show ?thesis by (simp add: in_step_def)
qed

text \<open>A call that wrote the document of one object.\<close>

lemma in_step_written:
  assumes "in_step docs subs qs w" "cs_pending w i = []"
    and "announces subs i (published_since (db r) (db (ms_redis s)))" "length (published_since (db r) (db (ms_redis s))) \<le> 2"
    and "updated subs (db r) (db (ms_redis s)) (replica entity_ops (docs (cs_mongo w)) subs) = replica entity_ops (docs (ms_mongo s)) subs"
    and "\<And>j. j \<noteq> i \<Longrightarrow> docs (ms_mongo s) j = docs (cs_mongo w) j"
  shows "in_step docs subs qs (written db r s i x w)"
proof -
  let ?ms = "published_since (db r) (db (ms_redis s))"
  have now: "fold (effect subs i) (concat (map (passed subs) ?ms)) (replica entity_ops (docs (cs_mongo w)) subs i) =
      replica entity_ops (docs (ms_mongo s)) subs i"
    by (rule updated_effect [OF assms(3-5)])
  have "fold (effect subs j) (in_flight subs qs ((cs_pending w)(i := ?ms)) j) (cs_cache w j) = replica entity_ops (docs (ms_mongo s)) subs j" for j
  proof (cases "j = i")
    case True
    have "fold (effect subs i) (about i qs) (cs_cache w i) = replica entity_ops (docs (cs_mongo w)) subs i"
      using in_stepD [OF assms(1), of i] assms(2) by (simp add: in_flight_def)
    with now True show ?thesis by (simp add: in_flight_def)
  next
    case False
    with assms(1,6) show ?thesis by (simp add: in_step_def in_flight_def replica_def)
  qed
  with assms(1,3) show ?thesis by (simp add: in_step_def written_def)
qed

lemma stored_ok_written:
  assumes "stored_ok docs w" "documents_ok entity_ops entity_tag (docs (ms_mongo s))"
    and "\<And>j. j \<noteq> i \<Longrightarrow> docs (ms_mongo s) j = docs (cs_mongo w) j"
    and "\<And>y. x = Some y \<Longrightarrow> live_ok (docs (ms_mongo s)) i y"
  shows "stored_ok docs (written db r s i x w)"
proof -
  have "live_ok (docs (ms_mongo s)) j z" if "((cs_live w)(i := x)) j = Some z" for j z
  proof (cases "j = i")
    case True
    with that assms(4) show ?thesis by simp
  next
    case False
    with that assms(1) have "live_ok (docs (cs_mongo w)) j z" by (simp add: stored_ok_def)
    from this assms(3) [OF False] show ?thesis by (rule live_ok_frame)
  qed
  with assms(2) show ?thesis by (simp add: stored_ok_def written_def)
qed

lemma system_inv_written:
  assumes "system_inv docs subs w" "cs_pending w i = []"
    and "announces subs i (published_since (db r) (db (ms_redis s))) \<and> length (published_since (db r) (db (ms_redis s))) \<le> 2"
    and "updated subs (db r) (db (ms_redis s)) (replica entity_ops (docs (cs_mongo w)) subs) = replica entity_ops (docs (ms_mongo s)) subs"
    and "documents_ok entity_ops entity_tag (docs (ms_mongo s))"
    and "docs (ms_mongo s) = (docs (cs_mongo w))(i := d)"
    and "\<And>y. x = Some y \<Longrightarrow> live_ok (docs (ms_mongo s)) i y"
  shows "system_inv docs subs (written db r s i x w)"
proof -
  obtain qs where qs: "in_step docs subs qs w" using assms(1) by (auto simp: system_inv_def)
  have others: "docs (ms_mongo s) j = docs (cs_mongo w) j" if "j \<noteq> i" for j
    unfolding assms(6) using that by (rule fun_upd_other)
  have "in_step docs subs qs (written db r s i x w)"
    by (rule in_step_written [OF qs assms(2) assms(3) [THEN conjunct1] assms(3) [THEN conjunct2] assms(4) others])
  moreover have "stored_ok docs (written db r s i x w)"
    using assms(1) by (intro stored_ok_written [OF _ assms(5) others assms(7)]) (simp add: system_inv_def)
  ultimately show ?thesis by (auto simp: system_inv_def)
qed

section \<open>The steps keep the invariant\<close>

lemma call_with_simps [simp]:
  "ms_obj (call_with w r x) = x" "ms_mongo (call_with w r x) = cs_mongo w" "ms_redis (call_with w r x) = r"
  by (simp_all add: call_with_def)

lemma system_inv_step:
  assumes "redis_behaves rd db" "mongo_behaves entity_ops entity_tag creator entity_stored mg docs"
    and "system_step mg rd db subs w w'" "system_inv docs subs w"
  shows "system_inv docs subs w'"
proof -
  have docs_ok: "documents_ok entity_ops entity_tag (docs (cs_mongo w))"
    and live: "\<And>i x. cs_live w i = Some x \<Longrightarrow> live_ok (docs (cs_mongo w)) i x"
    using assms(4) by (simp_all add: system_inv_def stored_ok_def)
  obtain qs where qs: "in_step docs subs qs w" using assms(4) by (auto simp: system_inv_def)
  from assms(3) show ?thesis
  proof (cases rule: system_step.cases)
    case (sys_mutate i x m)
    have "stored_ok docs w'"
      using assms(4) live_ok_mutate [OF live [OF sys_mutate(2)], of m] by (auto simp: sys_mutate(1) system_inv_def stored_ok_def)
    moreover have "in_step docs subs qs w'" using qs by (simp add: sys_mutate(1) in_step_def)
    ultimately show ?thesis by (auto simp: system_inv_def)
  next
    case (sys_create r x v s i)
    note kept = create_kept [OF assms(1,2) sys_create(2,3), unfolded call_with_simps, OF sys_create(4) docs_ok]
    have "announces subs i (published_since (db r) (db (ms_redis s))) \<and> length (published_since (db r) (db (ms_redis s))) \<le> 2"
      using entity_db.Create_announces [OF assms(1,2) sys_create(2,3), unfolded call_with_simps, OF kept(4)] by (simp add: sys_create(5))
    from system_inv_written [OF assms(4) sys_create(6) this kept(5,1) kept(3) [folded sys_create(5)], of "Some (ms_obj s)"] kept(2)
    show ?thesis by (simp add: sys_create(1,5))
  next
    case (sys_modify i x r v s)
    note kept = modify_kept [OF assms(1,2) sys_modify(4), unfolded call_with_simps, OF live [OF sys_modify(2)] sys_modify(5,6) docs_ok]
    have "obj_TagGetID entity_ops x = i" using live [OF sys_modify(2)] by (simp add: live_ok_def)
    with entity_db.Modify_announces [OF assms(1,2) sys_modify(4), unfolded call_with_simps, OF sys_modify(5,6)]
    have "announces subs i (published_since (db r) (db (ms_redis s))) \<and> length (published_since (db r) (db (ms_redis s))) \<le> 2" by simp
    from system_inv_written [OF assms(4) sys_modify(3) this kept(4,1,3), of "Some (ms_obj s)"] kept(2) show ?thesis by (simp add: sys_modify(1))
  next
    case (sys_delete i x r v s)
    note kept = delete_kept [OF assms(1,2) sys_delete(4), unfolded call_with_simps, OF live [OF sys_delete(2)] sys_delete(5) docs_ok]
    have "obj_TagGetID entity_ops x = i" using live [OF sys_delete(2)] by (simp add: live_ok_def)
    with entity_db.Delete_announces [OF assms(1,2) sys_delete(4), unfolded call_with_simps, OF sys_delete(5)]
    have "announces subs i (published_since (db r) (db (ms_redis s))) \<and> length (published_since (db r) (db (ms_redis s))) \<le> 2" by simp
    from system_inv_written [OF assms(4) sys_delete(3) this kept(3,1,2), of None] show ?thesis by (simp add: sys_delete(1))
  next
    case (sys_publish i km kms)
    have "stored_ok docs w'" using assms(4) by (simp add: sys_publish(1) system_inv_def stored_ok_def)
    with in_step_publish [OF qs sys_publish(2,3)] show ?thesis by (auto simp: sys_publish(1) system_inv_def)
  next
    case (sys_flush b to')
    then have buf: "ch_buf (cs_to w) = b # ch_buf to'" "to' = (cs_to w)\<lparr>ch_buf := ch_buf to'\<rparr>"
      by (auto simp: chan_outcomes)
    moreover have "map snd qs = ch_buf (cs_to w)" using qs by (simp add: in_step_def)
    ultimately obtain i qs' where qs': "qs = (i, b) # qs'" "map snd qs' = ch_buf to'" by (cases qs) auto
    have "stored_ok docs w'" using assms(4) by (simp add: sys_flush(1) system_inv_def stored_ok_def)
    moreover have "in_step docs subs qs' w'"
      unfolding sys_flush(1) by (rule in_step_flush [OF qs [unfolded qs'(1)]]) (simp add: qs'(2) buf(2) [symmetric])
    ultimately show ?thesis by (auto simp: system_inv_def)
  qed
qed

lemma system_inv_reaches:
  assumes "redis_behaves rd db" "mongo_behaves entity_ops entity_tag creator entity_stored mg docs"
    and "system_reaches mg rd db subs w w'" "system_inv docs subs w"
  shows "system_inv docs subs w'"
  using assms(3,4)
proof (induction rule: system_reaches.induct)
  case (system_more w1 w2)
  show ?case by (rule system_inv_step [OF assms(1,2) system_more.hyps(2) system_more.IH [OF system_more.prems]])
qed

section \<open>Coming to rest\<close>

text \<open>The queue stays open, and only finitely many calls are in progress.\<close>

definition system_open :: "'m system \<Rightarrow> bool" where
  "system_open w \<longleftrightarrow> \<not> ch_closed (cs_to w) \<and> 1 \<le> ch_cap (cs_to w) \<and> finite {i. cs_pending w i \<noteq> []}"

lemma finite_pending: "finite {i. p i \<noteq> []} \<Longrightarrow> finite {i. (p(j := ms)) i \<noteq> []}"
  by (rule finite_subset [of _ "insert j {i. p i \<noteq> []}"]) auto

lemma deliver_frame: "room 1 to \<Longrightarrow> ch_closed (deliver subs km to) = ch_closed to \<and> ch_cap (deliver subs km to) = ch_cap to"
  by (simp add: deliver_passed queued_def)

lemma system_open_step: "system_step mg rd db subs w w' \<Longrightarrow> system_open w \<Longrightarrow> system_open w'"
proof (induction rule: system_step.induct)
  case (sys_publish w i km kms)
  with deliver_frame [OF sys_publish.hyps(2)] finite_pending [of "cs_pending w" i kms] show ?case
    by (simp add: system_open_def del: fun_upd_apply)
next
  case (sys_flush w b to')
  then show ?case by (auto simp: system_open_def chan_outcomes)
qed (simp_all add: system_open_def written_def finite_pending del: fun_upd_apply)

lemma system_trans:
  "system_reaches mg rd db subs w' t \<Longrightarrow> system_reaches mg rd db subs w w' \<Longrightarrow> system_reaches mg rd db subs w t"
  by (induction rule: system_reaches.induct) (blast intro: system_reaches.intros)+

lemma system_flushes:
  "system_open w \<Longrightarrow> \<exists>t. system_reaches mg rd db subs w t \<and> system_open t \<and> ch_buf (cs_to t) = [] \<and>
     cs_pending t = cs_pending w \<and> cs_mongo t = cs_mongo w"
proof (induction "ch_buf (cs_to w)" arbitrary: w)
  case Nil
  then show ?case by (intro exI [of _ w]) (simp add: system_refl)
next
  case (Cons b q)
  let ?w = "w\<lparr>cs_to := (cs_to w)\<lparr>ch_buf := q\<rparr>, cs_cache := browser subs b (cs_cache w)\<rparr>"
  have "chan_recv (cs_to w) = (Returned (Some b), (cs_to w)\<lparr>ch_buf := q\<rparr>)" by (simp add: chan_recv_def Cons.hyps(2) [symmetric])
  from sys_flush [OF this] have step: "system_step mg rd db subs w ?w" .
  obtain t where "system_reaches mg rd db subs ?w t" "system_open t" "ch_buf (cs_to t) = []" "cs_pending t = cs_pending w" "cs_mongo t = cs_mongo w"
    using Cons.hyps(1) [of ?w] system_open_step [OF step Cons.prems] by auto
  with system_trans [OF this(1) system_more [OF system_refl step]] show ?case by blast
qed

lemma system_publishes:
  "system_open w \<Longrightarrow> cs_pending w i = kms \<Longrightarrow> \<exists>t. system_reaches mg rd db subs w t \<and> system_open t \<and>
     cs_pending t = (cs_pending w)(i := []) \<and> cs_mongo t = cs_mongo w"
proof (induction kms arbitrary: w)
  case Nil
  then show ?case by (intro exI [of _ w]) (simp add: system_refl fun_upd_idem)
next
  case (Cons km kms)
  obtain u where u: "system_reaches mg rd db subs w u" "system_open u" "ch_buf (cs_to u) = []" "cs_pending u = cs_pending w"
      "cs_mongo u = cs_mongo w"
    using system_flushes [OF Cons.prems(1)] by blast
  let ?u = "u\<lparr>cs_pending := (cs_pending u)(i := kms), cs_to := deliver subs km (cs_to u)\<rparr>"
  have step: "system_step mg rd db subs u ?u"
    by (rule sys_publish) (use u Cons.prems in \<open>simp_all add: system_open_def room_def\<close>)
  obtain t where "system_reaches mg rd db subs ?u t" "system_open t" "cs_pending t = (cs_pending w)(i := [])" "cs_mongo t = cs_mongo w"
    using Cons.IH [OF system_open_step [OF step u(2)]] u(4,5) fun_upd_same [of "cs_pending w" i kms]
    by (auto simp del: fun_upd_apply)
  with system_trans [OF this(1) system_more [OF u(1) step]] show ?case by blast
qed

lemma system_settles:
  assumes "finite B" "system_open w" "{i. cs_pending w i \<noteq> []} \<subseteq> B"
  shows "\<exists>t. system_reaches mg rd db subs w t \<and> ch_buf (cs_to t) = [] \<and> (\<forall>i. cs_pending t i = []) \<and> cs_mongo t = cs_mongo w"
  using assms
proof (induction B arbitrary: w)
  case empty
  then have none: "\<forall>i. cs_pending w i = []" by auto
  obtain t where "system_reaches mg rd db subs w t" "ch_buf (cs_to t) = []" "cs_pending t = cs_pending w" "cs_mongo t = cs_mongo w"
    using system_flushes [OF empty.prems(1)] by blast
  with none show ?case by (intro exI [of _ t]) simp
next
  case (insert i B)
  obtain u where u: "system_reaches mg rd db subs w u" "system_open u" "cs_pending u = (cs_pending w)(i := [])" "cs_mongo u = cs_mongo w"
    using system_publishes [OF insert.prems(1) refl, of mg rd db subs i] by blast
  have "{j. cs_pending u j \<noteq> []} \<subseteq> B" using insert.prems(2) by (auto simp: u(3) split: if_splits)
  from insert.IH [OF u(2) this] obtain t where "system_reaches mg rd db subs u t" "ch_buf (cs_to t) = []"
      "\<forall>i. cs_pending t i = []" "cs_mongo t = cs_mongo w"
    unfolding u(4) by blast
  with system_trans [OF this(1) u(1)] show ?case by blast
qed

lemma system_open_reaches: "system_reaches mg rd db subs w w' \<Longrightarrow> system_open w \<Longrightarrow> system_open w'"
  by (induction rule: system_reaches.induct) (blast intro: system_open_step)+

section \<open>Properties\<close>

text \<open>
  C3: Calls on different objects do not disturb each other: from an empty collection, in every
  interleaving of any number of calls, each of which writes its document and then publishes, with the
  deliveries to a client and its main loop, the browser holds exactly what is stored of every object
  that no call is busy with, as soon as the client's queue has been passed on. At any moment the calls in
  progress can be completed, and then the browser holds exactly the stored objects of its keys.
\<close>

theorem concurrent_replica:
  assumes "redis_behaves rd db" "mongo_behaves entity_ops entity_tag creator entity_stored mg docs"
    and "system_empty docs w" "system_reaches mg rd db subs w w'"
  shows "(ch_buf (cs_to w') = [] \<longrightarrow> cs_pending w' i = [] \<longrightarrow> cs_cache w' i = replica entity_ops (docs (cs_mongo w')) subs i) \<and>
    (\<exists>t. system_reaches mg rd db subs w' t \<and> cs_mongo t = cs_mongo w' \<and> cs_cache t = replica entity_ops (docs (cs_mongo w')) subs)"
proof -
  have quiet: "cs_cache u j = replica entity_ops (docs (cs_mongo u)) subs j"
    if "system_reaches mg rd db subs w u" "ch_buf (cs_to u) = []" "cs_pending u j = []" for u j
  proof -
    have "system_inv docs subs u" by (rule system_inv_reaches [OF assms(1,2) that(1) system_inv_empty [OF assms(3)]])
    then obtain qs where qs: "in_step docs subs qs u" by (auto simp: system_inv_def)
    then have "qs = []" using that(2) by (simp add: in_step_def)
    with in_stepD [OF qs, of j] that(3) show ?thesis by (simp add: in_flight_def)
  qed
  have "system_open w" using assms(3) by (simp add: system_empty_def system_open_def make_chan_def clientBufferLength_def)
  then have "system_open w'" by (rule system_open_reaches [OF assms(4)])
  then obtain t where t: "system_reaches mg rd db subs w' t" "ch_buf (cs_to t) = []" "\<forall>i. cs_pending t i = []" "cs_mongo t = cs_mongo w'"
    using system_settles [OF _ _ subset_refl] unfolding system_open_def by blast
  have "cs_cache t = replica entity_ops (docs (cs_mongo w')) subs"
    using quiet [OF system_trans [OF t(1) assms(4)] t(2)] t(3,4) by auto
  with t(1,4) quiet [OF assms(4)] show ?thesis by blast
qed

text \<open>Two creations: the second one writes before the first one has published.\<close>

definition demo_system :: "(string \<times> entity) list system" where
  "demo_system = \<lparr>cs_live = Map.empty, cs_rand = demo_rand, cs_mongo = [], cs_pending = (\<lambda>_. []),
     cs_to = make_chan clientBufferLength, cs_cache = Map.empty\<rparr>"

definition demo_orc :: entity where
  "demo_orc = EOrc (new_orc\<lparr>oTag := empty_tag\<lparr>TagID := ''b!''\<rparr>, oSubKey := ''m:0|0''\<rparr>)"

definition demo_first :: "(string \<times> entity) list system" where
  "demo_first = written mem_view mem_empty demo_created (obj_TagGetID entity_ops (ms_obj demo_created)) (Some (ms_obj demo_created)) demo_system"

definition second_start :: "rand \<Rightarrow> (entity, (string \<times> entity) list, mem_db) mstate" where
  "second_start r = \<lparr>ms_obj = demo_orc, ms_rand = r, ms_mongo = [(''1234567890abcde!'', demo_obj)], ms_redis = mem_empty\<rparr>"

definition demo_second :: "rand \<Rightarrow> (entity, (string \<times> entity) list, mem_db) mstate" where
  "demo_second r = snd (MongoSynk_Create entity_ops mem_mongo mem_redis (second_start r))"

lemma demo_obj_id: "obj_TagGetID entity_ops demo_obj = ''1234567890abcde!''"
  by code_simp

lemma demo_created_mongo: "ms_mongo demo_created = [(''1234567890abcde!'', demo_obj)]"
  by code_simp

definition stored_orc :: entity where
  "stored_orc = EOrc (new_orc\<lparr>oTag := \<lparr>TagID = ''b!'', TagSub = ''m:0|0'', TagType = ''c:o'', V = 1\<rparr>, oSubKey := ''m:0|0''\<rparr>)"

lemma demo_second_call:
  "fst (MongoSynk_Create entity_ops mem_mongo mem_redis (second_start r)) = Ret None"
  "ms_obj (demo_second r) = stored_orc" "ms_mongo (demo_second r) = [(''b!'', stored_orc), (''1234567890abcde!'', demo_obj)]"
  by code_simp+

lemma stored_orc_texts:
  "obj_TagGetID entity_ops stored_orc = ''b!''" "obj_GetPrevSubKey entity_ops stored_orc = ''m:0|0''"
  "valid_utf8 (obj_TagGetID entity_ops stored_orc)" "valid_utf8 (obj_TypeKey entity_ops stored_orc)"
  "valid_utf8 (obj_GetSubKey entity_ops stored_orc)" "valid_utf8 (obj_GetPrevSubKey entity_ops stored_orc)"
  "encodes_well (obj_MarshalDiff entity_ops (obj_State entity_ops stored_orc))"
  "encodes_well (obj_MarshalDiff entity_ops (fst (obj_Resolve entity_ops stored_orc)))"
  "encodes_well (obj_MarshalDiff entity_ops (obj_State entity_ops (snd (obj_Resolve entity_ops stored_orc))))"
  by code_simp+

lemma concurrent_replica_witness:
  "\<exists>t. system_reaches mem_mongo mem_redis mem_view [''m:0|0'' \<mapsto> True] demo_system t \<and>
     cs_cache t = replica entity_ops (map_of (cs_mongo t)) [''m:0|0'' \<mapsto> True] \<and> cs_cache t ''b!'' \<noteq> None"
proof -
  define s2 where "s2 = demo_second (ms_rand demo_created)"
  let ?subs = "[''m:0|0'' \<mapsto> True]" and ?x = "EHuman (Human_SetMapID ''m'' new_human)"
  let ?w = "written mem_view mem_empty s2 ''b!'' (Some (ms_obj s2)) demo_first"
  have "call_with demo_system mem_empty ?x = demo_new" by (simp add: call_with_def demo_system_def demo_new_def)
  then have call1: "MongoSynk_Create entity_ops mem_mongo mem_redis (call_with demo_system mem_empty ?x) = (Ret None, demo_created)"
    using demo_Create by (simp add: demo_created_def)
  have call2: "MongoSynk_Create entity_ops mem_mongo mem_redis (call_with demo_first mem_empty demo_orc) = (Ret None, s2)"
  proof -
    have "call_with demo_first mem_empty demo_orc = second_start (ms_rand demo_created)"
      by (simp add: call_with_def second_start_def demo_first_def written_def demo_created_mongo)
    with demo_second_call(1) [of "ms_rand demo_created"] show ?thesis by (simp add: s2_def demo_second_def prod_eq_iff)
  qed
  have enc: "encodable entity_ops (ms_obj s2)"
    unfolding encodable_def encodes_well_iff [symmetric] s2_def demo_second_call(2) using stored_orc_texts by blast
  have tags: "TagType (entity_tag ?x) \<in> {'''', obj_TypeKey entity_ops ?x}" "TagType (entity_tag demo_orc) \<in> {'''', obj_TypeKey entity_ops demo_orc}"
    by (simp_all add: new_human_def empty_tag_def Human_SetMapID_def demo_orc_def)
  have key: "cs_pending demo_first ''b!'' = []"
    by (simp add: demo_first_def written_def demo_created_obj demo_obj_id demo_system_def)
  have "system_step mem_mongo mem_redis mem_view ?subs demo_system demo_first"
    unfolding demo_first_def by (rule sys_create [OF call1 demo_created_encodable tags(1) refl]) (simp add: demo_system_def)
  moreover have "system_step mem_mongo mem_redis mem_view ?subs demo_first ?w"
    by (rule sys_create [OF call2 enc tags(2)]) (use key in \<open>simp_all add: s2_def demo_second_call(2) stored_orc_texts(1)\<close>)
  ultimately have reach: "system_reaches mem_mongo mem_redis mem_view ?subs demo_system ?w"
    by (blast intro: system_reaches.intros)
  have empty: "system_empty map_of demo_system" by (simp add: system_empty_def demo_system_def)
  have mongo: "cs_mongo ?w = ms_mongo s2" by (simp add: written_def)
  obtain t where t: "system_reaches mem_mongo mem_redis mem_view ?subs ?w t"
      "cs_cache t = replica entity_ops (map_of (ms_mongo s2)) ?subs" "cs_mongo t = ms_mongo s2"
    using concurrent_replica [OF mem_redis_behaves mem_mongo_behaves empty reach] unfolding mongo by blast
  have "cs_cache t ''b!'' \<noteq> None" by (simp add: t(2) replica_def s2_def demo_second_call(3) stored_orc_texts(2))
  with t system_trans [OF t(1) reach] show ?thesis by metis
qed

end
