(* ===== verification/Race.thy ===== *)
theory Race
  imports Replica
begin

text \<open>
  A modification and a subscription request at the same time. \<open>startMainLoop\<close> claims that a client
  does not miss a message between the moment it receives the objects of a new subscription and the
  moment the subscription takes effect, because it subscribes before it loads and the messages wait
  in its queue. Here the effects of the two calls, in the order in which each call has them, interleave
  arbitrarily: the write to the collection and the publications of \<open>Modify\<close>; the change of the
  client's own map of subscriptions, the update of the agents and the load of \<open>updateSubscription\<close>; and
  the main loop passing on queued messages whenever it is not inside the request. The map decides what
  \<open>Receive\<close> drops, the agents decide what reaches \<open>Receive\<close>.
\<close>

section \<open>The steps\<close>

datatype writer = Writing | Publishing "(string \<times> bytes) list"
datatype requester = Asking | Registering | Loading | Served

text \<open>
  What a message is to a client for which the agents have these keys and whose map has these: \<open>Receive\<close>
  is called when the agents have the channel.
\<close>

definition handed :: "(string \<rightharpoonup> bool) \<Rightarrow> (string \<rightharpoonup> bool) \<Rightarrow> string \<times> bytes \<Rightarrow> bytes chan \<Rightarrow> bytes chan" where
  "handed agents subs m to = (if agents (fst m) = None then to else snd (Receive subs (fst m) (snd m) to))"

lemma handed_same: "handed subs subs = deliver subs"
  by (simp add: fun_eq_iff handed_def deliver_def)

lemma handed_json: "room 1 to \<Longrightarrow> handed agents subs (ch, CHR ''{'' # r) to = (if agents ch = None then to else queued [CHR ''{'' # r] to)"
  by (simp add: handed_def Receive_plain put_out_room)

lemma handed_moved:
  "room 1 to \<Longrightarrow> CHR ''{'' \<notin> set psk \<Longrightarrow> handed agents subs (ch, ''from '' @ psk @ CHR ''{'' # r) to =
     (if agents ch = None \<or> subs psk \<noteq> None then to else queued [CHR ''{'' # r] to)"
  using Receive_from [of psk subs ch r to] by (simp add: handed_def put_out_room)

text \<open>\<open>rc_want\<close> is what the browser is subscribed to: it has sent its request.\<close>

record 'o race =
  rc_docs :: "string \<rightharpoonup> 'o"
  rc_writer :: writer
  rc_client :: requester
  rc_subs :: "string \<rightharpoonup> bool"
  rc_agents :: "string \<rightharpoonup> bool"
  rc_want :: "string \<rightharpoonup> bool"
  rc_to :: "bytes chan"
  rc_cache :: cache

definition race_start :: "('o, 'd) object_ops \<Rightarrow> (string \<rightharpoonup> 'o) \<Rightarrow> UpdateSubscriptionMessage \<Rightarrow> (string \<rightharpoonup> bool) \<Rightarrow> 'o race" where
  "race_start ops D msg subs = \<lparr>rc_docs = D, rc_writer = Writing, rc_client = Asking, rc_subs = subs, rc_agents = subs,
     rc_want = new_subscriptions msg subs, rc_to = make_chan clientBufferLength, rc_cache = replica ops D subs\<rparr>"

text \<open>\<open>D'\<close> is the collection after the write, \<open>ms\<close> are the messages that follow it.\<close>

inductive race_step :: "('o, 'd) object_ops \<Rightarrow> (string \<Rightarrow> 'o option) \<Rightarrow> ('m, 'o, 'raw) mongo \<Rightarrow> ('m \<Rightarrow> string \<rightharpoonup> 'o) \<Rightarrow>
    UpdateSubscriptionMessage \<Rightarrow> (string \<rightharpoonup> 'o) \<Rightarrow> (string \<times> bytes) list \<Rightarrow> 'o race \<Rightarrow> 'o race \<Rightarrow> bool"
  for ops mk mg docs msg D' ms where
  race_write: "rc_writer s = Writing \<Longrightarrow>
     race_step ops mk mg docs msg D' ms s (s\<lparr>rc_docs := D', rc_writer := Publishing ms\<rparr>)"
| race_publish: "rc_writer s = Publishing (km # kms) \<Longrightarrow>
     race_step ops mk mg docs msg D' ms s (s\<lparr>rc_to := handed (rc_agents s) (rc_subs s) km (rc_to s), rc_writer := Publishing kms\<rparr>)"
| race_subscribe: "rc_client s = Asking \<Longrightarrow>
     race_step ops mk mg docs msg D' ms s (s\<lparr>rc_subs := new_subscriptions msg (rc_subs s), rc_client := Registering\<rparr>)"
| race_register: "rc_client s = Registering \<Longrightarrow>
     race_step ops mk mg docs msg D' ms s (s\<lparr>rc_agents := new_subscriptions msg (rc_agents s), rc_client := Loading\<rparr>)"
| race_load: "rc_client s = Loading \<Longrightarrow> us_Add msg \<noteq> [] \<Longrightarrow> docs m = rc_docs s \<Longrightarrow>
     MongoSynk_Load mk mg (us_Add msg) m = (Ret (objs, None), m') \<Longrightarrow>
     race_step ops mk mg docs msg D' ms s
       (s\<lparr>rc_cache := fold (browser (rc_want s)) (map (loaded_bytes ops) objs) (rc_cache s), rc_client := Served\<rparr>)"
| race_no_load: "rc_client s = Loading \<Longrightarrow> us_Add msg = [] \<Longrightarrow>
     race_step ops mk mg docs msg D' ms s (s\<lparr>rc_client := Served\<rparr>)"
| race_flush: "rc_client s \<in> {Asking, Served} \<Longrightarrow> chan_recv (rc_to s) = (Returned (Some b), to') \<Longrightarrow>
     race_step ops mk mg docs msg D' ms s (s\<lparr>rc_to := to', rc_cache := browser (rc_want s) b (rc_cache s)\<rparr>)"

inductive race_reaches :: "('o, 'd) object_ops \<Rightarrow> (string \<Rightarrow> 'o option) \<Rightarrow> ('m, 'o, 'raw) mongo \<Rightarrow> ('m \<Rightarrow> string \<rightharpoonup> 'o) \<Rightarrow>
    UpdateSubscriptionMessage \<Rightarrow> (string \<rightharpoonup> 'o) \<Rightarrow> (string \<times> bytes) list \<Rightarrow> 'o race \<Rightarrow> 'o race \<Rightarrow> bool"
  for ops mk mg docs msg D' ms where
  race_refl: "race_reaches ops mk mg docs msg D' ms s s"
| race_more: "race_reaches ops mk mg docs msg D' ms s s' \<Longrightarrow> race_step ops mk mg docs msg D' ms s' s'' \<Longrightarrow>
     race_reaches ops mk mg docs msg D' ms s s''"

text \<open>Both calls are over and the queue has been passed on.\<close>

definition race_over :: "'o race \<Rightarrow> bool" where
  "race_over s \<longleftrightarrow> rc_writer s = Publishing [] \<and> rc_client s = Served \<and> ch_buf (rc_to s) = []"

text \<open>Whatever has happened, both calls can come to their end.\<close>

lemma race_trans:
  "race_reaches ops mk mg docs msg D' ms s' t \<Longrightarrow> race_reaches ops mk mg docs msg D' ms s s' \<Longrightarrow>
   race_reaches ops mk mg docs msg D' ms s t"
  by (induction rule: race_reaches.induct) (blast intro: race_reaches.intros)+

lemma race_flushes:
  "rc_client s = Served \<Longrightarrow> rc_writer s = Publishing [] \<Longrightarrow>
   \<exists>t. race_reaches ops mk mg docs msg D' ms s t \<and> race_over t"
proof (induction "ch_buf (rc_to s)" arbitrary: s)
  case Nil
  then show ?case by (intro exI [of _ s]) (simp add: race_over_def race_refl)
next
  case (Cons b q)
  let ?s = "s\<lparr>rc_to := (rc_to s)\<lparr>ch_buf := q\<rparr>, rc_cache := browser (rc_want s) b (rc_cache s)\<rparr>"
  have "chan_recv (rc_to s) = (Returned (Some b), (rc_to s)\<lparr>ch_buf := q\<rparr>)" by (simp add: chan_recv_def Cons.hyps(2) [symmetric])
  from race_flush [OF _ this] have step: "race_step ops mk mg docs msg D' ms s ?s" by (simp add: Cons.prems)
  obtain t where "race_reaches ops mk mg docs msg D' ms ?s t" "race_over t"
    using Cons.hyps(1) [of ?s] Cons.prems by auto
  with race_trans [OF this(1) race_more [OF race_refl step]] show ?case by blast
qed

lemma race_publishes:
  "rc_writer s = Publishing kms \<Longrightarrow>
   \<exists>t. race_reaches ops mk mg docs msg D' ms s t \<and> rc_writer t = Publishing [] \<and> rc_client t = rc_client s"
proof (induction kms arbitrary: s)
  case (Cons km kms)
  let ?s = "s\<lparr>rc_to := handed (rc_agents s) (rc_subs s) km (rc_to s), rc_writer := Publishing kms\<rparr>"
  have step: "race_step ops mk mg docs msg D' ms s ?s" by (rule race_publish [OF Cons.prems])
  obtain t where "race_reaches ops mk mg docs msg D' ms ?s t" "rc_writer t = Publishing []" "rc_client t = rc_client s"
    using Cons.IH [of ?s] by auto
  with race_trans [OF this(1) race_more [OF race_refl step]] show ?case by blast
qed (blast intro: race_refl)

lemma race_completes:
  assumes "MongoSynk_Load mk mg (us_Add msg) m = (Ret (objs, None), m')" "docs m = D" "us_Add msg \<noteq> []"
  shows "\<exists>t. race_reaches ops mk mg docs msg D' ms (race_start ops D msg subs) t \<and> race_over t"
proof -
  let ?s0 = "race_start ops D msg subs"
  let ?sr = "?s0\<lparr>rc_subs := new_subscriptions msg subs, rc_client := Registering\<rparr>"
  let ?s1 = "?sr\<lparr>rc_agents := new_subscriptions msg subs, rc_client := Loading\<rparr>"
  let ?s2 = "?s1\<lparr>rc_cache := fold (browser (rc_want ?s1)) (map (loaded_bytes ops) objs) (rc_cache ?s1), rc_client := Served\<rparr>"
  let ?s3 = "?s2\<lparr>rc_docs := D', rc_writer := Publishing ms\<rparr>"
  have 0: "race_step ops mk mg docs msg D' ms ?s0 ?sr" using race_subscribe [of ?s0] by (simp add: race_start_def)
  have 1: "race_step ops mk mg docs msg D' ms ?sr ?s1" using race_register [of ?sr] by (simp add: race_start_def)
  have 2: "race_step ops mk mg docs msg D' ms ?s1 ?s2"
    by (rule race_load [OF _ assms(3) _ assms(1)]) (simp_all add: race_start_def assms(2))
  have 3: "race_step ops mk mg docs msg D' ms ?s2 ?s3" by (rule race_write) (simp add: race_start_def)
  have reach: "race_reaches ops mk mg docs msg D' ms ?s0 ?s3"
    by (rule race_more [OF race_more [OF race_more [OF race_more [OF race_refl 0] 1] 2] 3])
  obtain t where t: "race_reaches ops mk mg docs msg D' ms ?s3 t" "rc_writer t = Publishing []" "rc_client t = Served"
    using race_publishes [of ?s3 ms ops mk mg docs msg D' ms] by auto
  obtain u where "race_reaches ops mk mg docs msg D' ms t u" "race_over u" using race_flushes [OF t(3,2)] by blast
  with race_trans [OF this(1) race_trans [OF t(1) reach]] show ?thesis by blast
qed

section \<open>The messages and one object\<close>

text \<open>
  The scene of a race: the keys and the two views of the object, the messages about it, and the
  client's subscriptions before and after.
\<close>

record scene =
  sc_i :: string
  sc_p :: string
  sc_n :: string
  sc_old :: view
  sc_new :: view
  sc_m :: bytes
  sc_a :: bytes
  sc_subs :: "string \<rightharpoonup> bool"
  sc_want :: "string \<rightharpoonup> bool"

definition moved_msg :: "scene \<Rightarrow> bytes" where
  "moved_msg S = ''from '' @ sc_p S @ sc_a S"

definition scene_msgs :: "scene \<Rightarrow> (string \<times> bytes) list" where
  "scene_msgs S = (if sc_n S = sc_p S then [(sc_p S, sc_m S)]
     else [(sc_p S, sc_m S), (sc_n S, moved_msg S)])"

definition shown :: "scene \<Rightarrow> bytes \<Rightarrow> view option \<Rightarrow> view option" where
  "shown S b v =
     (if b = sc_a S then Some (sc_new S)
      else if v = None \<or> sc_want S (sc_n S) = None then None else Some (sc_new S))"

definition views :: "scene \<Rightarrow> view option set" where
  "views S = {None, Some (sc_old S), Some (sc_new S)}"

definition scene_ok :: "scene \<Rightarrow> bool" where
  "scene_ok S \<longleftrightarrow>
     (\<forall>cache b. b \<in> {sc_m S, sc_a S} \<longrightarrow> cache (sc_i S) \<in> views S \<longrightarrow>
        browser (sc_want S) b cache = cache(sc_i S := shown S b (cache (sc_i S)))) \<and>
     sc_m S \<noteq> sc_a S \<and> CHR ''{'' \<notin> set (sc_p S) \<and>
     (\<exists>r. sc_m S = CHR ''{'' # r) \<and> (\<exists>r. sc_a S = CHR ''{'' # r) \<and>
     (\<forall>k. sc_subs S k \<noteq> None \<longrightarrow> sc_want S k \<noteq> None)"

text \<open>What a client gets of one message.\<close>

definition passes :: "(string \<rightharpoonup> bool) \<Rightarrow> (string \<rightharpoonup> bool) \<Rightarrow> string \<times> bytes \<Rightarrow> bytes list" where
  "passes agents subs km = ch_buf (handed agents subs km (make_chan 1))"

lemma shown_views: "shown S b v \<in> views S"
  by (simp add: shown_def views_def)

lemma scene_effect:
  "scene_ok S \<Longrightarrow> b \<in> {sc_m S, sc_a S} \<Longrightarrow> cache (sc_i S) \<in> views S \<Longrightarrow>
   browser (sc_want S) b cache = cache(sc_i S := shown S b (cache (sc_i S)))"
  unfolding scene_ok_def by blast

lemma fold_shown:
  assumes "scene_ok S" "set q \<subseteq> {sc_m S, sc_a S}" "cache (sc_i S) \<in> views S"
  shows "fold (browser (sc_want S)) q cache = cache(sc_i S := fold (shown S) q (cache (sc_i S)))"
  using assms(2,3)
proof (induction q arbitrary: cache)
  case (Cons b q)
  have "browser (sc_want S) b cache = cache(sc_i S := shown S b (cache (sc_i S)))"
    by (rule scene_effect [OF assms(1)]) (use Cons.prems in auto)
  moreover have "fold (browser (sc_want S)) q (cache(sc_i S := shown S b (cache (sc_i S)))) =
      (cache(sc_i S := shown S b (cache (sc_i S))))(sc_i S := fold (shown S) q (shown S b (cache (sc_i S))))"
    using Cons.IH [of "cache(sc_i S := shown S b (cache (sc_i S)))"] Cons.prems(1) shown_views [of S b] by (metis fun_upd_same insert_subset list.simps(15))
  ultimately show ?case by (simp only: fold_simps fun_upd_upd)
qed simp

lemma handed_scene:
  assumes "scene_ok S" "room 1 to"
  shows "handed agents subs (sc_p S, sc_m S) to = queued (if agents (sc_p S) = None then [] else [sc_m S]) to"
    "handed agents subs (sc_n S, moved_msg S) to =
       queued (if agents (sc_n S) = None \<or> subs (sc_p S) \<noteq> None then [] else [sc_a S]) to"
proof -
  obtain r1 r2 where b: "sc_m S = CHR ''{'' # r1" "sc_a S = CHR ''{'' # r2" and h: "CHR ''{'' \<notin> set (sc_p S)"
    using assms(1) by (auto simp: scene_ok_def)
  show "handed agents subs (sc_p S, sc_m S) to = queued (if agents (sc_p S) = None then [] else [sc_m S]) to"
    unfolding b handed_json [OF assms(2)] by simp
  show "handed agents subs (sc_n S, moved_msg S) to =
       queued (if agents (sc_n S) = None \<or> subs (sc_p S) \<noteq> None then [] else [sc_a S]) to"
    unfolding moved_msg_def b handed_moved [OF assms(2) h] by simp
qed

lemma passes_scene:
  assumes "scene_ok S"
  shows "passes agents subs (sc_p S, sc_m S) = (if agents (sc_p S) = None then [] else [sc_m S])"
    "passes agents subs (sc_n S, moved_msg S) =
       (if agents (sc_n S) = None \<or> subs (sc_p S) \<noteq> None then [] else [sc_a S])"
proof -
  have new: "room 1 (make_chan 1)" "ch_buf (make_chan 1) = []" by (simp_all add: room_def make_chan_def)
  show "passes agents subs (sc_p S, sc_m S) = (if agents (sc_p S) = None then [] else [sc_m S])"
    "passes agents subs (sc_n S, moved_msg S) =
       (if agents (sc_n S) = None \<or> subs (sc_p S) \<noteq> None then [] else [sc_a S])"
    unfolding passes_def handed_scene [OF assms new(1)] by (simp_all add: queued_def make_chan_def)
qed

section \<open>The invariant\<close>

text \<open>
  What is still to come of the modification, and what the client will have in its queue then if its
  subscriptions stay as they are.
\<close>

fun to_publish :: "scene \<Rightarrow> writer \<Rightarrow> (string \<times> bytes) list" where
  "to_publish S Writing = scene_msgs S"
| "to_publish S (Publishing ms) = ms"

definition queue_after :: "scene \<Rightarrow> 'o race \<Rightarrow> bytes list" where
  "queue_after S s = ch_buf (rc_to s) @ concat (map (passes (rc_agents s) (rc_subs s)) (to_publish S (rc_writer s)))"

text \<open>
  Before the request, a client that knew the object has the diff in its queue or has passed it on; a
  client that only knows the new key has the same with the full state.
\<close>

definition asking_inv :: "scene \<Rightarrow> writer \<Rightarrow> bytes list \<Rightarrow> view option \<Rightarrow> bool" where
  "asking_inv S w q v =
     (let knew = sc_subs S (sc_p S) \<noteq> None; before = (if knew then Some (sc_old S) else None);
          after = (if sc_want S (sc_n S) = None then None else Some (sc_new S));
          heard = (knew \<and> (q = [sc_m S] \<and> v = before \<or> q = [] \<and> v = after))
      in if to_publish S w = scene_msgs S then q = [] \<and> v = before
         else if to_publish S w \<noteq> [] then heard \<or> \<not> knew \<and> q = [] \<and> v = None
         else heard \<or> \<not> knew \<and> (if sc_subs S (sc_n S) = None then q = [] \<and> v = None
                             else q = [sc_a S] \<and> v = None \<or> q = [] \<and> v = Some (sc_new S)))"

text \<open>
  While the map has the new keys and the agents do not: the full state of an object that leaves a key
  which is only in the map is dropped.
\<close>

definition registering_inv :: "scene \<Rightarrow> writer \<Rightarrow> bytes list \<Rightarrow> view option \<Rightarrow> bool" where
  "registering_inv S w q v \<longleftrightarrow> asking_inv S w q v \<or>
     to_publish S w = [] \<and> sc_subs S (sc_p S) = None \<and> sc_subs S (sc_n S) \<noteq> None \<and> sc_want S (sc_p S) \<noteq> None \<and> q = [] \<and> v = None"

definition loading_inv :: "scene \<Rightarrow> writer \<Rightarrow> bytes list \<Rightarrow> view option \<Rightarrow> bool" where
  "loading_inv S w qa v =
     (let knew = sc_subs S (sc_p S) \<noteq> None; before = (if knew then Some (sc_old S) else None);
          after = (if sc_want S (sc_n S) = None then None else Some (sc_new S));
          enters = (sc_want S (sc_n S) \<noteq> None \<and> sc_want S (sc_p S) = None)
      in v = before \<and> qa = modify_delivery (sc_want S) (sc_p S) (sc_n S) (sc_m S) (sc_a S) \<or>
         w \<noteq> Writing \<and>
           (knew \<and> v = after \<and> qa = [] \<or>
            \<not> knew \<and> v = None \<and> qa = (if enters then [sc_a S] else []) \<or>
            \<not> knew \<and> sc_subs S (sc_n S) \<noteq> None \<and> (v = None \<and> qa = [sc_a S] \<or> v = Some (sc_new S) \<and> qa = []) \<or>
            \<not> knew \<and> (sc_subs S (sc_n S) = None \<or> sc_want S (sc_p S) \<noteq> None) \<and> v = None \<and> qa = []))"

definition served_inv :: "scene \<Rightarrow> bytes list \<Rightarrow> view option \<Rightarrow> bool" where
  "served_inv S qa v \<longleftrightarrow> fold (shown S) qa v = (if sc_want S (sc_n S) = None then None else Some (sc_new S))"

definition race_inv :: "('o, 'd) object_ops \<Rightarrow> (string \<rightharpoonup> 'o) \<Rightarrow> (string \<rightharpoonup> 'o) \<Rightarrow> scene \<Rightarrow> 'o race \<Rightarrow> bool" where
  "race_inv ops D D' S s \<longleftrightarrow>
     rc_want s = sc_want S \<and> rc_docs s = (if rc_writer s = Writing then D else D') \<and>
     rc_subs s = (if rc_client s = Asking then sc_subs S else sc_want S) \<and>
     rc_agents s = (if rc_client s \<in> {Asking, Registering} then sc_subs S else sc_want S) \<and>
     room (length (to_publish S (rc_writer s))) (rc_to s) \<and>
     (\<exists>pre. scene_msgs S = pre @ to_publish S (rc_writer s)) \<and>
     set (ch_buf (rc_to s)) \<subseteq> {sc_m S, sc_a S} \<and>
     (\<forall>j. j \<noteq> sc_i S \<longrightarrow> rc_cache s j = replica ops D (if rc_client s = Served then sc_want S else sc_subs S) j) \<and>
     rc_cache s (sc_i S) \<in> views S \<and>
     (case rc_client s of
        Asking \<Rightarrow> asking_inv S (rc_writer s) (ch_buf (rc_to s)) (rc_cache s (sc_i S))
      | Registering \<Rightarrow> registering_inv S (rc_writer s) (ch_buf (rc_to s)) (rc_cache s (sc_i S))
      | Loading \<Rightarrow> loading_inv S (rc_writer s) (queue_after S s) (rc_cache s (sc_i S))
      | Served \<Rightarrow> served_inv S (queue_after S s) (rc_cache s (sc_i S)))"

text \<open>The queue that is to come does not change when a message is written or published.\<close>

lemma queue_after_publish:
  assumes "scene_ok S" "rc_writer s = Publishing (km # kms)" "km \<in> set (scene_msgs S)" "room 1 (rc_to s)"
  shows "handed (rc_agents s) (rc_subs s) km (rc_to s) = queued (passes (rc_agents s) (rc_subs s) km) (rc_to s)"
    "queue_after S (s\<lparr>rc_to := handed (rc_agents s) (rc_subs s) km (rc_to s), rc_writer := Publishing kms\<rparr>) = queue_after S s"
    "set (passes (rc_agents s) (rc_subs s) km) \<subseteq> {sc_m S, sc_a S}" "length (passes (rc_agents s) (rc_subs s) km) \<le> 1"
proof -
  note del = passes_scene [OF assms(1)]
  show 1: "handed (rc_agents s) (rc_subs s) km (rc_to s) = queued (passes (rc_agents s) (rc_subs s) km) (rc_to s)"
    using assms(3) handed_scene [OF assms(1,4), of "rc_agents s" "rc_subs s"] del by (auto simp: scene_msgs_def split: if_splits)
  show "queue_after S (s\<lparr>rc_to := handed (rc_agents s) (rc_subs s) km (rc_to s), rc_writer := Publishing kms\<rparr>) = queue_after S s"
    by (simp add: queue_after_def assms(2) 1) (simp add: queued_def)
  show "set (passes (rc_agents s) (rc_subs s) km) \<subseteq> {sc_m S, sc_a S}" "length (passes (rc_agents s) (rc_subs s) km) \<le> 1"
    using assms(3) del by (auto simp: scene_msgs_def split: if_splits)
qed

lemma queue_after_write:
  assumes "rc_writer s = Writing"
  shows "queue_after S (s\<lparr>rc_docs := d, rc_writer := Publishing (scene_msgs S)\<rparr>) = queue_after S s"
  using assms by (simp add: queue_after_def)


text \<open>Where the publications stand.\<close>

lemma scene_msgs_cases:
  assumes "scene_msgs S = pre @ rest"
  obtains (all) "rest = scene_msgs S" "rest \<noteq> []"
    | (second) "sc_n S \<noteq> sc_p S" "rest = [(sc_n S, moved_msg S)]" "rest \<noteq> scene_msgs S"
    | (none) "rest = []" "rest \<noteq> scene_msgs S"
proof (cases pre)
  case Nil
  with assms have "rest = scene_msgs S" by simp
  moreover from this have "rest \<noteq> []" by (simp add: scene_msgs_def)
  ultimately show ?thesis by (rule that(1))
next
  case (Cons m pre')
  show ?thesis
  proof (cases "rest = []")
    case True
    then have "rest \<noteq> scene_msgs S" by (simp add: scene_msgs_def)
    with True show ?thesis by (rule that(3))
  next
    case False
    with assms Cons have "sc_n S \<noteq> sc_p S" "rest = [(sc_n S, moved_msg S)]"
      by (auto simp: scene_msgs_def Cons_eq_append_conv split: if_splits)
    moreover from this have "rest \<noteq> scene_msgs S" by (simp add: scene_msgs_def)
    ultimately show ?thesis by (rule that(2))
  qed
qed

lemma asking_publish:
  assumes "scene_ok S" "scene_msgs S = pre @ km # kms" "asking_inv S (Publishing (km # kms)) q v"
  shows "asking_inv S (Publishing kms) (q @ passes (sc_subs S) (sc_subs S) km) v"
proof -
  note del = passes_scene [OF assms(1), of "sc_subs S" "sc_subs S"]
  from assms(2) show ?thesis
  proof (cases rule: scene_msgs_cases)
    case all
    then have km: "km = (sc_p S, sc_m S)" and kms: "kms = tl (scene_msgs S)" "kms \<noteq> scene_msgs S"
      using assms(2) by (auto simp: scene_msgs_def split: if_splits)
    have "q = []" "v = (if sc_subs S (sc_p S) \<noteq> None then Some (sc_old S) else None)"
      using assms(3) all by (simp_all add: asking_inv_def)
    then show ?thesis using kms del(1) by (auto simp: km asking_inv_def scene_msgs_def Let_def)
  next
    case second
    then have km: "km = (sc_n S, moved_msg S)" and kms: "kms = []" by simp_all
    show ?thesis using assms(3) second(3) unfolding km kms del(2)
      by (auto simp: asking_inv_def Let_def scene_msgs_def split: if_splits)
  qed simp
qed

lemma registering_publish:
  assumes "scene_ok S" "scene_msgs S = pre @ km # kms" "registering_inv S (Publishing (km # kms)) q v"
  shows "registering_inv S (Publishing kms) (q @ passes (sc_subs S) (sc_want S) km) v"
proof -
  have asking: "asking_inv S (Publishing (km # kms)) q v" using assms(3) by (simp add: registering_inv_def)
  note next_inv = asking_publish [OF assms(1,2) this]
  show ?thesis
  proof (cases "passes (sc_subs S) (sc_want S) km = passes (sc_subs S) (sc_subs S) km")
    case True
    with next_inv show ?thesis by (simp add: registering_inv_def)
  next
    case False
    from assms(2) show ?thesis
    proof (cases rule: scene_msgs_cases)
      case all
      then have "km = (sc_p S, sc_m S)" by (auto simp: scene_msgs_def split: if_splits)
      with False show ?thesis by (simp add: passes_scene [OF assms(1)])
    next
      case second
      then have km: "km = (sc_n S, moved_msg S)" and kms: "kms = []" by simp_all
      have mono: "sc_subs S (sc_p S) \<noteq> None \<Longrightarrow> sc_want S (sc_p S) \<noteq> None" using assms(1) by (simp add: scene_ok_def)
      with False have new: "sc_subs S (sc_n S) \<noteq> None" "sc_subs S (sc_p S) = None" "sc_want S (sc_p S) \<noteq> None"
        by (auto simp: km passes_scene [OF assms(1)] split: if_splits)
      with asking second(3) have "q = []" "v = None" by (auto simp: asking_inv_def kms km Let_def split: if_splits)
      with new show ?thesis by (simp add: registering_inv_def kms km passes_scene [OF assms(1)])
    qed simp
  qed
qed

lemma asking_subscribe:
  assumes "scene_ok S" "scene_msgs S = pre @ to_publish S w" "asking_inv S w q v"
    and w: "w = Writing \<Longrightarrow> to_publish S w = scene_msgs S"
  shows "loading_inv S w (q @ concat (map (passes (sc_want S) (sc_want S)) (to_publish S w))) v"
proof -
  note del = passes_scene [OF assms(1), of "sc_want S" "sc_want S"]
  have mono: "sc_subs S k \<noteq> None \<Longrightarrow> sc_want S k \<noteq> None" for k using assms(1) by (simp add: scene_ok_def)
  from assms(2) show ?thesis
  proof (cases rule: scene_msgs_cases)
    case all
    then have "q = []" "v = (if sc_subs S (sc_p S) \<noteq> None then Some (sc_old S) else None)"
      using assms(3) by (simp_all add: asking_inv_def)
    moreover have "concat (map (passes (sc_want S) (sc_want S)) (scene_msgs S)) =
        modify_delivery (sc_want S) (sc_p S) (sc_n S) (sc_m S) (sc_a S)"
      by (auto simp: scene_msgs_def modify_delivery_def del)
    ultimately show ?thesis using all by (simp add: loading_inv_def)
  next
    case second
    then have "w \<noteq> Writing" using w by auto
    with assms(3) second mono [of "sc_p S"] show ?thesis
      by (auto simp: asking_inv_def loading_inv_def Let_def del modify_delivery_def split: if_splits)
  next
    case none
    then have "w \<noteq> Writing" using w by auto
    with assms(3) none mono [of "sc_p S"] mono [of "sc_n S"] show ?thesis
      by (auto simp: asking_inv_def loading_inv_def Let_def modify_delivery_def split: if_splits)
  qed
qed

lemma registering_register:
  assumes "scene_ok S" "scene_msgs S = pre @ to_publish S w" "registering_inv S w q v"
    and w: "w = Writing \<Longrightarrow> to_publish S w = scene_msgs S"
  shows "loading_inv S w (q @ concat (map (passes (sc_want S) (sc_want S)) (to_publish S w))) v"
proof (cases "asking_inv S w q v")
  case True
  from asking_subscribe [OF assms(1,2) this w] show ?thesis .
next
  case False
  with assms(3) have dropped: "to_publish S w = []" "sc_subs S (sc_p S) = None" "sc_want S (sc_p S) \<noteq> None" "q = []" "v = None"
    by (auto simp: registering_inv_def)
  then have "w \<noteq> Writing" using w by (auto simp: scene_msgs_def split: if_splits)
  with dropped show ?thesis by (auto simp: loading_inv_def Let_def)
qed

text \<open>Passing on the head of the queue.\<close>

lemma asking_flush:
  assumes "scene_ok S" "asking_inv S w (b # q) v"
  shows "asking_inv S w q (shown S b v)"
proof -
  have "sc_subs S k \<noteq> None \<Longrightarrow> sc_want S k \<noteq> None" for k using assms(1) by (simp add: scene_ok_def)
  moreover have "sc_m S \<noteq> sc_a S" using assms(1) by (simp add: scene_ok_def)
  ultimately show ?thesis
    using assms(2) by (auto simp: asking_inv_def shown_def Let_def split: if_splits)
qed


section \<open>The steps keep the invariant\<close>

text \<open>
  The collections before and after the write, and the request: it only adds keys, and it does not
  add the key that the object leaves for a client that was not subscribed to it but is subscribed to
  the key that the object enters, unless it adds that one too.
\<close>

definition race_setting :: "('o, 'd) object_ops \<Rightarrow> (string \<rightharpoonup> 'o) \<Rightarrow> (string \<rightharpoonup> 'o) \<Rightarrow> scene \<Rightarrow> UpdateSubscriptionMessage \<Rightarrow> bool" where
  "race_setting ops D D' S msg \<longleftrightarrow> scene_ok S \<and>
     (\<exists>y. D (sc_i S) = Some y \<and> view_of ops y = sc_old S \<and> obj_GetPrevSubKey ops y = sc_p S) \<and>
     (\<exists>y. D' (sc_i S) = Some y \<and> view_of ops y = sc_new S \<and> obj_GetPrevSubKey ops y = sc_n S) \<and>
     (\<forall>j. j \<noteq> sc_i S \<longrightarrow> D' j = D j) \<and> us_Remove msg = [] \<and> sc_want S = new_subscriptions msg (sc_subs S) \<and>
     (sc_subs S (sc_p S) = None \<longrightarrow> sc_p S \<in> set (us_Add msg) \<longrightarrow> sc_subs S (sc_n S) \<noteq> None \<longrightarrow> sc_n S \<in> set (us_Add msg))"

text \<open>What the load shows of the object.\<close>

definition load_shows :: "scene \<Rightarrow> UpdateSubscriptionMessage \<Rightarrow> writer \<Rightarrow> view option \<Rightarrow> view option" where
  "load_shows S msg w v =
     (if w = Writing then (if sc_p S \<in> set (us_Add msg) then Some (sc_old S) else v)
      else if sc_n S \<in> set (us_Add msg) then Some (sc_new S) else v)"

lemma loading_served:
  assumes "race_setting ops D D' S msg" "loading_inv S w qa v"
  shows "served_inv S qa (load_shows S msg w v)"
proof -
  have want: "sc_want S k = (if k \<in> set (us_Add msg) then Some True else sc_subs S k)" for k
    using assms(1) by (simp add: race_setting_def new_subscriptions_def)
  have ma: "sc_m S \<noteq> sc_a S" using assms(1) by (simp add: race_setting_def scene_ok_def)
  have lost: "sc_subs S (sc_p S) = None \<longrightarrow> sc_p S \<in> set (us_Add msg) \<longrightarrow> sc_subs S (sc_n S) \<noteq> None \<longrightarrow> sc_n S \<in> set (us_Add msg)"
    using assms(1) by (simp add: race_setting_def)
  show ?thesis
    using assms(2) ma lost
    by (cases "sc_subs S (sc_p S)"; cases "sc_subs S (sc_n S)"; cases "sc_p S \<in> set (us_Add msg)"; cases "sc_n S \<in> set (us_Add msg)")
      (auto simp: loading_inv_def served_inv_def load_shows_def shown_def modify_delivery_def want Let_def split: if_splits)
qed

lemma race_inv_write:
  assumes "race_inv ops D D' S s" "rc_writer s = Writing"
  shows "race_inv ops D D' S (s\<lparr>rc_docs := D', rc_writer := Publishing (scene_msgs S)\<rparr>)"
proof -
  have "asking_inv S Writing q v \<Longrightarrow> asking_inv S (Publishing (scene_msgs S)) q v" for q v
    by (simp add: asking_inv_def)
  moreover have "loading_inv S Writing q v \<Longrightarrow> loading_inv S (Publishing (scene_msgs S)) q v" for q v
    by (simp add: loading_inv_def Let_def)
  moreover have "registering_inv S Writing q v \<Longrightarrow> registering_inv S (Publishing (scene_msgs S)) q v" for q v
    by (simp add: registering_inv_def asking_inv_def)
  ultimately show ?thesis
    using assms by (auto simp: race_inv_def queue_after_write split: requester.splits)
qed

lemma race_inv_publish:
  assumes "scene_ok S" "race_inv ops D D' S s" "rc_writer s = Publishing (km # kms)"
  shows "race_inv ops D D' S (s\<lparr>rc_to := handed (rc_agents s) (rc_subs s) km (rc_to s), rc_writer := Publishing kms\<rparr>)"
proof -
  obtain pre where pre: "scene_msgs S = pre @ km # kms" and room: "room (Suc (length kms)) (rc_to s)"
    using assms(2,3) by (auto simp: race_inv_def)
  have "room 1 (rc_to s)" by (rule room_mono [OF room]) simp
  note q = queue_after_publish [OF assms(1,3) _ this]
  have km: "km \<in> set (scene_msgs S)" by (simp add: pre)
  have room': "room (length kms) (queued (passes (rc_agents s) (rc_subs s) km) (rc_to s))"
    using room q(4) [OF km] by (auto simp: room_queued intro: room_mono)
  have ask: "asking_inv S (Publishing kms) (ch_buf (rc_to s) @ passes (rc_agents s) (rc_subs s) km) (rc_cache s (sc_i S))"
    if "rc_client s = Asking"
    using asking_publish [OF assms(1) pre, of "ch_buf (rc_to s)" "rc_cache s (sc_i S)"] assms(2,3) that
    by (simp add: race_inv_def)
  have reg: "registering_inv S (Publishing kms) (ch_buf (rc_to s) @ passes (rc_agents s) (rc_subs s) km) (rc_cache s (sc_i S))"
    if "rc_client s = Registering"
    using registering_publish [OF assms(1) pre, of "ch_buf (rc_to s)" "rc_cache s (sc_i S)"] assms(2,3) that
    by (simp add: race_inv_def)
  have load: "loading_inv S (Publishing kms) (queue_after S s) (rc_cache s (sc_i S))" if "rc_client s = Loading"
    using assms(2,3) that by (simp add: race_inv_def loading_inv_def Let_def)
  have buf: "ch_buf (queued bs (rc_to s)) = ch_buf (rc_to s) @ bs" for bs
    by (simp add: queued_def)
  have "\<exists>pre'. scene_msgs S = pre' @ kms" using pre by (intro exI [of _ "pre @ [km]"]) simp
  with assms(2,3) q(2,3) [OF km] room' ask reg load show ?thesis
    unfolding q(1) [OF km] by (auto simp: race_inv_def buf split: requester.splits)
qed


lemma race_inv_subscribe:
  assumes "race_setting ops D D' S msg" "race_inv ops D D' S s" "rc_client s = Asking"
  shows "race_inv ops D D' S (s\<lparr>rc_subs := new_subscriptions msg (rc_subs s), rc_client := Registering\<rparr>)"
proof -
  have "sc_want S = new_subscriptions msg (sc_subs S)" using assms(1) by (simp add: race_setting_def)
  with assms(2,3) show ?thesis by (simp add: race_inv_def registering_inv_def)
qed

lemma race_inv_register:
  assumes "race_setting ops D D' S msg" "race_inv ops D D' S s" "rc_client s = Registering"
  shows "race_inv ops D D' S (s\<lparr>rc_agents := new_subscriptions msg (rc_agents s), rc_client := Loading\<rparr>)"
proof -
  have ok: "scene_ok S" and want: "sc_want S = new_subscriptions msg (sc_subs S)"
    using assms(1) by (simp_all add: race_setting_def)
  have inv: "\<exists>pre. scene_msgs S = pre @ to_publish S (rc_writer s)"
    "registering_inv S (rc_writer s) (ch_buf (rc_to s)) (rc_cache s (sc_i S))" "rc_agents s = sc_subs S" "rc_subs s = sc_want S"
    using assms(2,3) by (auto simp: race_inv_def)
  obtain pre where pre: "scene_msgs S = pre @ to_publish S (rc_writer s)" using inv(1) by blast
  have "loading_inv S (rc_writer s) (ch_buf (rc_to s) @ concat (map (passes (sc_want S) (sc_want S)) (to_publish S (rc_writer s))))
      (rc_cache s (sc_i S))"
    by (rule registering_register [OF ok pre inv(2)]) simp
  with assms(2,3) show ?thesis by (simp add: race_inv_def queue_after_def inv(3,4) want [symmetric])
qed

lemma race_inv_flush:
  assumes "scene_ok S" "race_inv ops D D' S s" "rc_client s \<in> {Asking, Served}" "ch_buf (rc_to s) = b # q"
  shows "race_inv ops D D' S (s\<lparr>rc_to := (rc_to s)\<lparr>ch_buf := q\<rparr>, rc_cache := browser (rc_want s) b (rc_cache s)\<rparr>)"
proof -
  have b: "b \<in> {sc_m S, sc_a S}" "rc_cache s (sc_i S) \<in> views S" "rc_want s = sc_want S"
    using assms(2,4) by (auto simp: race_inv_def)
  then have cache: "browser (sc_want S) b (rc_cache s) = (rc_cache s)(sc_i S := shown S b (rc_cache s (sc_i S)))"
    by (intro scene_effect [OF assms(1)]) simp_all
  have ask: "asking_inv S (rc_writer s) q (shown S b (rc_cache s (sc_i S)))" if "rc_client s = Asking"
    using asking_flush [OF assms(1)] assms(2,4) that by (simp add: race_inv_def)
  have srv: "served_inv S (queue_after S (s\<lparr>rc_to := (rc_to s)\<lparr>ch_buf := q\<rparr>, rc_cache := c\<rparr>)) (shown S b (rc_cache s (sc_i S)))"
    if "rc_client s = Served" for c
  proof -
    have "served_inv S (queue_after S s) (rc_cache s (sc_i S))" using assms(2) that by (simp add: race_inv_def)
    moreover have "queue_after S s = b # queue_after S (s\<lparr>rc_to := (rc_to s)\<lparr>ch_buf := q\<rparr>, rc_cache := c\<rparr>)"
      by (simp add: queue_after_def assms(4))
    ultimately show ?thesis by (simp add: served_inv_def)
  qed
  have "room (length (to_publish S (rc_writer s))) ((rc_to s)\<lparr>ch_buf := q\<rparr>)" "set q \<subseteq> {sc_m S, sc_a S}"
    using assms(2,4) by (auto simp: race_inv_def room_def)
  with assms(2,3) ask srv b(3) shown_views [of S b] show ?thesis
    by (auto simp: race_inv_def cache split: requester.splits)
qed

lemma race_inv_no_load:
  assumes "race_setting ops D D' S msg" "race_inv ops D D' S s" "rc_client s = Loading" "us_Add msg = []"
  shows "race_inv ops D D' S (s\<lparr>rc_client := Served\<rparr>)"
proof -
  have "sc_want S = sc_subs S" using assms(1,4) by (simp add: race_setting_def new_subscriptions_def)
  moreover have "queue_after S (s\<lparr>rc_client := Served\<rparr>) = queue_after S s" by (simp add: queue_after_def)
  moreover have "served_inv S (queue_after S s) (rc_cache s (sc_i S))"
  proof -
    have "load_shows S msg (rc_writer s) (rc_cache s (sc_i S)) = rc_cache s (sc_i S)"
      using assms(4) by (simp add: load_shows_def)
    moreover have "loading_inv S (rc_writer s) (queue_after S s) (rc_cache s (sc_i S))"
      using assms(2,3) by (simp add: race_inv_def)
    ultimately show ?thesis using loading_served [OF assms(1)] by fastforce
  qed
  ultimately show ?thesis using assms(2,3) by (simp add: race_inv_def)
qed

context stored_object
begin

lemma race_inv_load:
  assumes "mongo_behaves ops tag_of mk stored mg docs" "creator_ok ops mk"
    and "documents_ok ops tag_of (rc_docs s)" "\<forall>i y. rc_docs s i = Some y \<longrightarrow> mk (obj_TypeKey ops y) \<noteq> None"
    and "race_setting ops D D' S msg" "race_inv ops D D' S s" "rc_client s = Loading"
    and "docs m = rc_docs s" "MongoSynk_Load mk mg (us_Add msg) m = (Ret (objs, None), m')"
  shows "race_inv ops D D' S
    (s\<lparr>rc_cache := fold (browser (rc_want s)) (map (loaded_bytes ops) objs) (rc_cache s), rc_client := Served\<rparr>)"
proof -
  let ?c = "fold (browser (rc_want s)) (map (loaded_bytes ops) objs) (rc_cache s)"
  have c: "?c j = (case rc_docs s j of
       Some y \<Rightarrow> if obj_GetPrevSubKey ops y \<in> set (us_Add msg) then Some (view_of ops y) else rc_cache s j
     | None \<Rightarrow> rc_cache s j)" for j
    using Load_shown [OF assms(1,2) _ _ assms(9), of "rc_want s" "rc_cache s"] assms(3,4,8) by (simp add: fun_eq_iff)
  have docs: "rc_docs s = (if rc_writer s = Writing then D else D')" using assms(6) by (simp add: race_inv_def)
  have shows_i: "?c (sc_i S) = load_shows S msg (rc_writer s) (rc_cache s (sc_i S))"
    using assms(5) unfolding c docs load_shows_def race_setting_def by (cases "rc_writer s = Writing") auto
  have want: "sc_want S k = (if k \<in> set (us_Add msg) then Some True else sc_subs S k)" for k
    using assms(5) by (simp add: race_setting_def new_subscriptions_def)
  have same: "D' j = D j" if "j \<noteq> sc_i S" for j using assms(5) that by (simp add: race_setting_def)
  have others: "?c j = replica ops D (sc_want S) j" if "j \<noteq> sc_i S" for j
  proof -
    have "rc_docs s j = D j" using docs same [OF that] by simp
    moreover have "rc_cache s j = replica ops D (sc_subs S) j" using assms(6,7) that by (simp add: race_inv_def)
    ultimately show ?thesis unfolding c by (simp add: replica_def want split: option.split)
  qed
  have "served_inv S (queue_after S s) (?c (sc_i S))"
    unfolding shows_i using loading_served [OF assms(5)] assms(6,7) by (simp add: race_inv_def)
  moreover have "queue_after S (s\<lparr>rc_cache := ?c, rc_client := Served\<rparr>) = queue_after S s"
    by (simp add: queue_after_def)
  moreover have "?c (sc_i S) \<in> views S"
    using assms(6) unfolding shows_i by (auto simp: load_shows_def views_def race_inv_def)
  ultimately show ?thesis using assms(6,7) others by (simp add: race_inv_def)
qed

lemma race_inv_reaches:
  assumes "mongo_behaves ops tag_of mk stored mg docs" "creator_ok ops mk"
    and "documents_ok ops tag_of D" "\<forall>i y. D i = Some y \<longrightarrow> mk (obj_TypeKey ops y) \<noteq> None"
    and "documents_ok ops tag_of D'" "\<forall>i y. D' i = Some y \<longrightarrow> mk (obj_TypeKey ops y) \<noteq> None"
    and "race_setting ops D D' S msg" "race_inv ops D D' S s"
    and "race_reaches ops mk mg docs msg D' (scene_msgs S) s t"
  shows "race_inv ops D D' S t"
  using assms(9,8)
proof (induction rule: race_reaches.induct)
  case (race_more s s' s'')
  note IH = race_more.IH [OF race_more.prems]
  have ok: "scene_ok S" using assms(7) by (simp add: race_setting_def)
  have docs: "rc_docs s' = D \<or> rc_docs s' = D'" using IH by (auto simp: race_inv_def)
  from race_more.hyps(2) show ?case
  proof (cases rule: race_step.cases)
    case race_write
    with race_inv_write [OF IH] show ?thesis by simp
  next
    case race_publish
    with race_inv_publish [OF ok IH] show ?thesis by simp
  next
    case race_subscribe
    with race_inv_subscribe [OF assms(7) IH] show ?thesis by simp
  next
    case race_register
    with race_inv_register [OF assms(7) IH] show ?thesis by simp
  next
    case (race_load m objs m')
    show ?thesis unfolding race_load(1)
      by (rule race_inv_load [OF assms(1,2) _ _ assms(7) IH race_load(2,4,5)]) (use docs assms(3-6) in auto)
  next
    case race_no_load
    with race_inv_no_load [OF assms(7) IH] show ?thesis by simp
  next
    case (race_flush b to')
    then have "ch_buf (rc_to s') = b # ch_buf to'" "to' = (rc_to s')\<lparr>ch_buf := ch_buf to'\<rparr>"
      by (auto simp: chan_outcomes)
    with race_inv_flush [OF ok IH race_flush(2)] show ?thesis by (simp add: race_flush(1)) 
  qed
qed simp

lemma race_inv_over:
  assumes "race_setting ops D D' S msg" "race_inv ops D D' S t" "race_over t"
  shows "rc_cache t = replica ops D' (sc_want S)"
proof
  fix j
  have t: "rc_writer t = Publishing []" "rc_client t = Served" "ch_buf (rc_to t) = []"
    using assms(3) by (simp_all add: race_over_def)
  show "rc_cache t j = replica ops D' (sc_want S) j"
  proof (cases "j = sc_i S")
    case True
    with assms(2) t show ?thesis using assms(1)
      by (auto simp: race_inv_def served_inv_def queue_after_def replica_def race_setting_def)
  next
    case False
    then have "D' j = D j" using assms(1) by (simp add: race_setting_def)
    with False assms(2) t show ?thesis by (simp add: race_inv_def replica_def)
  qed
qed

text \<open>A modification that returned makes a scene.\<close>

lemma Modify_scene:
  assumes "redis_behaves rd db" "mongo_behaves ops tag_of mk stored mg docs"
    and "MongoSynk_Modify ops mg rd s = (Ret v, s')"
  defines "x \<equiv> ms_obj s"
  assumes "synced ops (docs (ms_mongo s)) x" "encodable ops x" "announceable ops x"
    and "\<And>k. subs k \<noteq> None \<Longrightarrow> want k \<noteq> None"
  obtains S where "scene_ok S" "scene_msgs S = published_since (db (ms_redis s)) (db (ms_redis s'))"
    "sc_subs S = subs" "sc_want S = want" "sc_i S = obj_TagGetID ops x" "sc_p S = obj_GetPrevSubKey ops x"
    "sc_n S = obj_GetSubKey ops x" "sc_old S = view_of ops x" "sc_new S = view_of ops (modified_obj ops x)"
proof -
  let ?i = "obj_TagGetID ops x" and ?p = "obj_GetPrevSubKey ops x" and ?n = "obj_GetSubKey ops x"
  let ?y = "modified_obj ops x" and ?old = "view_of ops x" and ?new = "view_of ops (modified_obj ops x)"
  obtain js jd js' where js: "obj_MarshalDiff ops (obj_State ops x) = Inr js"
    and jd: "obj_MarshalDiff ops (fst (obj_Resolve ops x)) = Inr jd"
    and js': "obj_MarshalDiff ops (obj_State ops (snd (obj_Resolve ops x))) = Inr js'"
    and merge: "json_fields js' = json_fields js ++ json_fields jd"
    using resolve_merge by blast
  have valid: "valid_utf8 ?i" "valid_utf8 ?p" "valid_utf8 ?n" "valid_utf8 (obj_TypeKey ops x)" "wf_json jd" "wf_json js'"
    using assms(6) jd js' by (auto simp: encodable_def)
  have brace: "CHR ''{'' \<notin> set ?p" using assms(7) by (simp add: announceable_def)
  obtain m a where m: "marshal (modMsg_json ops (mod_msg_of ops x)) = Inr m"
    and a: "marshal (addMsg_json ops (add_msg_of ops ?y ?p (obj_TypeKey ops x))) = Inr a"
    and pub: "published_since (db (ms_redis s)) (db (ms_redis s')) =
      (if ?n = ?p then [(?p, m)] else [(?p, m), (?n, ''from '' @ ?p @ a)])"
    using Modify_published [OF assms(1-3)] unfolding x_def by blast
  let ?S = "\<lparr>sc_i = ?i, sc_p = ?p, sc_n = ?n, sc_old = ?old, sc_new = ?new, sc_m = m, sc_a = a, sc_subs = subs, sc_want = want\<rparr>"
  have new: "?new = \<lparr>vw_fields = json_fields js', vw_key = ?n, vw_version = Some (juint (obj_Version ops x + 1))\<rparr>"
    by (simp add: view_of_def state_fields_def modified_frame modified_keys js')
  have old: "vw_fields ?old = json_fields js" "vw_key ?old = ?p" by (simp_all add: view_of_def state_fields_def js)
  have msg: "mod_ID (mod_msg_of ops x) = ?i" "mod_SKey (mod_msg_of ops x) = ?p" "mod_Diff (mod_msg_of ops x) = fst (obj_Resolve ops x)"
      "mod_Version (mod_msg_of ops x) = obj_Version ops x + 1" "mod_NSKey (mod_msg_of ops x) = (if ?n = ?p then '''' else ?n)"
    by (simp_all add: mod_msg_of_def resolve_version)
  have "valid_utf8 (mod_NSKey (mod_msg_of ops x))" using valid(3) by (simp add: msg)
  note mod_eq = browser_mod_eq [OF m, unfolded msg, OF jd valid(5,1,2) this [unfolded msg]]
  have key: "?n = (if (if ?n = ?p then '''' else ?n) = '''' then vw_key ?old else if ?n = ?p then '''' else ?n)"
      "?n = (if (if ?n = ?p then '''' else ?n) = '''' then vw_key ?new else if ?n = ?p then '''' else ?n)"
    using assms(7) by (auto simp: old new announceable_def)
  have again: "json_fields jd ++ json_fields jd = json_fields jd" by (simp add: fun_eq_iff map_add_def split: option.split)
  have eff_m: "browser want m cache = cache(?i := if cache ?i = None \<or> want ?n = None then None else Some ?new)"
    if c: "cache ?i \<in> {None, Some ?old, Some ?new}" for cache
  proof -
    consider "cache ?i = None" | "cache ?i = Some ?old" | "cache ?i = Some ?new" using c by (auto simp del: not_None_eq)
    then show ?thesis
    proof cases
      case 1
      then show ?thesis by (simp add: mod_eq fun_upd_idem)
    next
      case 2
      show ?thesis unfolding mod_eq 2 option.case Let_def key(1) [symmetric] by (simp add: old new merge)
    next
      case 3
      show ?thesis unfolding mod_eq 3 option.case Let_def key(2) [symmetric]
        by (simp add: new merge map_add_assoc [symmetric] again)
    qed
  qed
  have eff_a: "browser want a cache = cache(?i \<mapsto> ?new)" for cache
    using browser_add [OF a, of js'] valid js' by (simp add: add_msg_of_def modified_frame modified_keys new)
  have "browser want m Map.empty ?i = None" "browser want a Map.empty ?i = Some ?new"
    by (simp_all add: eff_m eff_a)
  then have "m \<noteq> a" by auto
  moreover have "\<exists>r. m = CHR ''{'' # r" "\<exists>r. a = CHR ''{'' # r"
    using marshal_msg_brace(2) [OF m] marshal_msg_brace(1) [OF a] by blast+
  ultimately have "scene_ok ?S"
    using eff_m eff_a brace assms(8) by (simp add: scene_ok_def shown_def views_def)
  moreover have "scene_msgs ?S = published_since (db (ms_redis s)) (db (ms_redis s'))"
    by (simp add: scene_msgs_def moved_msg_def pub)
  ultimately show thesis by (intro that [of ?S]) simp_all
qed

lemma race_inv_start:
  assumes "race_setting ops D D' S msg" "sc_subs S = subs"
  shows "race_inv ops D D' S (race_start ops D msg subs)"
proof -
  obtain y where y: "D (sc_i S) = Some y" "view_of ops y = sc_old S" "obj_GetPrevSubKey ops y = sc_p S"
    using assms(1) by (auto simp: race_setting_def)
  have "length (scene_msgs S) \<le> clientBufferLength" by (simp add: scene_msgs_def clientBufferLength_def)
  then show ?thesis
    using assms y by (simp add: race_inv_def race_start_def race_setting_def room_def make_chan_def asking_inv_def
        replica_def views_def)
qed

lemma race_result:
  assumes "redis_behaves rd db" "mongo_behaves ops tag_of mk stored mg docs" "creator_ok ops mk"
    and "MongoSynk_Modify ops mg rd s = (Ret v, s')"
  defines "x \<equiv> ms_obj s"
  assumes "synced ops (docs (ms_mongo s)) x" "encodable ops x" "announceable ops x"
    and "documents_ok ops tag_of (docs (ms_mongo s))" "documents_ok ops tag_of (docs (ms_mongo s'))"
    and "\<forall>i y. docs (ms_mongo s) i = Some y \<longrightarrow> mk (obj_TypeKey ops y) \<noteq> None"
    and "\<forall>i y. docs (ms_mongo s') i = Some y \<longrightarrow> mk (obj_TypeKey ops y) \<noteq> None"
    and "us_Remove msg = []"
    and "subs (obj_GetPrevSubKey ops x) = None \<longrightarrow> obj_GetPrevSubKey ops x \<in> set (us_Add msg) \<longrightarrow>
      subs (obj_GetSubKey ops x) \<noteq> None \<longrightarrow> obj_GetSubKey ops x \<in> set (us_Add msg)"
    and "race_reaches ops mk mg docs msg (docs (ms_mongo s')) (published_since (db (ms_redis s)) (db (ms_redis s')))
      (race_start ops (docs (ms_mongo s)) msg subs) t" "race_over t"
  shows "rc_cache t = replica ops (docs (ms_mongo s')) (new_subscriptions msg subs)"
proof -
  have mono: "subs k \<noteq> None \<Longrightarrow> new_subscriptions msg subs k \<noteq> None" for k
    using assms(13) by (auto simp: new_subscriptions_def)
  obtain S where S: "scene_ok S" "scene_msgs S = published_since (db (ms_redis s)) (db (ms_redis s'))"
    "sc_subs S = subs" "sc_want S = new_subscriptions msg subs" "sc_i S = obj_TagGetID ops x" "sc_p S = obj_GetPrevSubKey ops x"
    "sc_n S = obj_GetSubKey ops x" "sc_old S = view_of ops x" "sc_new S = view_of ops (modified_obj ops x)"
    using Modify_scene [where subs = subs and want = "new_subscriptions msg subs", OF assms(1,2,4) assms(6-8) [unfolded x_def] mono]
    unfolding x_def by blast
  obtain y where y: "docs (ms_mongo s) (sc_i S) = Some y" "view_of ops y = view_of ops x"
    using assms(6) by (auto simp: synced_def S)
  have D': "docs (ms_mongo s') = (docs (ms_mongo s))(sc_i S \<mapsto> stored (modified_obj ops x))"
    using Modify_Ret [OF assms(1,2,4)] by (simp add: S x_def)
  have "obj_GetPrevSubKey ops y = obj_GetPrevSubKey ops x" using y(2) by (simp add: view_of_def)
  then have set: "race_setting ops (docs (ms_mongo s)) (docs (ms_mongo s')) S msg"
    using y assms(13,14) by (simp add: race_setting_def S D' stored_view stored_prev modified_keys)
  show ?thesis
    using race_inv_over [OF set race_inv_reaches [OF assms(2,3,9,11,10,12) set race_inv_start [OF set S(3)]
        assms(15) [folded S(2)]] assms(16)] by (simp add: S)
qed

section \<open>The move that gets lost\<close>

text \<open>
  A client that is subscribed to the key which the object enters, and now asks for the key which the
  object leaves: if the write happens before the load and the publications after the request, the
  load does not find the object, the full state is held back because the client is subscribed to the
  key the object comes from, and the diff is about an object the browser does not have.
\<close>

lemma race_lost:
  assumes "redis_behaves rd db" "mongo_behaves ops tag_of mk stored mg docs" "creator_ok ops mk"
    and "MongoSynk_Modify ops mg rd s = (Ret v, s')"
  defines "x \<equiv> ms_obj s"
  assumes "synced ops (docs (ms_mongo s)) x" "encodable ops x" "announceable ops x"
    and "documents_ok ops tag_of (docs (ms_mongo s'))"
    and "\<forall>i y. docs (ms_mongo s') i = Some y \<longrightarrow> mk (obj_TypeKey ops y) \<noteq> None"
    and "us_Remove msg = []" "subs (obj_GetPrevSubKey ops x) = None" "subs (obj_GetSubKey ops x) \<noteq> None"
    and "obj_GetPrevSubKey ops x \<in> set (us_Add msg)" "obj_GetSubKey ops x \<notin> set (us_Add msg)"
    and load: "MongoSynk_Load mk mg (us_Add msg) (ms_mongo s') = (Ret (objs, None), m')"
  shows "\<exists>t. race_reaches ops mk mg docs msg (docs (ms_mongo s')) (published_since (db (ms_redis s)) (db (ms_redis s')))
      (race_start ops (docs (ms_mongo s)) msg subs) t \<and> race_over t \<and>
    rc_cache t (obj_TagGetID ops x) = None \<and>
    replica ops (docs (ms_mongo s')) (new_subscriptions msg subs) (obj_TagGetID ops x) \<noteq> None"
proof -
  let ?D = "docs (ms_mongo s)" and ?D' = "docs (ms_mongo s')" and ?i = "obj_TagGetID ops x"
  let ?want = "new_subscriptions msg subs" and ?ms = "published_since (db (ms_redis s)) (db (ms_redis s'))"
  let ?step = "race_step ops mk mg docs msg ?D' ?ms" and ?reach = "race_reaches ops mk mg docs msg ?D' ?ms (race_start ops ?D msg subs)"
  have mono: "subs k \<noteq> None \<Longrightarrow> ?want k \<noteq> None" for k using assms(11) by (auto simp: new_subscriptions_def)
  obtain S where S: "scene_ok S" "scene_msgs S = ?ms" "sc_subs S = subs" "sc_want S = ?want" "sc_i S = ?i"
    "sc_p S = obj_GetPrevSubKey ops x" "sc_n S = obj_GetSubKey ops x" "sc_new S = view_of ops (modified_obj ops x)"
    using Modify_scene [where subs = subs and want = ?want, OF assms(1,2,4) assms(6-8) [unfolded x_def] mono]
    unfolding x_def by blast
  have moves: "sc_n S \<noteq> sc_p S" using assms(14,15) by (auto simp: S)
  have D'i: "?D' ?i = Some (stored (modified_obj ops x))" using Modify_Ret [OF assms(1,2,4)] by (simp add: x_def)
  have sub: "?want (sc_p S) \<noteq> None" "?want (sc_n S) \<noteq> None" "subs (sc_p S) = None"
    using assms(12-14) mono by (auto simp: S new_subscriptions_def)
  define C where "C = fold (browser ?want) (map (loaded_bytes ops) objs) (replica ops ?D subs)"
  obtain y where "?D ?i = Some y" "view_of ops y = view_of ops x" using assms(6) by (auto simp: synced_def)
  then have "replica ops ?D subs ?i = None" using assms(12) by (simp add: replica_def view_of_def)
  then have C: "C ?i = None"
    using Load_shown [OF assms(2,3,9,10) load, of ?want "replica ops ?D subs"] D'i assms(15)
    by (simp add: C_def stored_prev modified_keys)
  let ?s0 = "race_start ops ?D msg subs"
  let ?s1 = "?s0\<lparr>rc_docs := ?D', rc_writer := Publishing ?ms\<rparr>"
  let ?sr = "?s1\<lparr>rc_subs := ?want, rc_client := Registering\<rparr>"
  let ?s2 = "?sr\<lparr>rc_agents := ?want, rc_client := Loading\<rparr>"
  let ?s3 = "?s2\<lparr>rc_cache := C, rc_client := Served\<rparr>"
  let ?s4 = "?s3\<lparr>rc_to := queued [sc_m S] (rc_to ?s3), rc_writer := Publishing [(sc_n S, moved_msg S)]\<rparr>"
  let ?s5 = "?s4\<lparr>rc_writer := Publishing []\<rparr>"
  let ?s6 = "?s5\<lparr>rc_to := make_chan clientBufferLength, rc_cache := browser ?want (sc_m S) C\<rparr>"
  have fresh: "rc_to ?s3 = make_chan clientBufferLength" "rc_subs ?s3 = ?want" "rc_agents ?s3 = ?want" by (simp_all add: race_start_def)
  have room: "room 1 (rc_to ?s3)" "room 1 (rc_to ?s4)"
    by (simp_all add: race_start_def room_def make_chan_def queued_def clientBufferLength_def)
  have 1: "?step ?s0 ?s1" by (rule race_write) (simp add: race_start_def)
  have r: "?step ?s1 ?sr" using race_subscribe [of ?s1] by (simp add: race_start_def)
  have 2: "?step ?sr ?s2" using race_register [of ?sr] by (simp add: race_start_def)
  have 3: "?step ?s2 ?s3"
  proof -
    have "us_Add msg \<noteq> []" using assms(14) by auto
    from race_load [where s = ?s2 and ops = ops and docs = docs, OF _ this _ load] show ?thesis by (simp add: race_start_def C_def)
  qed
  have 4: "?step ?s3 ?s4"
  proof -
    have "rc_writer ?s3 = Publishing ((sc_p S, sc_m S) # [(sc_n S, moved_msg S)])"
      using S(2) moves by (simp add: scene_msgs_def)
    from race_publish [OF this] show ?thesis
      using handed_scene(1) [OF S(1) room(1), of ?want ?want] sub(1) fresh(2,3) by simp
  qed
  have 5: "?step ?s4 ?s5"
  proof -
    have "rc_writer ?s4 = Publishing ((sc_n S, moved_msg S) # [])" by simp
    from race_publish [OF this] show ?thesis
      using handed_scene(2) [OF S(1) room(2), of ?want ?want] sub(1) fresh(2,3) by simp
  qed
  have 6: "?step ?s5 ?s6"
  proof -
    have "chan_recv (rc_to ?s5) = (Returned (Some (sc_m S)), make_chan clientBufferLength)"
      by (simp add: race_start_def chan_recv_def queued_def make_chan_def)
    from race_flush [OF _ this] show ?thesis by (simp add: race_start_def)
  qed
  have "?reach ?s6"
    by (rule race_more [OF race_more [OF race_more [OF race_more [OF race_more [OF race_more [OF race_more [OF race_refl 1] r] 2] 3] 4] 5] 6])
  moreover have "race_over ?s6" by (simp add: race_over_def make_chan_def)
  moreover have "rc_cache ?s6 ?i = None"
    using scene_effect [OF S(1), of "sc_m S" C] C S(1) by (simp add: S(4,5) shown_def views_def scene_ok_def)
  moreover have "replica ops ?D' ?want ?i \<noteq> None"
    using sub(2) by (simp add: replica_def D'i stored_prev modified_keys S)
  ultimately show ?thesis by blast
qed

end

end
