(* ===== verification/Actions.thy ===== *)
theory Actions
  imports Concurrent Race
begin

text \<open>
  What is in flight about one object while the subscriptions of a client change. A message that is not
  about a move acts on the object in the same way for every set of subscriptions: it overlays fields,
  replaces the view, or removes it. Such messages can be applied again to a view that has them
  already, which is what happens to a client that loads an object and then gets the messages that
  were under way. The invariant of one object, and what each step does to it.
\<close>

section \<open>Actions\<close>

datatype action = Overlay "string \<rightharpoonup> json" "json option" | Replace view | Remove

definition overlaid :: "(string \<rightharpoonup> json) \<Rightarrow> json option \<Rightarrow> view \<Rightarrow> view" where
  "overlaid f ver x = x\<lparr>vw_fields := vw_fields x ++ f, vw_version := ver\<rparr>"

fun act :: "action \<Rightarrow> view option \<Rightarrow> view option" where
  "act (Overlay f ver) v = map_option (overlaid f ver) v"
| "act (Replace x) v = Some x"
| "act Remove v = None"

text \<open>A list of actions is a constant or an overlay.\<close>

definition overlay_all :: "(string \<rightharpoonup> json) \<Rightarrow> json option option \<Rightarrow> view \<Rightarrow> view" where
  "overlay_all f ver x = x\<lparr>vw_fields := vw_fields x ++ f, vw_version := (case ver of None \<Rightarrow> vw_version x | Some w \<Rightarrow> w)\<rparr>"

lemma fold_act_cases:
  obtains (fixed) r :: "view option" where "\<And>v. fold act as v = r"
| (overlay) f :: "string \<rightharpoonup> json" and ver :: "json option option" where "\<And>v. fold act as v = map_option (overlay_all f ver) v"
proof -
  have "(\<exists>r. \<forall>v. fold act as v = r) \<or> (\<exists>f ver. \<forall>v. fold act as v = map_option (overlay_all f ver) v)"
  proof (induction as)
    case Nil
    have "map_option (overlay_all Map.empty None) = id" by (simp add: fun_eq_iff option.map_ident_strong overlay_all_def)
    then show ?case by (metis fold_simps(1) id_apply)
  next
    case (Cons a as)
    show ?case
    proof (cases a)
      case (Overlay f ver)
      from Cons show ?thesis
      proof
        assume "\<exists>r. \<forall>v. fold act as v = r"
        then show ?thesis by auto
      next
        assume "\<exists>g u. \<forall>v. fold act as v = map_option (overlay_all g u) v"
        then obtain g u where g: "\<forall>v. fold act as v = map_option (overlay_all g u) v" by blast
        have "overlay_all g u (overlaid f ver x) = overlay_all (f ++ g) (case u of None \<Rightarrow> Some ver | Some w \<Rightarrow> Some w) x" for x
          by (simp add: overlay_all_def overlaid_def split: option.split)
        then have "\<forall>v. fold act (a # as) v = map_option (overlay_all (f ++ g) (case u of None \<Rightarrow> Some ver | Some w \<Rightarrow> Some w)) v"
          using g Overlay by (simp add: option.map_comp comp_def)
        then show ?thesis by blast
      qed
    qed auto
  qed
  with that show thesis by blast
qed

text \<open>The view already has the actions: applying them again changes nothing.\<close>

definition absorbed :: "action list \<Rightarrow> view \<Rightarrow> bool" where
  "absorbed as x \<longleftrightarrow> fold act as (Some x) = Some x"

lemma absorbed_Nil [simp]: "absorbed [] x"
  by (simp add: absorbed_def)

lemma absorbed_Replace [simp]: "absorbed [Replace x] x"
  by (simp add: absorbed_def)

lemma map_add_twice: "m ++ f ++ f = m ++ f"
  by (auto simp: fun_eq_iff map_add_def split: option.split)

lemma overlay_all_twice: "overlay_all f ver (overlay_all f ver y) = overlay_all f ver y"
  by (simp add: overlay_all_def map_add_twice split: option.split)

lemma overlaid_again:
  assumes "overlay_all g u x = x"
  shows "overlaid f ver (overlay_all g u (overlaid f ver x)) = overlaid f ver x"
proof -
  have "vw_fields x ++ g = vw_fields x" using arg_cong [OF assms, of vw_fields] by (simp add: overlay_all_def)
  then have "(vw_fields x ++ f ++ g ++ f) k = (vw_fields x ++ f) k" for k
    by (cases "f k"; cases "g k") (auto simp: map_add_def dest: fun_cong [of _ _ k])
  then show ?thesis by (simp add: overlay_all_def overlaid_def fun_eq_iff)
qed

lemma absorbed_tl:
  assumes "absorbed (a # as) x"
  shows "absorbed as x"
proof (cases as rule: fold_act_cases)
  case (fixed r)
  with assms show ?thesis by (simp add: absorbed_def)
next
  case (overlay f ver)
  obtain y where "x = overlay_all f ver y"
    using assms by (cases "act a (Some x)") (auto simp: absorbed_def overlay)
  then show ?thesis by (simp add: absorbed_def overlay overlay_all_twice)
qed

lemma absorbed_snoc:
  assumes "absorbed as x"
  shows "absorbed (as @ [Overlay f ver]) (overlaid f ver x)"
proof (cases as rule: fold_act_cases)
  case (fixed r)
  with assms show ?thesis by (simp add: absorbed_def)
next
  case (overlay g u)
  with assms show ?thesis by (simp add: absorbed_def overlay overlaid_again)
qed

section \<open>Messages under way\<close>

text \<open>Keys that one map has and the other has too; the view of an object is under a key of the map.\<close>

definition within :: "(string \<rightharpoonup> bool) \<Rightarrow> (string \<rightharpoonup> bool) \<Rightarrow> bool" where
  "within A W \<longleftrightarrow> (\<forall>k. A k \<noteq> None \<longrightarrow> W k \<noteq> None)"

lemma within_refl [simp]: "within A A"
  by (simp add: within_def)

lemma within_trans: "within A B \<Longrightarrow> within B C \<Longrightarrow> within A C"
  by (simp add: within_def)

definition keyed :: "(string \<rightharpoonup> bool) \<Rightarrow> view option \<Rightarrow> bool" where
  "keyed W v \<longleftrightarrow> (\<forall>x. v = Some x \<longrightarrow> W (vw_key x) \<noteq> None)"

lemma keyed_simps [simp]: "keyed W None" "keyed W (Some x) \<longleftrightarrow> W (vw_key x) \<noteq> None"
  by (simp_all add: keyed_def)

lemma keyed_within: "keyed A v \<Longrightarrow> within A W \<Longrightarrow> keyed W v"
  by (simp add: keyed_def within_def)

text \<open>A message that is not about a move, published on \<open>k\<close>, acts like this.\<close>

definition acts :: "string \<Rightarrow> bytes \<Rightarrow> action \<Rightarrow> bool" where
  "acts i b a \<longleftrightarrow> (\<forall>W v. keyed W v \<longrightarrow> effect W i b v = act a v)"

definition keeps :: "(string \<rightharpoonup> bool) \<Rightarrow> string \<Rightarrow> bytes \<Rightarrow> bool" where
  "keeps A i b \<longleftrightarrow> (\<forall>W v. within A W \<longrightarrow> keyed W v \<longrightarrow> keyed W (effect W i b v))"

text \<open>A queued message; those about moves, and those that a move has overtaken, have no action.\<close>

definition entry_ok :: "(string \<rightharpoonup> bool) \<Rightarrow> string \<Rightarrow> bytes \<times> action option \<Rightarrow> bool" where
  "entry_ok A i e \<longleftrightarrow> (\<forall>W. tells W i (fst e)) \<and> keeps A i (fst e) \<and> (\<forall>a. snd e = Some a \<longrightarrow> acts i (fst e) a)"

lemma entry_ok_within: "entry_ok A i e \<Longrightarrow> within A B \<Longrightarrow> entry_ok B i e"
  by (auto simp: entry_ok_def keeps_def intro: within_trans)

lemma entry_ok_overtaken: "entry_ok A i (b, ao) \<Longrightarrow> entry_ok A i (b, None)"
  by (simp add: entry_ok_def)

text \<open>A message still to be published.\<close>

definition speaks :: "string \<Rightarrow> string \<times> bytes \<Rightarrow> action option \<Rightarrow> bool" where
  "speaks i km ao \<longleftrightarrow>
     (\<forall>A S. \<forall>b\<in>set (passes A S km). entry_ok A i (b, ao)) \<and>
     (\<forall>a A S. ao = Some a \<longrightarrow> passes A S km = (if A (fst km) = None then [] else [snd km]))"

lemma passed_passes: "passed A = passes A A"
  by (simp add: fun_eq_iff passed_def passes_def handed_same)

lemma speaks_None: "speaks i km ao \<Longrightarrow> speaks i km None"
  by (simp add: speaks_def entry_ok_def)

lemma speaks_passed: "speaks i km (Some a) \<Longrightarrow> passed A km = (if A (fst km) = None then [] else [snd km])"
  by (simp add: speaks_def passed_passes)

text \<open>The messages to be published as the client would get them now.\<close>

definition upcoming :: "(string \<rightharpoonup> bool) \<Rightarrow> (string \<times> bytes) list \<Rightarrow> action option list \<Rightarrow> (bytes \<times> action option) list" where
  "upcoming A P R = concat (map (\<lambda>(km, ao). map (\<lambda>b. (b, ao)) (passed A km)) (zip P R))"

lemma upcoming_simps [simp]:
  "upcoming A [] R = []" "upcoming A P [] = []"
  "upcoming A (km # P) (ao # R) = map (\<lambda>b. (b, ao)) (passed A km) @ upcoming A P R"
  by (simp_all add: upcoming_def)

lemma upcoming_bytes: "list_all2 (speaks i) P R \<Longrightarrow> map fst (upcoming A P R) = concat (map (passed A) P)"
  by (induction rule: list_all2_induct) (simp_all add: comp_def)

lemma upcoming_ok: "list_all2 (speaks i) P R \<Longrightarrow> e \<in> set (upcoming A P R) \<Longrightarrow> entry_ok A i e"
  by (induction rule: list_all2_induct) (auto simp: speaks_def passed_passes)

section \<open>Actions in a row\<close>

definition acting :: "action option list \<Rightarrow> action list" where
  "acting aos = List.map_filter id aos"

lemma acting_simps [simp]:
  "acting [] = []" "acting (None # aos) = acting aos" "acting (Some a # aos) = a # acting aos"
  "acting (aos @ aos') = acting aos @ acting aos'"
  by (simp_all add: acting_def List.map_filter_def)

definition calm :: "(bytes \<times> action option) list \<Rightarrow> bool" where
  "calm E \<longleftrightarrow> (\<forall>e\<in>set E. snd e \<noteq> None)"

lemma calm_simps [simp]:
  "calm []" "calm (e # E) \<longleftrightarrow> snd e \<noteq> None \<and> calm E" "calm (E @ E') \<longleftrightarrow> calm E \<and> calm E'"
  by (auto simp: calm_def)

lemma keyed_fold:
  "\<forall>e\<in>set E. entry_ok A i e \<Longrightarrow> within A W \<Longrightarrow> keyed W v \<Longrightarrow> keyed W (fold (effect W i) (map fst E) v)"
  by (induction E arbitrary: v) (auto simp: entry_ok_def keeps_def)

lemma fold_calm:
  "calm E \<Longrightarrow> \<forall>e\<in>set E. entry_ok A i e \<Longrightarrow> within A W \<Longrightarrow> keyed W v \<Longrightarrow>
   fold (effect W i) (map fst E) v = fold act (acting (map snd E)) v"
proof (induction E arbitrary: v)
  case (Cons e E)
  then obtain a where a: "snd e = Some a" by auto
  have "effect W i (fst e) v = act a v" using Cons.prems a by (simp add: entry_ok_def acts_def)
  moreover have "keyed W (effect W i (fst e) v)" using Cons.prems by (simp add: entry_ok_def keeps_def)
  ultimately show ?case using Cons a by simp
qed simp

section \<open>One object\<close>

text \<open>
  \<open>d\<close> is the view of the stored object, \<open>A\<close> the keys of the agents, \<open>W\<close> those the browser knows of, and
  \<open>ks\<close> the keys of a load that is about to happen.
\<close>

definition shown_as :: "(string \<rightharpoonup> bool) \<Rightarrow> view option \<Rightarrow> view option" where
  "shown_as A d = (case d of None \<Rightarrow> None | Some x \<Rightarrow> if A (vw_key x) = None then None else Some x)"

definition reload :: "string list \<Rightarrow> view option \<Rightarrow> view option \<Rightarrow> view option" where
  "reload ks d v = (case d of Some x \<Rightarrow> if vw_key x \<in> set ks then Some x else v | None \<Rightarrow> v)"

lemma reload_simps [simp]: "reload [] d v = v" "reload ks None v = v"
  "reload ks (Some x) v = (if vw_key x \<in> set ks then Some x else v)"
  by (simp_all add: reload_def split: option.split)

lemma shown_as_simps [simp]: "shown_as A None = None" "shown_as A (Some x) = (if A (vw_key x) = None then None else Some x)"
  by (simp_all add: shown_as_def)

definition up_to_date :: "action list \<Rightarrow> action list \<Rightarrow> (string \<times> bytes) list \<Rightarrow> (string \<rightharpoonup> bool) \<Rightarrow> view option \<Rightarrow> bool" where
  "up_to_date qs rs P A d \<longleftrightarrow>
     (case d of
        Some x \<Rightarrow> (A (vw_key x) = None \<longrightarrow> qs = []) \<and> absorbed (qs @ rs) x \<and> (rs \<noteq> [] \<longrightarrow> (\<forall>km\<in>set P. fst km = vw_key x))
      | None \<Rightarrow> set rs \<subseteq> {Remove})"

definition follows :: "(string \<rightharpoonup> bool) \<Rightarrow> (string \<rightharpoonup> bool) \<Rightarrow> string list \<Rightarrow> string \<Rightarrow> (bytes \<times> action option) list \<Rightarrow>
    (string \<times> bytes) list \<Rightarrow> action option list \<Rightarrow> view option \<Rightarrow> view option \<Rightarrow> bool" where
  "follows W A ks i E P R d v \<longleftrightarrow> keyed W v \<and>
     (\<forall>e\<in>set E. entry_ok A i e) \<and> list_all2 (speaks i) P R \<and>
     fold (effect W i) (map fst (E @ upcoming A P R)) (reload ks d v) = shown_as A d \<and>
     up_to_date (acting (map snd E)) (acting R) P A d"

lemma followsD:
  assumes "follows W A ks i E P R d v"
  shows "keyed W v" "\<And>e. e \<in> set E \<Longrightarrow> entry_ok A i e" "list_all2 (speaks i) P R"
    "fold (effect W i) (map fst (E @ upcoming A P R)) (reload ks d v) = shown_as A d"
    "up_to_date (acting (map snd E)) (acting R) P A d"
    "\<And>e. e \<in> set (E @ upcoming A P R) \<Longrightarrow> entry_ok A i e"
  using assms upcoming_ok unfolding follows_def by auto

section \<open>What the steps do to one object\<close>

lemma up_to_date_tl: "up_to_date (a # qs) rs P A d \<Longrightarrow> up_to_date qs rs P A d"
  using absorbed_tl [of a "qs @ rs"] by (auto simp: up_to_date_def split: option.splits)

lemma follows_flush:
  assumes "follows W A [] i (e # E) P R d v" "within A W"
  shows "follows W A [] i E P R d (effect W i (fst e) v)"
proof -
  note f = followsD [OF assms(1)]
  have "keyed W (effect W i (fst e) v)" using f(2) [of e] f(1) assms(2) by (simp add: entry_ok_def keeps_def)
  moreover have "up_to_date (acting (map snd E)) (acting R) P A d"
    using f(5) up_to_date_tl by (cases "snd e") auto
  ultimately show ?thesis using f(2-4) by (simp add: follows_def)
qed

lemma follows_publish:
  assumes "follows W A ks i E (km # P) (ao # R) d v" "S = A \<or> ao \<noteq> None"
  shows "follows W A ks i (E @ map (\<lambda>b. (b, ao)) (passes A S km)) P R d v"
proof -
  note f = followsD [OF assms(1)]
  have sp: "speaks i km ao" and rest: "list_all2 (speaks i) P R" using f(3) by simp_all
  have same: "passes A S km = passed A km"
  proof (cases ao)
    case None
    with assms(2) show ?thesis by (simp add: passed_passes)
  next
    case (Some a)
    with sp show ?thesis using speaks_passed [of i km a A] by (simp add: speaks_def)
  qed
  have "up_to_date (acting (map snd (E @ map (\<lambda>b. (b, ao)) (passed A km)))) (acting R) P A d"
  proof (cases ao)
    case None
    have "acting (map snd (map (\<lambda>b. (b, None)) (passed A km))) = []" by (induction "passed A km") (simp_all add: comp_def acting_def List.map_filter_def)
    with None f(5) show ?thesis by (auto simp: up_to_date_def split: option.splits)
  next
    case (Some a)
    with sp have p: "passed A km = (if A (fst km) = None then [] else [snd km])" using speaks_passed by blast
    show ?thesis
    proof (cases "A (fst km) = None")
      case True
      with f(5) Some p show ?thesis using absorbed_tl [of a "acting R"] by (auto simp: up_to_date_def split: option.splits)
    next
      case False
      with f(5) Some p show ?thesis by (auto simp: up_to_date_def split: option.splits)
    qed
  qed
  moreover have "\<forall>e\<in>set (map (\<lambda>b. (b, ao)) (passes A S km)). entry_ok A i e" using sp by (auto simp: speaks_def)
  ultimately show ?thesis
    using f(1,2,4) rest unfolding follows_def same by (auto simp: upcoming_def)
qed

lemma follows_created:
  assumes "speaks i (vw_key x, b) (Some (Replace x))" "within A W" "\<forall>k\<in>set ks. A k \<noteq> None"
  shows "follows W A ks i [] [(vw_key x, b)] [Some (Replace x)] (Some x) None"
proof -
  have p: "passed A (vw_key x, b) = (if A (vw_key x) = None then [] else [b])" using speaks_passed [OF assms(1)] by simp
  have "effect W i b v = Some x" if "A (vw_key x) \<noteq> None" "keyed W v" for v
  proof -
    have "entry_ok A i (b, Some (Replace x))"
      using assms(1) that(1) p unfolding speaks_def passed_passes by (metis (no_types, lifting) list.set_intros(1))
    with that(2) show ?thesis by (simp add: entry_ok_def acts_def)
  qed
  with assms p show ?thesis by (auto simp: follows_def up_to_date_def within_def keyed_def)
qed

lemma follows_modified:
  assumes "follows W A ks i E [] [] (Some x) v" "speaks i (vw_key x, b) (Some (Overlay f ver))" "within A W"
    and "\<forall>k\<in>set ks. A k \<noteq> None" "ks = [] \<or> calm E"
  shows "follows W A ks i E [(vw_key x, b)] [Some (Overlay f ver)] (Some (overlaid f ver x)) v"
proof -
  note f = followsD [OF assms(1), simplified]
  have key [simp]: "vw_key (overlaid f ver x) = vw_key x" by (simp add: overlaid_def)
  have p: "passed A (vw_key x, b) = (if A (vw_key x) = None then [] else [b])" using speaks_passed [OF assms(2)] by simp
  have snoc: "absorbed (acting (map snd E) @ [Overlay f ver]) (overlaid f ver x)"
    using f(5) absorbed_snoc by (simp add: up_to_date_def)
  have eff: "effect W i b u = act (Overlay f ver) u" if "A (vw_key x) \<noteq> None" "keyed W u" for u
  proof -
    have "entry_ok A i (b, Some (Overlay f ver))"
      using assms(2) that(1) p unfolding speaks_def passed_passes by (metis (no_types, lifting) list.set_intros(1))
    with that(2) show ?thesis by (simp add: entry_ok_def acts_def)
  qed
  have "fold (effect W i) (map fst E @ passed A (vw_key x, b)) (reload ks (Some (overlaid f ver x)) v) = shown_as A (Some (overlaid f ver x))"
  proof (cases "vw_key x \<in> set ks")
    case True
    with assms(4) have agents: "A (vw_key x) \<noteq> None" by blast
    then have W: "keyed W (Some (overlaid f ver x))" using assms(3) by (simp add: within_def)
    have "calm E" using assms(5) True by auto
    have "fold (effect W i) (map fst E) (Some (overlaid f ver x)) = fold act (acting (map snd E)) (Some (overlaid f ver x))"
      by (rule fold_calm [OF \<open>calm E\<close> _ assms(3) W]) (use f(2) in blast)
    moreover have "keyed W (fold (effect W i) (map fst E) (Some (overlaid f ver x)))"
      by (rule keyed_fold [OF _ assms(3) W]) (use f(2) in blast)
    ultimately have "fold (effect W i) (map fst E @ [b]) (Some (overlaid f ver x)) =
        fold act (acting (map snd E) @ [Overlay f ver]) (Some (overlaid f ver x))"
      using eff [OF agents] by simp
    with snoc show ?thesis using True agents by (auto simp: p absorbed_def)
  next
    case False
    have "fold (effect W i) (map fst E) v = shown_as A (Some x)" using f(4) False by simp
    moreover have "effect W i b (Some x) = Some (overlaid f ver x)" if "A (vw_key x) \<noteq> None"
      using eff [OF that, of "Some x"] that assms(3) by (simp add: within_def)
    ultimately show ?thesis using False by (simp add: p)
  qed
  then have "fold (effect W i) (map fst (E @ upcoming A [(vw_key x, b)] [Some (Overlay f ver)]))
      (reload ks (Some (overlaid f ver x)) v) = shown_as A (Some (overlaid f ver x))"
    by (simp only: upcoming_simps map_append map_map comp_def fst_conv list.map_ident append_Nil2)
  with f(1,2,5) snoc assms(2) show ?thesis unfolding follows_def by (simp add: up_to_date_def)
qed

lemma follows_moved:
  assumes "follows A A [] i E [] [] d v" "list_all2 (speaks i) P R" "set R \<subseteq> {None}"
    and "fold (effect A i) (concat (map (passed A) P)) (shown_as A d) = shown_as A (Some y)"
  shows "follows A A [] i (map (\<lambda>e. (fst e, None)) E) P R (Some y) v"
proof -
  note f = followsD [OF assms(1), simplified]
  have none: "acting R = []" using assms(3) by (induction R) auto
  have "acting (map snd (map (\<lambda>e. (fst e, None)) E)) = []" by (induction E) simp_all
  moreover have "entry_ok A i (fst e, None)" if "e \<in> set E" for e
    using f(2) [OF that] entry_ok_overtaken [of A i "fst e" "snd e"] by simp
  ultimately show ?thesis
    using f(1,4) assms(2,4) none upcoming_bytes [OF assms(2), of A] by (auto simp: follows_def up_to_date_def comp_def)
qed

lemma follows_deleted:
  assumes "follows W A ks i E [] [] (Some x) v" "speaks i (vw_key x, b) (Some Remove)" "within A W" "\<forall>k\<in>set ks. A k \<noteq> None"
  shows "follows W A ks i E [(vw_key x, b)] [Some Remove] None v"
proof -
  note f = followsD [OF assms(1), simplified]
  have p: "passed A (vw_key x, b) = (if A (vw_key x) = None then [] else [b])" using speaks_passed [OF assms(2)] by simp
  have "fold (effect W i) (map fst E @ passed A (vw_key x, b)) v = None"
  proof (cases "A (vw_key x) = None")
    case True
    with assms(4) have "vw_key x \<notin> set ks" by auto
    with True f(4) show ?thesis by (simp add: p)
  next
    case False
    have "entry_ok A i (b, Some Remove)"
      using assms(2) False p unfolding speaks_def passed_passes by (metis (no_types, lifting) list.set_intros(1))
    moreover have "keyed W (fold (effect W i) (map fst E) v)"
      by (rule keyed_fold [OF _ assms(3) f(1)]) (use f(2) in blast)
    ultimately show ?thesis using False by (auto simp: p entry_ok_def acts_def)
  qed
  with f(1,2) assms(2) show ?thesis by (simp add: follows_def up_to_date_def comp_def)
qed

text \<open>Messages that are not about moves mean the same under more subscriptions.\<close>

lemma acting_all [simp]: "acting (map Some rs) = rs"
  by (induction rs) simp_all

lemma calm_upcoming: "calm (upcoming A P (map Some rs))"
proof (induction rs arbitrary: P)
  case (Cons a rs)
  then show ?case by (cases P) (auto simp: calm_def)
qed simp

lemma follows_ask:
  assumes "follows W A [] i E P (map Some rs) d v" "within A W" "within W W'" "calm E"
  shows "follows W' A [] i E P (map Some rs) d v"
proof -
  note f = followsD [OF assms(1)]
  let ?L = "E @ upcoming A P (map Some rs)"
  have calm: "calm ?L" using assms(4) calm_upcoming by simp
  have ok: "\<forall>e\<in>set ?L. entry_ok A i e" using f(6) by blast
  have W': "keyed W' v" "within A W'" using f(1) keyed_within within_trans [OF assms(2,3)] assms(3) by blast+
  have "fold (effect W' i) (map fst ?L) v = fold (effect W i) (map fst ?L) v"
    unfolding fold_calm [OF calm ok assms(2) f(1)] fold_calm [OF calm ok W'(2,1)] ..
  with f(2-5) W'(1) show ?thesis by (simp add: follows_def)
qed

text \<open>
  The agents get the new keys: what is still to be published on them will be heard. What the load is
  about to show has all of it already.
\<close>

lemma upcoming_heard:
  "list_all2 (speaks i) P (map Some rs) \<Longrightarrow> (rs \<noteq> [] \<longrightarrow> (\<forall>km\<in>set P. fst km = k)) \<Longrightarrow>
   acting (map snd (upcoming A P (map Some rs))) = (if A k = None then [] else rs)"
proof (induction rs arbitrary: P)
  case (Cons a rs)
  then obtain km P' where P: "P = km # P'" "speaks i km (Some a)" "list_all2 (speaks i) P' (map Some rs)"
    by (auto simp: list_all2_Cons2)
  with Cons show ?case using speaks_passed [of i km a A] by simp
qed simp

lemma fold_removes: "set rs \<subseteq> {Remove} \<Longrightarrow> fold act rs None = None"
  by (induction rs) auto

lemma upcoming_subset: "set (acting (map snd (upcoming A P (map Some rs)))) \<subseteq> set rs"
proof (induction rs arbitrary: P)
  case (Cons a rs)
  have "set (acting (map (\<lambda>b. Some a) bs)) \<subseteq> {a}" for bs :: "bytes list" by (induction bs) auto
  with Cons show ?case by (cases P) (auto simp: comp_def)
qed simp

lemma upcoming_removes:
  "list_all2 (speaks i) P (map Some rs) \<Longrightarrow> set rs \<subseteq> {Remove} \<Longrightarrow> within A W \<Longrightarrow>
   fold act (acting (map snd (upcoming A P (map Some rs)))) v = None \<Longrightarrow>
   fold act (acting (map snd (upcoming W P (map Some rs)))) v = None"
proof (induction rs arbitrary: P v)
  case (Cons a rs)
  then obtain km P' where P: "P = km # P'" "speaks i km (Some Remove)" "list_all2 (speaks i) P' (map Some rs)" and a: "a = Remove"
    by (auto simp: list_all2_Cons2)
  have up: "acting (map snd (upcoming V P (Some a # map Some rs))) =
      (if V (fst km) = None then [] else [Remove]) @ acting (map snd (upcoming V P' (map Some rs)))" for V
    using speaks_passed [OF P(2), of V] by (simp add: P(1) a)
  show ?case
  proof (cases "A (fst km) = None")
    case True
    with Cons.prems(4) have rest: "fold act (acting (map snd (upcoming A P' (map Some rs)))) v = None" by (simp add: up del: upcoming_simps)
    have "fold act (acting (map snd (upcoming W P' (map Some rs)))) v = None"
      by (rule Cons.IH [OF P(3) _ Cons.prems(3) rest]) (use Cons.prems(2) in simp)
    moreover have "fold act (acting (map snd (upcoming W P' (map Some rs)))) None = None"
      using subset_trans [OF upcoming_subset, of _ "{Remove}"] Cons.prems(2) by (intro fold_removes) simp
    ultimately show ?thesis by (simp add: up del: upcoming_simps)
  next
    case False
    moreover from False Cons.prems(3) have "W (fst km) \<noteq> None" by (auto simp: within_def)
    moreover have "fold act (acting (map snd (upcoming W P' (map Some rs)))) None = None"
      using subset_trans [OF upcoming_subset, of _ "{Remove}"] Cons.prems(2) by (intro fold_removes) simp
    ultimately show ?thesis by (auto simp: up simp del: upcoming_simps)
  qed
qed simp

lemma follows_register:
  assumes "follows W A [] i E P (map Some rs) d v" "calm E" "\<forall>k. W k \<noteq> None \<longleftrightarrow> A k \<noteq> None \<or> k \<in> set ks"
  shows "follows W W ks i E P (map Some rs) d v"
proof -
  let ?R = "map Some rs" and ?qs = "acting (map snd E)"
  note f = followsD [OF assms(1), simplified]
  have AW: "within A W" and KW: "\<forall>k\<in>set ks. W k \<noteq> None" using assms(3) by (auto simp: within_def)
  have ok: "\<forall>e\<in>set E. entry_ok W i e" using f(2) entry_ok_within [OF _ AW] by blast
  let ?L = "E @ upcoming W P ?R"
  have calm: "calm ?L" "calm (E @ upcoming A P ?R)" using assms(2) calm_upcoming by simp_all
  have okL: "\<forall>e\<in>set ?L. entry_ok W i e" using ok upcoming_ok [OF f(3)] by auto
  have okA: "\<forall>e\<in>set (E @ upcoming A P ?R). entry_ok A i e" using f(2) upcoming_ok [OF f(3)] by auto
  have base: "fold act (acting (map snd (upcoming A P ?R))) (fold act ?qs v) = shown_as A d"
    using f(4) fold_calm [OF calm(2) okA AW f(1)] by simp
  have "keyed W (reload ks d v)" using f(1) KW by (auto simp: reload_def split: option.split)
  from fold_calm [OF calm(1) okL within_refl this]
  have "fold (effect W i) (map fst ?L) (reload ks d v) =
      fold act (acting (map snd (upcoming W P ?R))) (fold act ?qs (reload ks d v))" by simp
  also have "\<dots> = shown_as W d"
  proof (cases d)
    case None
    with f(5) have "set rs \<subseteq> {Remove}" by (simp add: up_to_date_def)
    from upcoming_removes [OF f(3) this AW] base None show ?thesis by simp
  next
    case (Some x)
    with f(5) have up: "absorbed (?qs @ rs) x" "rs \<noteq> [] \<longrightarrow> (\<forall>km\<in>set P. fst km = vw_key x)" by (simp_all add: up_to_date_def)
    show ?thesis
    proof (cases "vw_key x \<in> set ks")
      case True
      with KW up(1) Some show ?thesis by (auto simp: upcoming_heard [OF f(3) up(2)] absorbed_def)
    next
      case False
      then have "W (vw_key x) = None \<longleftrightarrow> A (vw_key x) = None" using assms(3) by blast
      with base Some False show ?thesis by (auto simp: upcoming_heard [OF f(3) up(2)])
    qed
  qed
  finally have "fold (effect W i) (map fst ?L) (reload ks d v) = shown_as W d" .
  moreover have "up_to_date ?qs rs P W d"
    using f(5) AW by (auto simp: up_to_date_def within_def split: option.splits)
  ultimately show ?thesis using f(1,3) ok by (simp add: follows_def)
qed

lemma follows_load:
  assumes "follows W A ks i E P R d v" "\<forall>k\<in>set ks. W k \<noteq> None"
  shows "follows W A [] i E P R d (reload ks d v)"
proof -
  note f = followsD [OF assms(1)]
  have "keyed W (reload ks d v)" using f(1) assms(2) by (auto simp: reload_def split: option.split)
  with f(2-5) show ?thesis by (simp add: follows_def)
qed

section \<open>The messages of the operations\<close>

lemma passes_json: "passes A S (ch, CHR ''{'' # r) = (if A ch = None then [] else [CHR ''{'' # r])"
proof -
  have "room 1 (make_chan 1)" by (simp add: room_def make_chan_def)
  from handed_json [OF this, of A S ch r] show ?thesis by (simp add: passes_def queued_def make_chan_def)
qed

lemma passes_moved:
  "CHR ''{'' \<notin> set psk \<Longrightarrow> passes A S (ch, ''from '' @ psk @ CHR ''{'' # r) =
     (if A ch = None \<or> S psk \<noteq> None then [] else [CHR ''{'' # r])"
proof -
  assume brace: "CHR ''{'' \<notin> set psk"
  have "room 1 (make_chan 1)" by (simp add: room_def make_chan_def)
  from handed_moved [OF this brace, of A S ch r]
  show "passes A S (ch, ''from '' @ psk @ CHR ''{'' # r) = (if A ch = None \<or> S psk \<noteq> None then [] else [CHR ''{'' # r])"
    unfolding passes_def by (simp add: queued_def make_chan_def)
qed

lemma speaks_json:
  assumes "\<And>W. tells W i (CHR ''{'' # r)" "\<And>A. A k \<noteq> None \<Longrightarrow> keeps A i (CHR ''{'' # r)"
    and "\<And>a. ao = Some a \<Longrightarrow> acts i (CHR ''{'' # r) a"
  shows "speaks i (k, CHR ''{'' # r) ao"
  using assms by (auto simp: speaks_def passes_json entry_ok_def)

context stored_object
begin

text \<open>A modification that stays under its key, one that moves, a creation and a deletion.\<close>

lemma Modify_speaks:
  assumes "redis_behaves rd db" "mongo_behaves ops tag_of mk stored mg docs"
    and "MongoSynk_Modify ops mg rd s = (Ret v, s')"
  defines "x \<equiv> ms_obj s"
  assumes "encodable ops x" "announceable ops x" "obj_GetSubKey ops x = obj_GetPrevSubKey ops x"
  obtains b f ver where "published_since (db (ms_redis s)) (db (ms_redis s')) = [(vw_key (view_of ops x), b)]"
    "speaks (obj_TagGetID ops x) (vw_key (view_of ops x), b) (Some (Overlay f ver))"
    "view_of ops (modified_obj ops x) = overlaid f ver (view_of ops x)"
proof (rule Modify_effects [OF assms(1-3) assms(5,6) [unfolded x_def], folded x_def])
  fix r1 r2 f
  let ?i = "obj_TagGetID ops x" and ?b = "CHR ''{'' # r1" and ?ver = "Some (juint (obj_Version ops x + 1))"
  assume pub: "published_since (db (ms_redis s)) (db (ms_redis s')) =
      (if obj_GetSubKey ops x = obj_GetPrevSubKey ops x then [(obj_GetPrevSubKey ops x, ?b)]
       else [(obj_GetPrevSubKey ops x, ?b), (obj_GetSubKey ops x, ''from '' @ obj_GetPrevSubKey ops x @ CHR ''{'' # r2)])"
    and tells: "\<And>subs. tells subs ?i ?b"
    and eff: "\<And>subs u. effect subs ?i ?b u = (case u of None \<Rightarrow> None | Some view \<Rightarrow>
       (let k = (if obj_GetSubKey ops x = obj_GetPrevSubKey ops x then vw_key view else obj_GetSubKey ops x)
        in if subs k = None then None else Some \<lparr>vw_fields = vw_fields view ++ f, vw_key = k, vw_version = ?ver\<rparr>))"
    and view: "view_of ops (modified_obj ops x) = \<lparr>vw_fields = vw_fields (view_of ops x) ++ f, vw_key = obj_GetSubKey ops x,
      vw_version = ?ver\<rparr>"
  have key: "vw_key (view_of ops x) = obj_GetPrevSubKey ops x" by (simp add: view_of_def)
  have "acts ?i ?b (Overlay f ?ver)"
    using assms(7) by (auto simp: acts_def eff overlaid_def Let_def split: option.split)
  moreover have "keeps A ?i ?b" for A
    by (auto simp: keeps_def keyed_def eff Let_def split: option.split)
  ultimately have "speaks ?i (vw_key (view_of ops x), ?b) (Some (Overlay f ?ver))"
    using tells by (intro speaks_json) simp_all
  moreover have "view_of ops (modified_obj ops x) = overlaid f ?ver (view_of ops x)"
    unfolding view using assms(7) key by (simp add: overlaid_def)
  ultimately show thesis using that pub assms(7) key by simp
qed

lemma Modify_moves_speaks:
  assumes "redis_behaves rd db" "mongo_behaves ops tag_of mk stored mg docs"
    and "MongoSynk_Modify ops mg rd s = (Ret v, s')"
  defines "x \<equiv> ms_obj s"
  assumes "encodable ops x" "announceable ops x" "obj_GetSubKey ops x \<noteq> obj_GetPrevSubKey ops x"
  shows "list_all2 (speaks (obj_TagGetID ops x)) (published_since (db (ms_redis s)) (db (ms_redis s'))) [None, None]"
proof (rule Modify_effects [OF assms(1-3) assms(5,6) [unfolded x_def], folded x_def])
  fix r1 r2 f
  let ?i = "obj_TagGetID ops x" and ?b = "CHR ''{'' # r1" and ?ver = "Some (juint (obj_Version ops x + 1))"
  assume pub: "published_since (db (ms_redis s)) (db (ms_redis s')) =
      (if obj_GetSubKey ops x = obj_GetPrevSubKey ops x then [(obj_GetPrevSubKey ops x, ?b)]
       else [(obj_GetPrevSubKey ops x, ?b), (obj_GetSubKey ops x, ''from '' @ obj_GetPrevSubKey ops x @ CHR ''{'' # r2)])"
    and tells: "\<And>subs. tells subs ?i ?b" "\<And>subs. tells subs ?i (CHR ''{'' # r2)"
    and eff: "\<And>subs u. effect subs ?i ?b u = (case u of None \<Rightarrow> None | Some view \<Rightarrow>
       (let k = (if obj_GetSubKey ops x = obj_GetPrevSubKey ops x then vw_key view else obj_GetSubKey ops x)
        in if subs k = None then None else Some \<lparr>vw_fields = vw_fields view ++ f, vw_key = k, vw_version = ?ver\<rparr>))"
      "\<And>subs u. effect subs ?i (CHR ''{'' # r2) u = Some (view_of ops (modified_obj ops x))"
    and view: "view_of ops (modified_obj ops x) = \<lparr>vw_fields = vw_fields (view_of ops x) ++ f, vw_key = obj_GetSubKey ops x,
      vw_version = ?ver\<rparr>"
  have "keeps A ?i ?b" for A
    by (auto simp: keeps_def keyed_def eff Let_def split: option.split)
  then have "speaks ?i (obj_GetPrevSubKey ops x, ?b) None"
    using tells by (intro speaks_json) simp_all
  moreover have "keeps A ?i (CHR ''{'' # r2)" if "A (obj_GetSubKey ops x) \<noteq> None" for A
    using that by (auto simp: keeps_def keyed_def eff view within_def)
  moreover have "CHR ''{'' \<notin> set (obj_GetPrevSubKey ops x)" using assms(6) by (simp add: announceable_def)
  ultimately show ?thesis
    using assms(7) tells passes_moved [of "obj_GetPrevSubKey ops x"] by (auto simp: pub speaks_def entry_ok_def)
qed

lemma Create_speaks:
  assumes "redis_behaves rd db" "mongo_behaves ops tag_of mk stored mg docs"
    and "MongoSynk_Create ops mg rd s = (Ret v, s')"
    and "encodable ops (ms_obj s')" "valid_utf8 (obj_TypeKey ops (ms_obj s))"
  obtains b where "published_since (db (ms_redis s)) (db (ms_redis s')) = [(vw_key (view_of ops (ms_obj s')), b)]"
    "speaks (obj_TagGetID ops (ms_obj s')) (vw_key (view_of ops (ms_obj s')), b) (Some (Replace (view_of ops (ms_obj s'))))"
proof (rule Create_effects [OF assms])
  fix r
  let ?i = "obj_TagGetID ops (ms_obj s')" and ?b = "CHR ''{'' # r" and ?v = "view_of ops (ms_obj s')"
  assume pub: "published_since (db (ms_redis s)) (db (ms_redis s')) = [(obj_GetPrevSubKey ops (ms_obj s'), ?b)]"
    and tells: "\<And>subs. tells subs ?i ?b" and eff: "\<And>subs u. effect subs ?i ?b u = Some ?v"
  have key: "obj_GetPrevSubKey ops (ms_obj s') = vw_key ?v" by (simp add: view_of_def)
  have "speaks ?i (vw_key ?v, ?b) (Some (Replace ?v))"
    by (rule speaks_json) (auto simp: tells keeps_def eff acts_def within_def)
  with that pub show thesis unfolding key by blast
qed

lemma Delete_speaks:
  assumes "redis_behaves rd db" "mongo_behaves ops tag_of mk stored mg docs"
    and "MongoSynk_Delete ops mg rd s = (Ret v, s')" "encodable ops (ms_obj s)"
  obtains b where "published_since (db (ms_redis s)) (db (ms_redis s')) = [(vw_key (view_of ops (ms_obj s)), b)]"
    "speaks (obj_TagGetID ops (ms_obj s)) (vw_key (view_of ops (ms_obj s)), b) (Some Remove)"
proof (rule Delete_effects [OF assms])
  fix r
  let ?i = "obj_TagGetID ops (ms_obj s)" and ?b = "CHR ''{'' # r" and ?v = "view_of ops (ms_obj s)"
  assume pub: "published_since (db (ms_redis s)) (db (ms_redis s')) = [(obj_GetPrevSubKey ops (ms_obj s), ?b)]"
    and tells: "\<And>subs. tells subs ?i ?b" and eff: "\<And>subs u. effect subs ?i ?b u = None"
  have key: "obj_GetPrevSubKey ops (ms_obj s) = vw_key ?v" by (simp add: view_of_def)
  have "speaks ?i (vw_key ?v, ?b) (Some Remove)"
    by (rule speaks_json) (auto simp: tells keeps_def eff acts_def)
  with that pub show thesis unfolding key by blast
qed

end

end
