(* ===== verification/Live.thy ===== *)
theory Live
  imports Actions
begin

text \<open>
  The whole traffic around one client: any number of calls of \<open>Create\<close>, \<open>Modify\<close> and \<open>Delete\<close> on
  different objects, each of which writes and then publishes, and the subscription requests of the
  client one after the other, each of which changes the client's map, then the agents, and then loads;
  all of it interleaves with the deliveries and with the main loop, which rests during a request.

  A message about a move means something else to a client that is about to get more keys, and a
  message about an earlier object with the same identifier has no place in a later one. The system
  remembers the objects to which this happens; every other one is shown exactly.
\<close>

section \<open>One object and one client\<close>

text \<open>
  The messages still to be published have actions, \<open>rs\<close>, unless they are about a move, \<open>mv\<close>. \<open>rest\<close>: no
  request is running; \<open>used\<close>: the identifier was in use; \<open>loose\<close>: the object is left out of the claim.
\<close>

definition answers :: "bool \<Rightarrow> (string \<times> bytes) list \<Rightarrow> action list \<Rightarrow> action option list" where
  "answers mv P rs = (if mv then map (\<lambda>_. None) P else map Some rs)"

definition object_ok :: "(string \<rightharpoonup> bool) \<Rightarrow> (string \<rightharpoonup> bool) \<Rightarrow> bool \<Rightarrow> string list \<Rightarrow> string \<Rightarrow> (bytes \<times> action option) list \<Rightarrow>
    (string \<times> bytes) list \<Rightarrow> action list \<Rightarrow> bool \<Rightarrow> bool \<Rightarrow> bool \<Rightarrow> view option \<Rightarrow> view option \<Rightarrow> bool" where
  "object_ok A W rest ks i E P rs mv used loose d v \<longleftrightarrow>
     (\<forall>e\<in>set E. entry_ok A i e) \<and> list_all2 (speaks i) P (answers mv P rs) \<and>
     (\<not> used \<longrightarrow> E = [] \<and> P = [] \<and> d = None \<and> v = None) \<and>
     (\<not> loose \<longrightarrow> follows W A ks i E P (answers mv P rs) d v \<and> (\<not> rest \<longrightarrow> calm E \<and> (mv \<longrightarrow> P = [])))"

lemma answers_Nil: "list_all2 Q [] (answers mv [] rs) \<Longrightarrow> answers mv [] rs = []"
  by simp

lemma ok_flush:
  "object_ok A W rest [] i (e # E) P rs mv used loose d v \<Longrightarrow> within A W \<Longrightarrow>
   object_ok A W rest [] i E P rs mv used loose d (effect W i (fst e) v)"
  using follows_flush by (auto simp: object_ok_def)

lemma ok_publish:
  assumes "object_ok A W rest ks i E (km # P) rs mv used loose d v" "S = A \<or> \<not> rest"
  shows "object_ok A W rest ks i (E @ map (\<lambda>b. (b, if mv then None else Some (hd rs))) (passes A S km)) P
    (if mv then rs else tl rs) mv used loose d v"
proof -
  let ?ao = "if mv then None else Some (hd rs)" and ?R = "answers mv P (if mv then rs else tl rs)"
  have R: "answers mv (km # P) rs = ?ao # ?R"
    using assms(1) by (cases rs) (auto simp: object_ok_def answers_def)
  have ok: "entry_ok A i e" if "e \<in> set (map (\<lambda>b. (b, ?ao)) (passes A S km))" for e
    using assms(1) that R by (auto simp: object_ok_def speaks_def)
  have "follows W A ks i (E @ map (\<lambda>b. (b, ?ao)) (passes A S km)) P ?R d v" if "\<not> loose"
  proof (rule follows_publish)
    show "follows W A ks i E (km # P) (?ao # ?R) d v" using assms(1) that R by (simp add: object_ok_def)
    show "S = A \<or> ?ao \<noteq> None" using assms that by (auto simp: object_ok_def)
  qed
  with assms(1) R ok show ?thesis by (auto simp: object_ok_def calm_def)
qed

lemma ok_create:
  assumes "object_ok A W rest ks i E [] rs mv False loose d v" "speaks i (vw_key x, b) (Some (Replace x))"
    and "within A W" "\<forall>k\<in>set ks. A k \<noteq> None"
  shows "object_ok A W rest ks i E [(vw_key x, b)] [Replace x] False True loose (Some x) v"
  using assms(1,2) follows_created [OF assms(2-4)] by (auto simp: object_ok_def answers_def)

lemma ok_modify:
  assumes "object_ok A W rest ks i E [] rs mv used loose (Some x) v" "speaks i (vw_key x, b) (Some (Overlay f ver))"
    and "within A W" "\<forall>k\<in>set ks. A k \<noteq> None" "rest \<longrightarrow> ks = []"
  shows "object_ok A W rest ks i E [(vw_key x, b)] [Overlay f ver] False used loose (Some (overlaid f ver x)) v"
proof -
  have "follows W A ks i E [] [] (Some x) v" "ks = [] \<or> calm E" if "\<not> loose"
    using assms(1,5) that answers_Nil [of "speaks i" mv rs] by (auto simp: object_ok_def)
  from follows_modified [OF this(1) assms(2-4) this(2)] assms(1,2) show ?thesis
    by (auto simp: object_ok_def answers_def)
qed

lemma ok_move:
  assumes "object_ok A W rest ks i E [] rs mv used loose d v" "list_all2 (speaks i) P (map (\<lambda>_. None) P)"
    and "rest \<longrightarrow> W = A \<and> ks = []" "used"
    and "fold (effect A i) (concat (map (passed A) P)) (shown_as A d) = shown_as A (Some y)"
  shows "object_ok A W rest ks i (map (\<lambda>e. (fst e, None)) E) P rs True True (loose \<or> \<not> rest) (Some y) v"
proof -
  have "follows A A [] i (map (\<lambda>e. (fst e, None)) E) P (map (\<lambda>_. None) P) (Some y) v" if "\<not> (loose \<or> \<not> rest)"
    using assms(1,3) that answers_Nil [of "speaks i" mv rs]
    by (intro follows_moved [OF _ assms(2) _ assms(5)]) (auto simp: object_ok_def)
  moreover have "entry_ok A i (fst e, None)" if "e \<in> set E" for e
    using assms(1) that entry_ok_overtaken [of A i "fst e" "snd e"] by (simp add: object_ok_def)
  ultimately show ?thesis using assms(1-4) by (auto simp: object_ok_def answers_def)
qed

lemma ok_delete:
  assumes "object_ok A W rest ks i E [] rs mv used loose (Some x) v" "speaks i (vw_key x, b) (Some Remove)"
    and "within A W" "\<forall>k\<in>set ks. A k \<noteq> None"
  shows "object_ok A W rest ks i E [(vw_key x, b)] [Remove] False used loose None v"
proof -
  have "follows W A ks i E [] [] (Some x) v" if "\<not> loose"
    using assms(1) that answers_Nil [of "speaks i" mv rs] by (auto simp: object_ok_def)
  from follows_deleted [OF this assms(2-4)] assms(1,2) show ?thesis by (auto simp: object_ok_def answers_def)
qed

text \<open>A request begins, reaches the agents, and loads.\<close>

lemma answers_calm:
  "list_all2 Q P (answers mv P rs) \<Longrightarrow> (mv \<longrightarrow> P = []) \<Longrightarrow> answers mv P rs = map Some (if mv then [] else rs)"
  by (auto simp: answers_def)

lemma ok_ask:
  assumes "object_ok A A True [] i E P rs mv used loose d v" "within A W"
  shows "object_ok A W False [] i E P rs mv used (loose \<or> \<not> calm E \<or> mv \<and> P \<noteq> []) d v"
proof -
  have "follows W A [] i E P (answers mv P rs) d v" if "\<not> loose" "calm E" "mv \<longrightarrow> P = []"
  proof -
    have R: "answers mv P rs = map Some (if mv then [] else rs)"
      using assms(1) that(3) by (intro answers_calm [of "speaks i"]) (simp_all add: object_ok_def)
    have "follows A A [] i E P (map Some (if mv then [] else rs)) d v"
      using assms(1) that(1) unfolding R [symmetric] by (simp add: object_ok_def)
    from follows_ask [OF this within_refl assms(2) that(2)] show ?thesis unfolding R .
  qed
  with assms(1) show ?thesis by (auto simp: object_ok_def)
qed

lemma ok_register:
  assumes "object_ok A W False [] i E P rs mv used loose d v" "\<forall>k. W k \<noteq> None \<longleftrightarrow> A k \<noteq> None \<or> k \<in> set ks"
  shows "object_ok W W False ks i E P rs mv used loose d v"
proof -
  have "within A W" using assms(2) by (auto simp: within_def)
  then have "entry_ok W i e" if "e \<in> set E" for e
    using assms(1) that by (auto simp: object_ok_def intro: entry_ok_within)
  moreover have "follows W W ks i E P (answers mv P rs) d v" if "\<not> loose"
  proof -
    from assms(1) that have calm: "calm E" "mv \<longrightarrow> P = []" by (simp_all add: object_ok_def)
    have R: "answers mv P rs = map Some (if mv then [] else rs)"
      using assms(1) calm(2) by (intro answers_calm [of "speaks i"]) (simp_all add: object_ok_def)
    have "follows W A [] i E P (map Some (if mv then [] else rs)) d v"
      using assms(1) that unfolding R [symmetric] by (simp add: object_ok_def)
    from follows_register [OF this calm(1) assms(2)] show ?thesis unfolding R .
  qed
  ultimately show ?thesis using assms(1) by (simp add: object_ok_def)
qed

lemma ok_load:
  "object_ok W W False ks i E P rs mv used loose d v \<Longrightarrow> \<forall>k\<in>set ks. W k \<noteq> None \<Longrightarrow>
   object_ok W W True [] i E P rs mv used loose d (reload ks d v)"
  using follows_load [of W W ks i E P "answers mv P rs" d v] by (auto simp: object_ok_def)

section \<open>The system\<close>

text \<open>
  \<open>lv_sys\<close> holds the processes, the collection, the messages to be published and the client's queue;
  \<open>lv_client\<close> is where the main loop is in a request (\<open>Served\<close>: in none), \<open>lv_msg\<close> the request,
  \<open>lv_subs\<close> the client's map, \<open>lv_agents\<close> the keys the agents have for it, and \<open>lv_want\<close> what the browser
  has asked for. The rest only remembers: the identifiers that were ever used, the objects whose last
  call was a move, for each queued message its object and whether it is about a move or was
  overtaken by one, and the objects left out.
\<close>

record 'm live =
  lv_sys :: "'m system"
  lv_client :: requester
  lv_msg :: UpdateSubscriptionMessage
  lv_subs :: "string \<rightharpoonup> bool"
  lv_agents :: "string \<rightharpoonup> bool"
  lv_want :: "string \<rightharpoonup> bool"
  lv_used :: "string set"
  lv_moving :: "string \<Rightarrow> bool"
  lv_queue :: "(string \<times> bool) list"
  lv_loose :: "string set"

text \<open>A call that has written its document; a move overtakes the messages that are queued.\<close>

definition called :: "('r \<Rightarrow> redis_db) \<Rightarrow> 'r \<Rightarrow> (entity, 'm, 'r) mstate \<Rightarrow> string \<Rightarrow> entity option \<Rightarrow> bool \<Rightarrow> 'm live \<Rightarrow> 'm live" where
  "called db r s i x moved t = t\<lparr>lv_sys := written db r s i x (lv_sys t), lv_moving := (lv_moving t)(i := moved),
     lv_queue := (if moved then map (\<lambda>(j, f). (j, f \<or> j = i)) (lv_queue t) else lv_queue t)\<rparr>"

definition moves :: "entity \<Rightarrow> bool" where
  "moves x \<longleftrightarrow> obj_GetSubKey entity_ops x \<noteq> obj_GetPrevSubKey entity_ops x"

text \<open>The objects with a message under way that is about a move or was overtaken by one.\<close>

definition unsettled :: "'m live \<Rightarrow> string set" where
  "unsettled t = {i. (i, True) \<in> set (lv_queue t) \<or> lv_moving t i \<and> cs_pending (lv_sys t) i \<noteq> []}"

inductive live_step :: "('m, entity, 'raw) mongo \<Rightarrow> 'r redis \<Rightarrow> ('r \<Rightarrow> redis_db) \<Rightarrow> 'm live \<Rightarrow> 'm live \<Rightarrow> bool"
  for mg rd db where
  live_mutate: "cs_live (lv_sys t) i = Some x \<Longrightarrow> cs_pending (lv_sys t) i = [] \<Longrightarrow>
     live_step mg rd db t (t\<lparr>lv_sys := (lv_sys t)\<lparr>cs_live := (cs_live (lv_sys t))(i \<mapsto> entity_do m x)\<rparr>\<rparr>)"
| live_create: "MongoSynk_Create entity_ops mg rd (call_with (lv_sys t) r x) = (Ret v, s) \<Longrightarrow> encodable entity_ops (ms_obj s) \<Longrightarrow>
     TagType (entity_tag x) \<in> {'''', obj_TypeKey entity_ops x} \<Longrightarrow> i = obj_TagGetID entity_ops (ms_obj s) \<Longrightarrow>
     cs_pending (lv_sys t) i = [] \<Longrightarrow>
     live_step mg rd db t ((called db r s i (Some (ms_obj s)) (i \<in> lv_used t) t)\<lparr>lv_used := insert i (lv_used t),
       lv_loose := (if i \<in> lv_used t \<and> lv_client t \<noteq> Served then insert i (lv_loose t) else lv_loose t)\<rparr>)"
| live_modify: "cs_live (lv_sys t) i = Some x \<Longrightarrow> cs_pending (lv_sys t) i = [] \<Longrightarrow>
     MongoSynk_Modify entity_ops mg rd (call_with (lv_sys t) r x) = (Ret v, s) \<Longrightarrow>
     encodable entity_ops x \<Longrightarrow> announceable entity_ops x \<Longrightarrow>
     live_step mg rd db t ((called db r s i (Some (ms_obj s)) (moves x) t)\<lparr>lv_loose :=
       (if moves x \<and> lv_client t \<noteq> Served then insert i (lv_loose t) else lv_loose t)\<rparr>)"
| live_delete: "cs_live (lv_sys t) i = Some x \<Longrightarrow> cs_pending (lv_sys t) i = [] \<Longrightarrow>
     MongoSynk_Delete entity_ops mg rd (call_with (lv_sys t) r x) = (Ret v, s) \<Longrightarrow> encodable entity_ops x \<Longrightarrow>
     live_step mg rd db t (called db r s i None False t)"
| live_publish: "cs_pending (lv_sys t) i = km # kms \<Longrightarrow> room 1 (cs_to (lv_sys t)) \<Longrightarrow>
     live_step mg rd db t (t\<lparr>lv_sys := (lv_sys t)\<lparr>cs_pending := (cs_pending (lv_sys t))(i := kms),
         cs_to := handed (lv_agents t) (lv_subs t) km (cs_to (lv_sys t))\<rparr>,
       lv_queue := lv_queue t @ map (\<lambda>_. (i, lv_moving t i)) (passes (lv_agents t) (lv_subs t) km)\<rparr>)"
| live_flush: "lv_client t \<in> {Asking, Served} \<Longrightarrow> chan_recv (cs_to (lv_sys t)) = (Returned (Some b), to') \<Longrightarrow>
     live_step mg rd db t (t\<lparr>lv_sys := (lv_sys t)\<lparr>cs_to := to', cs_cache := browser (lv_want t) b (cs_cache (lv_sys t))\<rparr>,
       lv_queue := tl (lv_queue t)\<rparr>)"
| live_ask: "lv_client t = Served \<Longrightarrow> us_Remove msg = [] \<Longrightarrow>
     live_step mg rd db t (t\<lparr>lv_client := Asking, lv_msg := msg, lv_want := new_subscriptions msg (lv_want t),
       lv_loose := lv_loose t \<union> unsettled t\<rparr>)"
| live_subscribe: "lv_client t = Asking \<Longrightarrow>
     live_step mg rd db t (t\<lparr>lv_subs := new_subscriptions (lv_msg t) (lv_subs t), lv_client := Registering\<rparr>)"
| live_register: "lv_client t = Registering \<Longrightarrow>
     live_step mg rd db t (t\<lparr>lv_agents := new_subscriptions (lv_msg t) (lv_agents t), lv_client := Loading\<rparr>)"
| live_load: "lv_client t = Loading \<Longrightarrow> us_Add (lv_msg t) \<noteq> [] \<Longrightarrow>
     MongoSynk_Load creator mg (us_Add (lv_msg t)) (cs_mongo (lv_sys t)) = (Ret (objs, None), m') \<Longrightarrow>
     live_step mg rd db t (t\<lparr>lv_sys := (lv_sys t)\<lparr>cs_mongo := m',
       cs_cache := fold (browser (lv_want t)) (map (loaded_bytes entity_ops) objs) (cs_cache (lv_sys t))\<rparr>, lv_client := Served\<rparr>)"
| live_no_load: "lv_client t = Loading \<Longrightarrow> us_Add (lv_msg t) = [] \<Longrightarrow>
     live_step mg rd db t (t\<lparr>lv_client := Served\<rparr>)"

text \<open>At the start nothing is stored, nothing is in flight, and no request is running.\<close>

definition live_empty :: "('m \<Rightarrow> string \<rightharpoonup> entity) \<Rightarrow> 'm live \<Rightarrow> bool" where
  "live_empty docs t \<longleftrightarrow> system_empty docs (lv_sys t) \<and> lv_client t = Served \<and> lv_subs t = lv_want t \<and> lv_agents t = lv_want t \<and>
     lv_queue t = [] \<and> lv_loose t = {}"

section \<open>The invariant\<close>

definition request_ok :: "requester \<Rightarrow> UpdateSubscriptionMessage \<Rightarrow> (string \<rightharpoonup> bool) \<Rightarrow> (string \<rightharpoonup> bool) \<Rightarrow> (string \<rightharpoonup> bool) \<Rightarrow> bool" where
  "request_ok c msg S A W \<longleftrightarrow> (c \<noteq> Served \<longrightarrow> us_Remove msg = []) \<and>
     (case c of
        Served \<Rightarrow> S = W \<and> A = W
      | Asking \<Rightarrow> S = A \<and> W = new_subscriptions msg A
      | Registering \<Rightarrow> S = W \<and> W = new_subscriptions msg A
      | Loading \<Rightarrow> S = W \<and> A = W \<and> (\<forall>k\<in>set (us_Add msg). W k \<noteq> None))"

definition to_load :: "requester \<Rightarrow> UpdateSubscriptionMessage \<Rightarrow> string list" where
  "to_load c msg = (if c = Loading then us_Add msg else [])"

text \<open>The queued messages about one object, with their actions.\<close>

type_synonym marked = "string \<times> bytes \<times> action option"

definition of_object :: "string \<Rightarrow> marked list \<Rightarrow> (bytes \<times> action option) list" where
  "of_object i qs = map snd (filter (\<lambda>q. fst q = i) qs)"

definition object_inv :: "('m \<Rightarrow> string \<rightharpoonup> entity) \<Rightarrow> 'm live \<Rightarrow> marked list \<Rightarrow> (string \<Rightarrow> action list) \<Rightarrow> string \<Rightarrow> bool" where
  "object_inv docs t qs rs i \<longleftrightarrow>
     object_ok (lv_agents t) (lv_want t) (lv_client t = Served) (to_load (lv_client t) (lv_msg t)) i (of_object i qs)
       (cs_pending (lv_sys t) i) (rs i) (lv_moving t i) (i \<in> lv_used t) (i \<in> lv_loose t)
       (map_option (view_of entity_ops) (docs (cs_mongo (lv_sys t)) i)) (cs_cache (lv_sys t) i)"

definition live_inv :: "('m \<Rightarrow> string \<rightharpoonup> entity) \<Rightarrow> 'm live \<Rightarrow> bool" where
  "live_inv docs t \<longleftrightarrow> stored_ok docs (lv_sys t) \<and>
     request_ok (lv_client t) (lv_msg t) (lv_subs t) (lv_agents t) (lv_want t) \<and>
     (\<exists>qs rs. map (fst \<circ> snd) qs = ch_buf (cs_to (lv_sys t)) \<and> map (\<lambda>(i, b, ao). (i, ao = None)) qs = lv_queue t \<and>
        (\<forall>i. object_inv docs t qs rs i))"

lemma live_invE:
  assumes "live_inv docs t"
  obtains qs rs where "stored_ok docs (lv_sys t)" "request_ok (lv_client t) (lv_msg t) (lv_subs t) (lv_agents t) (lv_want t)"
    "map (fst \<circ> snd) qs = ch_buf (cs_to (lv_sys t))" "map (\<lambda>(i, b, ao). (i, ao = None)) qs = lv_queue t"
    "\<And>i. object_inv docs t qs rs i"
  using assms by (auto simp: live_inv_def)

lemma live_invI:
  assumes "stored_ok docs (lv_sys t)" "request_ok (lv_client t) (lv_msg t) (lv_subs t) (lv_agents t) (lv_want t)"
    and "map (fst \<circ> snd) qs = ch_buf (cs_to (lv_sys t))" "map (\<lambda>(i, b, ao). (i, ao = None)) qs = lv_queue t"
    and "\<And>i. object_inv docs t qs rs i"
  shows "live_inv docs t"
  using assms unfolding live_inv_def by blast

lemma of_object_simps [simp]:
  "of_object i [] = []" "of_object i (q # qs) = (if fst q = i then snd q # of_object i qs else of_object i qs)"
  "of_object i (qs @ qs') = of_object i qs @ of_object i qs'"
  by (simp_all add: of_object_def)

lemma of_object_map: "of_object i (map (\<lambda>b. (j, b, ao)) bs) = (if j = i then map (\<lambda>b. (b, ao)) bs else [])"
  by (induction bs) auto

lemma new_subscriptions_add: "us_Remove msg = [] \<Longrightarrow> new_subscriptions msg A k \<noteq> None \<longleftrightarrow> A k \<noteq> None \<or> k \<in> set (us_Add msg)"
  by (auto simp: new_subscriptions_def)

lemma request_within: "request_ok c msg S A W \<Longrightarrow> within A W"
  using new_subscriptions_add [of msg A] by (cases c) (auto simp: request_ok_def within_def)

lemma request_loads: "request_ok c msg S A W \<Longrightarrow> \<forall>k\<in>set (to_load c msg). A k \<noteq> None"
  by (cases c) (auto simp: request_ok_def to_load_def)

lemma live_inv_empty: "live_empty docs t \<Longrightarrow> live_inv docs t"
proof (rule live_invI [where qs = "[]" and rs = "\<lambda>_. []"])
  assume t: "live_empty docs t"
  then show "object_inv docs t [] (\<lambda>_. []) i" for i
    by (simp add: live_empty_def system_empty_def object_inv_def object_ok_def follows_def up_to_date_def answers_def to_load_def)
qed (simp_all add: live_empty_def system_empty_def stored_ok_def documents_ok_def request_ok_def fresh_room)

section \<open>Calls\<close>

definition overtake :: "bool \<Rightarrow> string \<Rightarrow> marked list \<Rightarrow> marked list" where
  "overtake moved i qs = (if moved then map (\<lambda>(j, b, ao). (j, b, if j = i then None else ao)) qs else qs)"

lemma overtake_bytes: "map (fst \<circ> snd) (overtake moved i qs) = map (fst \<circ> snd) qs"
  by (simp add: overtake_def case_prod_unfold comp_def)

lemma overtake_tags:
  "map (\<lambda>(j, b, ao). (j, ao = None)) (overtake moved i qs) =
     (if moved then map (\<lambda>(j, f). (j, f \<or> j = i)) (map (\<lambda>(j, b, ao). (j, ao = None)) qs) else map (\<lambda>(j, b, ao). (j, ao = None)) qs)"
  by (auto simp: overtake_def)

lemma overtake_of_object:
  "of_object j (overtake moved i qs) = (if moved \<and> j = i then map (\<lambda>e. (fst e, None)) (of_object j qs) else of_object j qs)"
  by (induction qs) (auto simp: overtake_def split: if_splits)

lemma live_inv_called:
  assumes inv: "live_inv docs t"
    and docs: "docs (ms_mongo s) = (docs (cs_mongo (lv_sys t)))(i := d)"
    and stored: "stored_ok docs (written db r s i x (lv_sys t))"
    and others: "\<And>j. j \<noteq> i \<Longrightarrow> (j \<in> U \<longleftrightarrow> j \<in> lv_used t) \<and> (j \<in> L \<longleftrightarrow> j \<in> lv_loose t)"
    and object: "\<And>E rsi. object_ok (lv_agents t) (lv_want t) (lv_client t = Served) (to_load (lv_client t) (lv_msg t)) i E
        (cs_pending (lv_sys t) i) rsi (lv_moving t i) (i \<in> lv_used t) (i \<in> lv_loose t)
        (map_option (view_of entity_ops) (docs (cs_mongo (lv_sys t)) i)) (cs_cache (lv_sys t) i) \<Longrightarrow>
      \<exists>rsi'. object_ok (lv_agents t) (lv_want t) (lv_client t = Served) (to_load (lv_client t) (lv_msg t)) i
        (if moved then map (\<lambda>e. (fst e, None)) E else E) (published_since (db r) (db (ms_redis s))) rsi' moved (i \<in> U) (i \<in> L)
        (map_option (view_of entity_ops) d) (cs_cache (lv_sys t) i)"
  shows "live_inv docs ((called db r s i x moved t)\<lparr>lv_used := U, lv_loose := L\<rparr>)"
proof -
  obtain qs rs where qs: "request_ok (lv_client t) (lv_msg t) (lv_subs t) (lv_agents t) (lv_want t)"
    "map (fst \<circ> snd) qs = ch_buf (cs_to (lv_sys t))" "map (\<lambda>(i, b, ao). (i, ao = None)) qs = lv_queue t"
    "\<And>i. object_inv docs t qs rs i"
    using live_invE [OF inv] by blast
  obtain rsi where rsi: "object_ok (lv_agents t) (lv_want t) (lv_client t = Served) (to_load (lv_client t) (lv_msg t)) i
      (if moved then map (\<lambda>e. (fst e, None)) (of_object i qs) else of_object i qs) (published_since (db r) (db (ms_redis s))) rsi
      moved (i \<in> U) (i \<in> L) (map_option (view_of entity_ops) d) (cs_cache (lv_sys t) i)"
    using object [OF qs(4) [unfolded object_inv_def]] by blast
  let ?t = "(called db r s i x moved t)\<lparr>lv_used := U, lv_loose := L\<rparr>"
  have "object_inv docs ?t (overtake moved i qs) (rs(i := rsi)) j" for j
  proof (cases "j = i")
    case True
    with rsi show ?thesis by (auto simp: object_inv_def called_def written_def docs overtake_of_object)
  next
    case False
    with qs(4) [of j] others [OF False] show ?thesis
      by (simp add: object_inv_def called_def written_def docs overtake_of_object)
  qed
  moreover have "ch_buf (cs_to (lv_sys ?t)) = ch_buf (cs_to (lv_sys t))" by (simp add: called_def written_def)
  moreover have "lv_queue ?t = (if moved then map (\<lambda>(j, f). (j, f \<or> j = i)) (lv_queue t) else lv_queue t)" by (simp add: called_def)
  ultimately show ?thesis
    using stored qs(1-3) by (intro live_invI [where qs = "overtake moved i qs" and rs = "rs(i := rsi)"])
      (simp_all add: overtake_bytes overtake_tags, simp_all add: called_def)
qed

text \<open>The documents and the objects in memory after a call.\<close>

lemma view_stored: "view_of entity_ops (entity_stored y) = view_of entity_ops y"
  by (rule entity_db.stored_view)

lemma replica_shown: "replica entity_ops D A i = shown_as A (map_option (view_of entity_ops) (D i))"
  by (cases "D i") (simp_all add: replica_def view_of_def)

lemma live_view:
  assumes "live_ok D i x"
  shows "obj_TagGetID entity_ops x = i" "map_option (view_of entity_ops) (D i) = Some (view_of entity_ops x)"
  using assms by (auto simp: live_ok_def synced_def)

lemma live_inv_create:
  assumes "redis_behaves rd db" "mongo_behaves entity_ops entity_tag creator entity_stored mg docs" "live_inv docs t"
    and call: "MongoSynk_Create entity_ops mg rd (call_with (lv_sys t) r x) = (Ret v, s)"
    and "encodable entity_ops (ms_obj s)" "TagType (entity_tag x) \<in> {'''', obj_TypeKey entity_ops x}"
    and i: "i = obj_TagGetID entity_ops (ms_obj s)" and idle: "cs_pending (lv_sys t) i = []"
  shows "live_inv docs ((called db r s i (Some (ms_obj s)) (i \<in> lv_used t) t)\<lparr>lv_used := insert i (lv_used t),
    lv_loose := (if i \<in> lv_used t \<and> lv_client t \<noteq> Served then insert i (lv_loose t) else lv_loose t)\<rparr>)"
proof -
  have ok: "stored_ok docs (lv_sys t)" and req: "request_ok (lv_client t) (lv_msg t) (lv_subs t) (lv_agents t) (lv_want t)"
    using assms(3) by (simp_all add: live_inv_def)
  then have docs_ok: "documents_ok entity_ops entity_tag (docs (cs_mongo (lv_sys t)))" by (simp add: stored_ok_def)
  note kept = create_kept [OF assms(1,2,4,5), unfolded call_with_simps, OF assms(6) docs_ok, folded i]
  obtain b where pub: "published_since (db r) (db (ms_redis s)) = [(vw_key (view_of entity_ops (ms_obj s)), b)]"
    and sp: "speaks i (vw_key (view_of entity_ops (ms_obj s)), b) (Some (Replace (view_of entity_ops (ms_obj s))))"
    using entity_db.Create_speaks [OF assms(1,2,4,5), unfolded call_with_simps, OF kept(4), folded i] by blast
  have ann: "announces (lv_agents t) i (published_since (db r) (db (ms_redis s)))"
      "length (published_since (db r) (db (ms_redis s))) \<le> 2"
    using entity_db.Create_announces [OF assms(1,2,4,5), unfolded call_with_simps, OF kept(4), folded i] by blast+
  have others: "docs (ms_mongo s) j = docs (cs_mongo (lv_sys t)) j" if "j \<noteq> i" for j
    unfolding kept(3) using that by (rule fun_upd_other)
  have "stored_ok docs (written db r s i (Some (ms_obj s)) (lv_sys t))"
    by (rule stored_ok_written [OF ok kept(1) others]) (use kept(2) in simp_all)
  then show ?thesis
  proof (rule live_inv_called [OF assms(3) kept(3)], goal_cases)
    case (1 j)
    then show ?case by auto
  next
    case (2 E rsi)
    show ?case
    proof (cases "i \<in> lv_used t")
      case False
      with ok_create [OF _ sp request_within [OF req] request_loads [OF req]] 2 show ?thesis
        by (intro exI) (simp add: pub view_stored idle)
    next
      case True
      have sp': "list_all2 (speaks i) (published_since (db r) (db (ms_redis s)))
          (map (\<lambda>_. None) (published_since (db r) (db (ms_redis s))))"
        using speaks_None [OF sp] by (simp add: pub)
      have "docs (cs_mongo (lv_sys t)) i = None" using Create_Ret [OF assms(1,2,4)] by (simp add: i)
      with updated_effect [OF ann kept(5)]
      have eff: "fold (effect (lv_agents t) i) (concat (map (passed (lv_agents t)) (published_since (db r) (db (ms_redis s)))))
          (shown_as (lv_agents t) (map_option (view_of entity_ops) (docs (cs_mongo (lv_sys t)) i))) =
          shown_as (lv_agents t) (Some (view_of entity_ops (ms_obj s)))"
        by (simp add: replica_shown kept(3) view_stored)
      have "lv_client t = Served \<longrightarrow> lv_want t = lv_agents t \<and> to_load (lv_client t) (lv_msg t) = []"
        using req by (auto simp: request_ok_def to_load_def)
      from ok_move [OF 2 [unfolded idle] sp' this True eff] True
      show ?thesis by (intro exI [of _ rsi]) (cases "lv_client t = Served"; simp add: view_stored)
    qed
  qed
qed

lemma live_inv_modify:
  assumes "redis_behaves rd db" "mongo_behaves entity_ops entity_tag creator entity_stored mg docs" "live_inv docs t"
    and live: "cs_live (lv_sys t) i = Some x" and idle: "cs_pending (lv_sys t) i = []"
    and call: "MongoSynk_Modify entity_ops mg rd (call_with (lv_sys t) r x) = (Ret v, s)"
    and "encodable entity_ops x" "announceable entity_ops x"
  shows "live_inv docs ((called db r s i (Some (ms_obj s)) (moves x) t)\<lparr>lv_loose :=
    (if moves x \<and> lv_client t \<noteq> Served then insert i (lv_loose t) else lv_loose t)\<rparr>)"
proof -
  let ?L = "if moves x \<and> lv_client t \<noteq> Served then insert i (lv_loose t) else lv_loose t"
  let ?c = "called db r s i (Some (ms_obj s)) (moves x) t"
  have same: "?c\<lparr>lv_loose := ?L\<rparr> = ?c\<lparr>lv_used := lv_used t, lv_loose := ?L\<rparr>" by (simp add: called_def)
  have ok: "stored_ok docs (lv_sys t)" and req: "request_ok (lv_client t) (lv_msg t) (lv_subs t) (lv_agents t) (lv_want t)"
    using assms(3) by (simp_all add: live_inv_def)
  then have docs_ok: "documents_ok entity_ops entity_tag (docs (cs_mongo (lv_sys t)))"
    and lok: "live_ok (docs (cs_mongo (lv_sys t))) i x" using live by (simp_all add: stored_ok_def)
  note view = live_view [OF lok]
  note kept = modify_kept [OF assms(1,2,6), unfolded call_with_simps, OF lok assms(7,8) docs_ok]
  have y: "ms_obj s = modified_obj entity_ops x" using Modify_Ret [OF assms(1,2,6)] by simp
  have others: "docs (ms_mongo s) j = docs (cs_mongo (lv_sys t)) j" if "j \<noteq> i" for j
    unfolding kept(3) using that by (rule fun_upd_other)
  have "stored_ok docs (written db r s i (Some (ms_obj s)) (lv_sys t))"
    by (rule stored_ok_written [OF ok kept(1) others]) (use kept(2) in simp_all)
  then show ?thesis unfolding same
  proof (rule live_inv_called [OF assms(3) kept(3)], goal_cases)
    case (1 j)
    then show ?case by auto
  next
    case (2 E rsi)
    note obj = this [unfolded idle view(2)]
    show ?case
    proof (cases "moves x")
      case False
      obtain b f ver where pub: "published_since (db r) (db (ms_redis s)) = [(vw_key (view_of entity_ops x), b)]"
        and sp: "speaks i (vw_key (view_of entity_ops x), b) (Some (Overlay f ver))"
        and new: "view_of entity_ops (modified_obj entity_ops x) = overlaid f ver (view_of entity_ops x)"
        using entity_db.Modify_speaks [OF assms(1,2,6), unfolded call_with_simps, OF assms(7,8)] False
        unfolding moves_def view(1) by blast
      have "lv_client t = Served \<longrightarrow> to_load (lv_client t) (lv_msg t) = []" by (simp add: to_load_def)
      from ok_modify [OF obj sp request_within [OF req] request_loads [OF req] this] False
      show ?thesis by (intro exI) (simp add: pub view_stored y new)
    next
      case True
      have sp: "list_all2 (speaks i) (published_since (db r) (db (ms_redis s))) [None, None]"
        using entity_db.Modify_moves_speaks [OF assms(1,2,6), unfolded call_with_simps, OF assms(7,8)] True
        unfolding moves_def view(1) by blast
      then have none: "[None, None] = map (\<lambda>_. None) (published_since (db r) (db (ms_redis s)))"
        by (auto simp: list_all2_Cons2)
      have ann: "announces (lv_agents t) i (published_since (db r) (db (ms_redis s)))"
          "length (published_since (db r) (db (ms_redis s))) \<le> 2"
        using entity_db.Modify_announces [OF assms(1,2,6), unfolded call_with_simps, OF assms(7,8)] unfolding view(1) by blast+
      from updated_effect [OF ann kept(4)]
      have eff: "fold (effect (lv_agents t) i) (concat (map (passed (lv_agents t)) (published_since (db r) (db (ms_redis s)))))
          (shown_as (lv_agents t) (Some (view_of entity_ops x))) = shown_as (lv_agents t) (Some (view_of entity_ops (ms_obj s)))"
        by (simp add: replica_shown view(2) kept(3) view_stored)
      have "lv_client t = Served \<longrightarrow> lv_want t = lv_agents t \<and> to_load (lv_client t) (lv_msg t) = []"
        using req by (auto simp: request_ok_def to_load_def)
      moreover have "i \<in> lv_used t"
        using obj by (auto simp: object_ok_def)
      ultimately have "object_ok (lv_agents t) (lv_want t) (lv_client t = Served) (to_load (lv_client t) (lv_msg t)) i
          (map (\<lambda>e. (fst e, None)) E) (published_since (db r) (db (ms_redis s))) rsi True True
          (i \<in> lv_loose t \<or> lv_client t \<noteq> Served) (Some (view_of entity_ops (ms_obj s))) (cs_cache (lv_sys t) i)"
        by (rule ok_move [OF obj sp [unfolded none] _ _ eff])
      with True \<open>i \<in> lv_used t\<close>
      show ?thesis by (intro exI [of _ rsi]) (cases "lv_client t = Served"; simp add: view_stored)
    qed
  qed
qed

lemma live_inv_delete:
  assumes "redis_behaves rd db" "mongo_behaves entity_ops entity_tag creator entity_stored mg docs" "live_inv docs t"
    and live: "cs_live (lv_sys t) i = Some x" and idle: "cs_pending (lv_sys t) i = []"
    and call: "MongoSynk_Delete entity_ops mg rd (call_with (lv_sys t) r x) = (Ret v, s)" and "encodable entity_ops x"
  shows "live_inv docs (called db r s i None False t)"
proof -
  let ?c = "called db r s i None False t"
  have same: "?c = ?c\<lparr>lv_used := lv_used t, lv_loose := lv_loose t\<rparr>" by (simp add: called_def)
  have ok: "stored_ok docs (lv_sys t)" and req: "request_ok (lv_client t) (lv_msg t) (lv_subs t) (lv_agents t) (lv_want t)"
    using assms(3) by (simp_all add: live_inv_def)
  then have docs_ok: "documents_ok entity_ops entity_tag (docs (cs_mongo (lv_sys t)))"
    and lok: "live_ok (docs (cs_mongo (lv_sys t))) i x" using live by (simp_all add: stored_ok_def)
  note view = live_view [OF lok]
  note kept = delete_kept [OF assms(1,2,6), unfolded call_with_simps, OF lok assms(7) docs_ok]
  obtain b where pub: "published_since (db r) (db (ms_redis s)) = [(vw_key (view_of entity_ops x), b)]"
    and sp: "speaks i (vw_key (view_of entity_ops x), b) (Some Remove)"
    using entity_db.Delete_speaks [OF assms(1,2,6), unfolded call_with_simps, OF assms(7)] unfolding view(1) by blast
  have others: "docs (ms_mongo s) j = docs (cs_mongo (lv_sys t)) j" if "j \<noteq> i" for j
    unfolding kept(2) using that by (rule fun_upd_other)
  have "stored_ok docs (written db r s i None (lv_sys t))"
    by (rule stored_ok_written [OF ok kept(1) others]) simp_all
  then have "live_inv docs (?c\<lparr>lv_used := lv_used t, lv_loose := lv_loose t\<rparr>)"
  proof (rule live_inv_called [OF assms(3) kept(2)], goal_cases)
    case (1 j)
    then show ?case by auto
  next
    case (2 E rsi)
    from ok_delete [OF this [unfolded idle view(2)] sp request_within [OF req] request_loads [OF req]]
    show ?case by (intro exI) (simp add: pub)
  qed
  with same show ?thesis by simp
qed

section \<open>Deliveries and the main loop\<close>

lemma handed_passes: "room 1 to \<Longrightarrow> handed A S km to = queued (passes A S km) to"
  by (auto simp: passes_def handed_def Receive_def Receive_send put_out_def room_def queued_def make_chan_def Let_def
      split: option.split)

lemma live_inv_publish:
  assumes "live_inv docs t" and pend: "cs_pending (lv_sys t) i = km # kms" and room: "room 1 (cs_to (lv_sys t))"
  shows "live_inv docs (t\<lparr>lv_sys := (lv_sys t)\<lparr>cs_pending := (cs_pending (lv_sys t))(i := kms),
      cs_to := handed (lv_agents t) (lv_subs t) km (cs_to (lv_sys t))\<rparr>,
    lv_queue := lv_queue t @ map (\<lambda>_. (i, lv_moving t i)) (passes (lv_agents t) (lv_subs t) km)\<rparr>)"
proof -
  obtain qs rs where ok: "stored_ok docs (lv_sys t)" and req: "request_ok (lv_client t) (lv_msg t) (lv_subs t) (lv_agents t) (lv_want t)"
    and qs: "map (fst \<circ> snd) qs = ch_buf (cs_to (lv_sys t))" "map (\<lambda>(i, b, ao). (i, ao = None)) qs = lv_queue t"
    and obj: "\<And>j. object_inv docs t qs rs j"
    using live_invE [OF assms(1)] by metis
  let ?bs = "passes (lv_agents t) (lv_subs t) km" and ?ao = "if lv_moving t i then None else Some (hd (rs i))"
  let ?qs = "qs @ map (\<lambda>b. (i, b, ?ao)) ?bs" and ?rs = "rs(i := if lv_moving t i then rs i else tl (rs i))"
  let ?t = "t\<lparr>lv_sys := (lv_sys t)\<lparr>cs_pending := (cs_pending (lv_sys t))(i := kms),
      cs_to := handed (lv_agents t) (lv_subs t) km (cs_to (lv_sys t))\<rparr>,
    lv_queue := lv_queue t @ map (\<lambda>_. (i, lv_moving t i)) ?bs\<rparr>"
  have "lv_subs t = lv_agents t \<or> lv_client t \<noteq> Served" using req by (auto simp: request_ok_def)
  have "object_inv docs ?t ?qs ?rs j" for j
  proof (cases "j = i")
    case True
    from ok_publish [OF obj [of i, unfolded object_inv_def pend], of "lv_subs t"] \<open>lv_subs t = lv_agents t \<or> lv_client t \<noteq> Served\<close>
    show ?thesis unfolding True by (simp add: object_inv_def of_object_map)
  next
    case False
    with obj [of j] show ?thesis by (simp add: object_inv_def of_object_map)
  qed
  moreover have "stored_ok docs (lv_sys ?t)" using ok by (simp add: stored_ok_def)
  ultimately show ?thesis
    using req qs by (intro live_invI [where qs = ?qs and rs = ?rs]) (simp_all add: handed_passes [OF room] queued_def comp_def)
qed

lemma live_inv_flush:
  assumes "live_inv docs t" and rest: "lv_client t \<in> {Asking, Served}"
    and recv: "chan_recv (cs_to (lv_sys t)) = (Returned (Some b), to')"
  shows "live_inv docs (t\<lparr>lv_sys := (lv_sys t)\<lparr>cs_to := to', cs_cache := browser (lv_want t) b (cs_cache (lv_sys t))\<rparr>,
    lv_queue := tl (lv_queue t)\<rparr>)"
proof -
  obtain qs rs where ok: "stored_ok docs (lv_sys t)" and req: "request_ok (lv_client t) (lv_msg t) (lv_subs t) (lv_agents t) (lv_want t)"
    and qs: "map (fst \<circ> snd) qs = ch_buf (cs_to (lv_sys t))" "map (\<lambda>(i, b, ao). (i, ao = None)) qs = lv_queue t"
    and obj: "\<And>j. object_inv docs t qs rs j"
    using live_invE [OF assms(1)] by metis
  from recv have "ch_buf (cs_to (lv_sys t)) = b # ch_buf to'" by (auto simp: chan_outcomes)
  with qs(1) obtain i ao qs' where q: "qs = (i, b, ao) # qs'" "map (fst \<circ> snd) qs' = ch_buf to'" by (cases qs) auto
  let ?t = "t\<lparr>lv_sys := (lv_sys t)\<lparr>cs_to := to', cs_cache := browser (lv_want t) b (cs_cache (lv_sys t))\<rparr>, lv_queue := tl (lv_queue t)\<rparr>"
  have none: "to_load (lv_client t) (lv_msg t) = []" using rest by (auto simp: to_load_def)
  have "entry_ok (lv_agents t) i (b, ao)" using obj [of i] by (simp add: object_inv_def object_ok_def q(1))
  then have now: "browser (lv_want t) b (cs_cache (lv_sys t)) =
      (cs_cache (lv_sys t))(i := effect (lv_want t) i b (cs_cache (lv_sys t) i))" by (simp add: entry_ok_def tells_def)
  have "object_inv docs ?t qs' rs j" for j
  proof (cases "j = i")
    case True
    have "of_object i qs = (b, ao) # of_object i qs'" by (simp add: q(1))
    from ok_flush [OF obj [of i, unfolded object_inv_def none this] request_within [OF req]] show ?thesis
      by (simp add: True object_inv_def none now)
  next
    case False
    with obj [of j] show ?thesis by (simp add: object_inv_def q(1) now)
  qed
  moreover have "stored_ok docs (lv_sys ?t)" using ok by (simp add: stored_ok_def)
  moreover have "map (\<lambda>(i, b, ao). (i, ao = None)) qs' = tl (lv_queue t)" unfolding qs(2) [symmetric] q(1) by simp
  ultimately show ?thesis
    using req q(2) by (intro live_invI [where qs = qs' and rs = rs]) simp_all
qed

section \<open>Requests\<close>

lemma unsettled_calm:
  assumes "map (\<lambda>(i, b, ao). (i, ao = None)) qs = lv_queue t"
  shows "i \<in> unsettled t \<longleftrightarrow> \<not> calm (of_object i qs) \<or> lv_moving t i \<and> cs_pending (lv_sys t) i \<noteq> []"
proof -
  have "(i, True) \<in> set (lv_queue t) \<longleftrightarrow> \<not> calm (of_object i qs)"
    unfolding assms [symmetric] by (induction qs) auto
  then show ?thesis by (simp add: unsettled_def)
qed

lemma live_inv_ask:
  assumes "live_inv docs t" and served: "lv_client t = Served" and add: "us_Remove msg = []"
  shows "live_inv docs (t\<lparr>lv_client := Asking, lv_msg := msg, lv_want := new_subscriptions msg (lv_want t),
    lv_loose := lv_loose t \<union> unsettled t\<rparr>)"
proof -
  obtain qs rs where ok: "stored_ok docs (lv_sys t)" and req: "request_ok (lv_client t) (lv_msg t) (lv_subs t) (lv_agents t) (lv_want t)"
    and qs: "map (fst \<circ> snd) qs = ch_buf (cs_to (lv_sys t))" "map (\<lambda>(i, b, ao). (i, ao = None)) qs = lv_queue t"
    and obj: "\<And>j. object_inv docs t qs rs j"
    using live_invE [OF assms(1)] by metis
  let ?W = "new_subscriptions msg (lv_want t)"
  have same: "lv_subs t = lv_want t" "lv_agents t = lv_want t" using req served by (simp_all add: request_ok_def)
  have "within (lv_want t) ?W" using new_subscriptions_add [OF add, of "lv_want t"] by (auto simp: within_def)
  then have "object_inv docs (t\<lparr>lv_client := Asking, lv_msg := msg, lv_want := ?W, lv_loose := lv_loose t \<union> unsettled t\<rparr>) qs rs j" for j
    using ok_ask [of "lv_want t" j "of_object j qs" "cs_pending (lv_sys t) j" "rs j" "lv_moving t j" "j \<in> lv_used t" "j \<in> lv_loose t"
        "map_option (view_of entity_ops) (docs (cs_mongo (lv_sys t)) j)" "cs_cache (lv_sys t) j" ?W] obj [of j]
    by (simp add: object_inv_def served same to_load_def unsettled_calm [OF qs(2)])
  with ok qs show ?thesis
    by (intro live_invI [where qs = qs and rs = rs]) (simp_all add: request_ok_def same add)
qed

lemma live_inv_subscribe:
  assumes "live_inv docs t" "lv_client t = Asking"
  shows "live_inv docs (t\<lparr>lv_subs := new_subscriptions (lv_msg t) (lv_subs t), lv_client := Registering\<rparr>)"
proof -
  obtain qs rs where ok: "stored_ok docs (lv_sys t)" and req: "request_ok (lv_client t) (lv_msg t) (lv_subs t) (lv_agents t) (lv_want t)"
    and qs: "map (fst \<circ> snd) qs = ch_buf (cs_to (lv_sys t))" "map (\<lambda>(i, b, ao). (i, ao = None)) qs = lv_queue t"
    and obj: "\<And>j. object_inv docs t qs rs j"
    using live_invE [OF assms(1)] by metis
  have "object_inv docs (t\<lparr>lv_subs := new_subscriptions (lv_msg t) (lv_subs t), lv_client := Registering\<rparr>) qs rs j" for j
    using obj [of j] by (simp add: object_inv_def assms(2) to_load_def)
  with ok req qs show ?thesis
    by (intro live_invI [where qs = qs and rs = rs]) (simp_all add: request_ok_def assms(2))
qed

lemma live_inv_register:
  assumes "live_inv docs t" "lv_client t = Registering"
  shows "live_inv docs (t\<lparr>lv_agents := new_subscriptions (lv_msg t) (lv_agents t), lv_client := Loading\<rparr>)"
proof -
  obtain qs rs where ok: "stored_ok docs (lv_sys t)" and req: "request_ok (lv_client t) (lv_msg t) (lv_subs t) (lv_agents t) (lv_want t)"
    and qs: "map (fst \<circ> snd) qs = ch_buf (cs_to (lv_sys t))" "map (\<lambda>(i, b, ao). (i, ao = None)) qs = lv_queue t"
    and obj: "\<And>j. object_inv docs t qs rs j"
    using live_invE [OF assms(1)] by metis
  from req have add: "us_Remove (lv_msg t) = []" and W: "lv_want t = new_subscriptions (lv_msg t) (lv_agents t)" "lv_subs t = lv_want t"
    by (simp_all add: request_ok_def assms(2))
  note keys = new_subscriptions_add [OF add, of "lv_agents t", folded W(1)]
  have "object_inv docs (t\<lparr>lv_agents := new_subscriptions (lv_msg t) (lv_agents t), lv_client := Loading\<rparr>) qs rs j" for j
    using obj [of j] ok_register [of "lv_agents t" "lv_want t" j _ _ _ _ _ _ _ _ "us_Add (lv_msg t)"] keys
    by (simp add: object_inv_def assms(2) to_load_def W(1) [symmetric])
  with ok qs add show ?thesis
    using keys by (intro live_invI [where qs = qs and rs = rs]) (simp_all add: request_ok_def W(2) W(1) [symmetric])
qed

lemma live_inv_loaded:
  assumes "live_inv docs t" "lv_client t = Loading" "docs m' = docs (cs_mongo (lv_sys t))"
    and "\<And>i. cache i = reload (us_Add (lv_msg t)) (map_option (view_of entity_ops) (docs (cs_mongo (lv_sys t)) i)) (cs_cache (lv_sys t) i)"
  shows "live_inv docs (t\<lparr>lv_sys := (lv_sys t)\<lparr>cs_mongo := m', cs_cache := cache\<rparr>, lv_client := Served\<rparr>)"
proof -
  obtain qs rs where ok: "stored_ok docs (lv_sys t)" and req: "request_ok (lv_client t) (lv_msg t) (lv_subs t) (lv_agents t) (lv_want t)"
    and qs: "map (fst \<circ> snd) qs = ch_buf (cs_to (lv_sys t))" "map (\<lambda>(i, b, ao). (i, ao = None)) qs = lv_queue t"
    and obj: "\<And>j. object_inv docs t qs rs j"
    using live_invE [OF assms(1)] by metis
  let ?t = "t\<lparr>lv_sys := (lv_sys t)\<lparr>cs_mongo := m', cs_cache := cache\<rparr>, lv_client := Served\<rparr>"
  from req have W: "lv_subs t = lv_want t" "lv_agents t = lv_want t" "\<forall>k\<in>set (us_Add (lv_msg t)). lv_want t k \<noteq> None"
    by (simp_all add: request_ok_def assms(2))
  have "object_inv docs ?t qs rs j" for j
    using obj [of j] ok_load [of "lv_want t" "us_Add (lv_msg t)" j] W(3)
    by (simp add: object_inv_def assms(2-4) to_load_def W(2))
  moreover have "stored_ok docs (lv_sys ?t)" using ok assms(3) by (simp add: stored_ok_def)
  ultimately show ?thesis
    using qs by (intro live_invI [where qs = qs and rs = rs]) (simp_all add: request_ok_def W)
qed

section \<open>Every step keeps the invariant\<close>

lemma live_inv_load:
  assumes "mongo_behaves entity_ops entity_tag creator entity_stored mg docs" "live_inv docs t" "lv_client t = Loading"
    and load: "MongoSynk_Load creator mg (us_Add (lv_msg t)) (cs_mongo (lv_sys t)) = (Ret (objs, None), m')"
  shows "live_inv docs (t\<lparr>lv_sys := (lv_sys t)\<lparr>cs_mongo := m',
    cs_cache := fold (browser (lv_want t)) (map (loaded_bytes entity_ops) objs) (cs_cache (lv_sys t))\<rparr>, lv_client := Served\<rparr>)"
proof -
  have docs_ok: "documents_ok entity_ops entity_tag (docs (cs_mongo (lv_sys t)))" using assms(2) by (simp add: live_inv_def stored_ok_def)
  have "\<forall>i y. docs (cs_mongo (lv_sys t)) i = Some y \<longrightarrow> creator (obj_TypeKey entity_ops y) \<noteq> None"
    using creator_total by blast
  note shown = entity_db.Load_shown [OF assms(1) entity_creator_ok docs_ok this load, of "lv_want t" "cs_cache (lv_sys t)"]
  show ?thesis
  proof (rule live_inv_loaded [OF assms(2,3) shown [THEN conjunct1]])
    show "fold (browser (lv_want t)) (map (loaded_bytes entity_ops) objs) (cs_cache (lv_sys t)) i =
        reload (us_Add (lv_msg t)) (map_option (view_of entity_ops) (docs (cs_mongo (lv_sys t)) i)) (cs_cache (lv_sys t) i)" for i
      unfolding shown [THEN conjunct2] by (cases "docs (cs_mongo (lv_sys t)) i") (simp_all add: view_of_def)
  qed
qed

lemma live_inv_step:
  assumes "redis_behaves rd db" "mongo_behaves entity_ops entity_tag creator entity_stored mg docs"
    and "live_step mg rd db t t'" "live_inv docs t"
  shows "live_inv docs t'"
  using assms(3)
proof (cases rule: live_step.cases)
  case (live_mutate i x m)
  obtain qs rs where inv: "stored_ok docs (lv_sys t)" "request_ok (lv_client t) (lv_msg t) (lv_subs t) (lv_agents t) (lv_want t)"
    "map (fst \<circ> snd) qs = ch_buf (cs_to (lv_sys t))" "map (\<lambda>(i, b, ao). (i, ao = None)) qs = lv_queue t"
    "\<And>i. object_inv docs t qs rs i"
    using live_invE [OF assms(4)] by metis
  have "live_ok (docs (cs_mongo (lv_sys t))) i x" using inv(1) live_mutate(2) by (simp add: stored_ok_def)
  with inv show ?thesis unfolding live_mutate(1)
    by (intro live_invI [where qs = qs and rs = rs]) (auto simp: object_inv_def stored_ok_def live_ok_mutate)
next
  case (live_create r x v s i)
  show ?thesis unfolding live_create(1) by (rule live_inv_create [OF assms(1,2,4) live_create(2-6)])
next
  case (live_modify i x r v s)
  show ?thesis unfolding live_modify(1) by (rule live_inv_modify [OF assms(1,2,4) live_modify(2-6)])
next
  case (live_delete i x r v s)
  show ?thesis unfolding live_delete(1) by (rule live_inv_delete [OF assms(1,2,4) live_delete(2-5)])
next
  case (live_publish i km kms)
  show ?thesis unfolding live_publish(1) by (rule live_inv_publish [OF assms(4) live_publish(2,3)])
next
  case (live_flush b to')
  show ?thesis unfolding live_flush(1) by (rule live_inv_flush [OF assms(4) live_flush(2,3)])
next
  case (live_ask msg)
  show ?thesis unfolding live_ask(1) by (rule live_inv_ask [OF assms(4) live_ask(2,3)])
next
  case live_subscribe
  show ?thesis unfolding live_subscribe(1) by (rule live_inv_subscribe [OF assms(4) live_subscribe(2)])
next
  case live_register
  show ?thesis unfolding live_register(1) by (rule live_inv_register [OF assms(4) live_register(2)])
next
  case (live_load objs m')
  show ?thesis unfolding live_load(1) by (rule live_inv_load [OF assms(2,4) live_load(2,4)])
next
  case live_no_load
  have "live_inv docs (t\<lparr>lv_sys := (lv_sys t)\<lparr>cs_mongo := cs_mongo (lv_sys t), cs_cache := cs_cache (lv_sys t)\<rparr>, lv_client := Served\<rparr>)"
    by (rule live_inv_loaded [OF assms(4) live_no_load(2) refl]) (simp add: live_no_load(3) reload_def split: option.split)
  then show ?thesis unfolding live_no_load(1) by simp
qed

lemma live_inv_reaches:
  assumes "redis_behaves rd db" "mongo_behaves entity_ops entity_tag creator entity_stored mg docs"
    and "(live_step mg rd db)\<^sup>*\<^sup>* t t'" "live_inv docs t"
  shows "live_inv docs t'"
  using assms(3,4) by (induction rule: rtranclp_induct) (auto intro: live_inv_step [OF assms(1,2)])

section \<open>Coming to rest\<close>

text \<open>What passing on the messages leaves alone.\<close>

definition same_request :: "'m live \<Rightarrow> 'm live \<Rightarrow> bool" where
  "same_request t u \<longleftrightarrow> lv_client u = lv_client t \<and> lv_want u = lv_want t \<and> lv_loose u = lv_loose t \<and>
     cs_mongo (lv_sys u) = cs_mongo (lv_sys t)"

lemma same_request_trans: "same_request t u \<Longrightarrow> same_request u v \<Longrightarrow> same_request t v"
  by (simp add: same_request_def)

lemma live_open_step: "live_step mg rd db t t' \<Longrightarrow> system_open (lv_sys t) \<Longrightarrow> system_open (lv_sys t')"
proof (induction rule: live_step.induct)
  case (live_publish t i km kms)
  then show ?case
    using finite_pending [of "cs_pending (lv_sys t)" i kms]
    by (simp add: system_open_def handed_passes queued_def del: fun_upd_apply)
next
  case (live_flush t b to')
  then show ?case by (auto simp: system_open_def chan_outcomes)
qed (simp_all add: system_open_def called_def written_def finite_pending del: fun_upd_apply)

lemma live_open_reaches: "(live_step mg rd db)\<^sup>*\<^sup>* t t' \<Longrightarrow> system_open (lv_sys t) \<Longrightarrow> system_open (lv_sys t')"
  by (induction rule: rtranclp_induct) (auto intro: live_open_step)

lemma live_flushes:
  "lv_client t = Served \<Longrightarrow> \<exists>u. (live_step mg rd db)\<^sup>*\<^sup>* t u \<and> same_request t u \<and> ch_buf (cs_to (lv_sys u)) = [] \<and>
     cs_pending (lv_sys u) = cs_pending (lv_sys t)"
proof (induction "ch_buf (cs_to (lv_sys t))" arbitrary: t)
  case Nil
  then show ?case by (intro exI [of _ t]) (simp add: same_request_def)
next
  case (Cons b q)
  let ?w = "(lv_sys t)\<lparr>cs_to := (cs_to (lv_sys t))\<lparr>ch_buf := q\<rparr>, cs_cache := browser (lv_want t) b (cs_cache (lv_sys t))\<rparr>"
  let ?t = "t\<lparr>lv_sys := ?w, lv_queue := tl (lv_queue t)\<rparr>"
  have step: "live_step mg rd db t ?t"
    by (rule live_flush) (simp_all add: Cons.prems chan_recv_def Cons.hyps(2) [symmetric])
  obtain u where u: "(live_step mg rd db)\<^sup>*\<^sup>* ?t u" "same_request ?t u" "ch_buf (cs_to (lv_sys u)) = []"
      "cs_pending (lv_sys u) = cs_pending (lv_sys t)"
    using Cons.hyps(1) [of ?t] Cons.prems by auto
  have "same_request t u" using u(2) by (simp add: same_request_def)
  with converse_rtranclp_into_rtranclp [OF step u(1)] u(3,4) show ?case by blast
qed

lemma live_publishes:
  "lv_client t = Served \<Longrightarrow> system_open (lv_sys t) \<Longrightarrow> cs_pending (lv_sys t) i = kms \<Longrightarrow>
   \<exists>u. (live_step mg rd db)\<^sup>*\<^sup>* t u \<and> same_request t u \<and> cs_pending (lv_sys u) = (cs_pending (lv_sys t))(i := [])"
proof (induction kms arbitrary: t)
  case Nil
  then show ?case by (intro exI [of _ t]) (simp add: same_request_def fun_upd_idem)
next
  case (Cons km kms)
  obtain u where u: "(live_step mg rd db)\<^sup>*\<^sup>* t u" "same_request t u" "ch_buf (cs_to (lv_sys u)) = []"
      "cs_pending (lv_sys u) = cs_pending (lv_sys t)"
    using live_flushes [OF Cons.prems(1)] by blast
  have open_u: "system_open (lv_sys u)" by (rule live_open_reaches [OF u(1) Cons.prems(2)])
  let ?u = "u\<lparr>lv_sys := (lv_sys u)\<lparr>cs_pending := (cs_pending (lv_sys u))(i := kms),
      cs_to := handed (lv_agents u) (lv_subs u) km (cs_to (lv_sys u))\<rparr>,
    lv_queue := lv_queue u @ map (\<lambda>_. (i, lv_moving u i)) (passes (lv_agents u) (lv_subs u) km)\<rparr>"
  have step: "live_step mg rd db u ?u"
    by (rule live_publish) (use u(3,4) Cons.prems(3) open_u in \<open>simp_all add: system_open_def room_def\<close>)
  have same: "same_request t ?u" using u(2) by (simp add: same_request_def)
  obtain v where v: "(live_step mg rd db)\<^sup>*\<^sup>* ?u v" "same_request ?u v" "cs_pending (lv_sys v) = (cs_pending (lv_sys ?u))(i := [])"
    using Cons.IH [OF _ live_open_step [OF step open_u]] same Cons.prems(1) unfolding same_request_def by fastforce
  have "cs_pending (lv_sys v) = (cs_pending (lv_sys t))(i := [])" using v(3) u(4) by simp
  with rtranclp_trans [OF u(1) converse_rtranclp_into_rtranclp [OF step v(1)]] same_request_trans [OF same v(2)] show ?case by blast
qed

lemma live_settles:
  assumes "finite B" "lv_client t = Served" "system_open (lv_sys t)" "{i. cs_pending (lv_sys t) i \<noteq> []} \<subseteq> B"
  shows "\<exists>u. (live_step mg rd db)\<^sup>*\<^sup>* t u \<and> same_request t u \<and> ch_buf (cs_to (lv_sys u)) = [] \<and> (\<forall>i. cs_pending (lv_sys u) i = [])"
  using assms
proof (induction B arbitrary: t)
  case empty
  then have none: "\<forall>i. cs_pending (lv_sys t) i = []" by auto
  with live_flushes [OF empty.prems(1), of mg rd db] show ?case by auto
next
  case (insert i B)
  obtain u where u: "(live_step mg rd db)\<^sup>*\<^sup>* t u" "same_request t u" "cs_pending (lv_sys u) = (cs_pending (lv_sys t))(i := [])"
    using live_publishes [OF insert.prems(1,2) refl, of mg rd db i] by blast
  have "lv_client u = Served" using u(2) insert.prems(1) by (simp add: same_request_def)
  moreover have "{j. cs_pending (lv_sys u) j \<noteq> []} \<subseteq> B" using insert.prems(3) by (auto simp: u(3) split: if_splits)
  ultimately obtain v where "(live_step mg rd db)\<^sup>*\<^sup>* u v" "same_request u v" "ch_buf (cs_to (lv_sys v)) = []" "\<forall>i. cs_pending (lv_sys v) i = []"
    using insert.IH live_open_reaches [OF u(1) insert.prems(2)] by blast
  with rtranclp_trans [OF u(1)] same_request_trans [OF u(2)] show ?case by blast
qed

section \<open>Properties\<close>

text \<open>An object that nothing is under way about, while no request is running.\<close>

lemma live_quiet:
  assumes "live_inv docs t" "lv_client t = Served" "ch_buf (cs_to (lv_sys t)) = []" "cs_pending (lv_sys t) i = []" "i \<notin> lv_loose t"
  shows "cs_cache (lv_sys t) i = replica entity_ops (docs (cs_mongo (lv_sys t))) (lv_want t) i"
proof -
  obtain qs rs where inv: "request_ok (lv_client t) (lv_msg t) (lv_subs t) (lv_agents t) (lv_want t)"
    "map (fst \<circ> snd) qs = ch_buf (cs_to (lv_sys t))" "object_inv docs t qs rs i"
    using live_invE [OF assms(1)] by metis
  then have "qs = []" "lv_agents t = lv_want t" using assms(2,3) by (simp_all add: request_ok_def)
  with inv(3) assms(2,4,5) show ?thesis by (simp add: object_inv_def object_ok_def follows_def to_load_def replica_shown)
qed

text \<open>
  C2: Any number of calls on different objects, each of which writes its document and then publishes, and
  any number of subscription requests that add keys, each of which changes the client's map, then the agents,
  and then loads, interleave with the deliveries to the client and with its main loop. Whenever no request
  is running and the client's queue has been passed on, the browser holds exactly what is stored of
  every object that no call is busy with, except for objects that moved, or were created again under a used
  identifier, while a request was running or had messages of such a change under way when it began. Unless a
  request is running, the calls in progress can always be completed, and then the browser is exact for all
  other objects at once.
\<close>

theorem live_replica:
  assumes "redis_behaves rd db" "mongo_behaves entity_ops entity_tag creator entity_stored mg docs"
    and "live_empty docs t0" "(live_step mg rd db)\<^sup>*\<^sup>* t0 t" "lv_client t = Served"
  shows "(ch_buf (cs_to (lv_sys t)) = [] \<longrightarrow> cs_pending (lv_sys t) i = [] \<longrightarrow> i \<notin> lv_loose t \<longrightarrow>
      cs_cache (lv_sys t) i = replica entity_ops (docs (cs_mongo (lv_sys t))) (lv_want t) i) \<and>
    (\<exists>u. (live_step mg rd db)\<^sup>*\<^sup>* t u \<and> cs_mongo (lv_sys u) = cs_mongo (lv_sys t) \<and>
      (\<forall>j. j \<notin> lv_loose t \<longrightarrow> cs_cache (lv_sys u) j = replica entity_ops (docs (cs_mongo (lv_sys t))) (lv_want t) j))"
proof -
  have inv: "live_inv docs t" by (rule live_inv_reaches [OF assms(1,2,4) live_inv_empty [OF assms(3)]])
  have "system_open (lv_sys t0)"
    using assms(3) by (simp add: live_empty_def system_empty_def system_open_def make_chan_def clientBufferLength_def)
  then have "system_open (lv_sys t)" by (rule live_open_reaches [OF assms(4)])
  then obtain u where u: "(live_step mg rd db)\<^sup>*\<^sup>* t u" "same_request t u" "ch_buf (cs_to (lv_sys u)) = []" "\<forall>i. cs_pending (lv_sys u) i = []"
    using live_settles [OF _ assms(5) _ subset_refl] unfolding system_open_def by blast
  have "live_inv docs u" by (rule live_inv_reaches [OF assms(1,2) u(1) inv])
  from live_quiet [OF this] u(2-4) assms(5)
  have "\<forall>j. j \<notin> lv_loose t \<longrightarrow> cs_cache (lv_sys u) j = replica entity_ops (docs (cs_mongo (lv_sys t))) (lv_want t) j"
    by (simp add: same_request_def)
  with u(1,2) live_quiet [OF inv assms(5)] show ?thesis by (auto simp: same_request_def)
qed

text \<open>A request that is overtaken by a creation: the object is loaded, and its add message follows.\<close>

definition first_request :: UpdateSubscriptionMessage where
  "first_request = \<lparr>us_Method = ''updateSubscription'', us_MapID = '''', us_Add = [''m:0|0''], us_Remove = []\<rparr>"

definition live_start :: "(string \<times> entity) list live" where
  "live_start = \<lparr>lv_sys = demo_system, lv_client = Served, lv_msg = first_request, lv_subs = Map.empty, lv_agents = Map.empty,
     lv_want = Map.empty, lv_used = {}, lv_moving = (\<lambda>_. False), lv_queue = [], lv_loose = {}\<rparr>"

lemma live_start_empty: "live_empty map_of live_start"
  by (simp add: live_empty_def live_start_def system_empty_def demo_system_def)

lemma demo_obj_key: "obj_GetPrevSubKey entity_ops demo_obj = ''m:0|0''"
  by code_simp

lemma live_run:
  "\<exists>t. (live_step mem_mongo mem_redis mem_view)\<^sup>*\<^sup>* live_start t \<and> lv_client t = Served \<and> lv_loose t = {} \<and>
     map_of (cs_mongo (lv_sys t)) = [''1234567890abcde!'' \<mapsto> demo_obj] \<and> lv_want t ''m:0|0'' \<noteq> None"
proof -
  let ?step = "live_step mem_mongo mem_redis mem_view" and ?x = "EHuman (Human_SetMapID ''m'' new_human)"
  let ?W = "new_subscriptions first_request Map.empty" and ?id = "obj_TagGetID entity_ops (ms_obj demo_created)"
  let ?t1 = "live_start\<lparr>lv_client := Asking, lv_msg := first_request, lv_want := ?W, lv_loose := {}\<rparr>"
  let ?t2 = "?t1\<lparr>lv_subs := ?W, lv_client := Registering\<rparr>"
  let ?t3 = "(called mem_view mem_empty demo_created ?id (Some (ms_obj demo_created)) False ?t2)\<lparr>lv_used := insert ?id {}, lv_loose := {}\<rparr>"
  let ?t4 = "?t3\<lparr>lv_agents := ?W, lv_client := Loading\<rparr>"
  have 1: "?step live_start ?t1"
    using live_ask [of live_start first_request mem_mongo mem_redis mem_view]
    by (simp add: live_start_def first_request_def unsettled_def)
  have 2: "?step ?t1 ?t2" using live_subscribe [of ?t1] by (simp add: live_start_def)
  have "call_with (lv_sys ?t2) mem_empty ?x = demo_new" by (simp add: live_start_def call_with_def demo_system_def demo_new_def)
  then have call: "MongoSynk_Create entity_ops mem_mongo mem_redis (call_with (lv_sys ?t2) mem_empty ?x) = (Ret None, demo_created)"
    using demo_Create by (simp add: demo_created_def)
  have tag: "TagType (entity_tag ?x) \<in> {'''', obj_TypeKey entity_ops ?x}"
    by (simp add: new_human_def empty_tag_def Human_SetMapID_def)
  have 3: "?step ?t2 ?t3"
    using live_create [OF call demo_created_encodable tag refl, of mem_view] by (simp add: live_start_def demo_system_def)
  have 4: "?step ?t3 ?t4" using live_register [of ?t3] by (simp add: called_def live_start_def)
  obtain objs m' where load: "MongoSynk_Load creator mem_mongo (us_Add first_request) (cs_mongo (lv_sys ?t4)) = (Ret (objs, None), m')"
    by (simp add: MongoSynk_Load_def mem_mongo_def epanic_def first_request_def del: creator.simps)
  let ?t5 = "?t4\<lparr>lv_sys := (lv_sys ?t4)\<lparr>cs_mongo := m',
    cs_cache := fold (browser (lv_want ?t4)) (map (loaded_bytes entity_ops) objs) (cs_cache (lv_sys ?t4))\<rparr>, lv_client := Served\<rparr>"
  have 5: "?step ?t4 ?t5"
    by (rule live_load) (use load in \<open>simp_all add: called_def live_start_def first_request_def\<close>)
  have run: "?step\<^sup>*\<^sup>* live_start ?t5" using 1 2 3 4 5 by (meson rtranclp.rtrancl_refl rtranclp.rtrancl_into_rtrancl)
  have inv: "live_inv map_of ?t4"
    by (rule live_inv_reaches [OF mem_redis_behaves mem_mongo_behaves _ live_inv_empty [OF live_start_empty]])
      (use 1 2 3 4 in \<open>meson rtranclp.rtrancl_refl rtranclp.rtrancl_into_rtrancl\<close>)
  have "documents_ok entity_ops entity_tag (map_of (cs_mongo (lv_sys ?t4)))" using inv by (simp add: live_inv_def stored_ok_def)
  from entity_db.Load_shown [OF mem_mongo_behaves entity_creator_ok this _ load] creator_total
  have "map_of m' = map_of (cs_mongo (lv_sys ?t4))" by blast
  then have "map_of (cs_mongo (lv_sys ?t5)) = [''1234567890abcde!'' \<mapsto> demo_obj]"
    by (simp add: called_def written_def demo_created_mongo)
  moreover have "lv_want ?t5 ''m:0|0'' \<noteq> None"
    by (simp add: called_def live_start_def new_subscriptions_def first_request_def)
  ultimately show ?thesis using run by (intro exI [of _ ?t5]) simp
qed

lemma live_replica_witness:
  "\<exists>t u. (live_step mem_mongo mem_redis mem_view)\<^sup>*\<^sup>* live_start t \<and> (live_step mem_mongo mem_redis mem_view)\<^sup>*\<^sup>* t u \<and>
     cs_cache (lv_sys u) ''1234567890abcde!'' = Some (view_of entity_ops demo_obj)"
proof -
  obtain t where t: "(live_step mem_mongo mem_redis mem_view)\<^sup>*\<^sup>* live_start t" "lv_client t = Served" "lv_loose t = {}"
    "map_of (cs_mongo (lv_sys t)) = [''1234567890abcde!'' \<mapsto> demo_obj]" "lv_want t ''m:0|0'' \<noteq> None"
    using live_run by blast
  obtain u where "(live_step mem_mongo mem_redis mem_view)\<^sup>*\<^sup>* t u"
    "\<forall>j. cs_cache (lv_sys u) j = replica entity_ops (map_of (cs_mongo (lv_sys t))) (lv_want t) j"
    using live_replica [OF mem_redis_behaves mem_mongo_behaves live_start_empty t(1,2), THEN conjunct2] t(3) by auto
  moreover from this(2) have "cs_cache (lv_sys u) ''1234567890abcde!'' = Some (view_of entity_ops demo_obj)"
    using t(5) by (simp add: replica_def t(4) demo_obj_key)
  ultimately show ?thesis using t(1) by blast
qed

end
