(* ===== verification/Race_Props.thy ===== *)
theory Race_Props
  imports Race World
begin

text \<open>
  What a client misses, and what it does not, when an object is modified while the client changes its
  subscriptions; and the one move that a modification cannot announce.
\<close>

section \<open>An example\<close>

text \<open>
  The human of the examples moves from chunk 0|0 to 1|0. One browser watches the chunk it leaves and
  adds the one it enters; another watches the chunk it enters and adds the one it leaves.
\<close>

definition demo_moved :: "(entity, (string \<times> entity) list, mem_db) mstate" where
  "demo_moved = snd (MongoSynk_Modify entity_ops mem_mongo mem_redis demo_move)"

definition moved_human :: entity where
  "moved_human = EHuman (demo_human\<lparr>hTag := \<lparr>TagID = ''a!'', TagSub = ''m:1|0'', TagType = ''c:h'', V = 1\<rparr>, hCX := 1\<rparr>)"

definition request_key :: "string \<Rightarrow> UpdateSubscriptionMessage" where
  "request_key k = \<lparr>us_Method = ''updateSubscription'', us_MapID = ''m'', us_Add = [k], us_Remove = []\<rparr>"

lemma demo_moved_call: "MongoSynk_Modify entity_ops mem_mongo mem_redis demo_move = (Ret None, demo_moved)"
  using demo_Modify by (simp add: demo_moved_def)

lemma demo_collections:
  "ms_mongo demo_move = [(''a!'', EHuman demo_human)]" "ms_mongo demo_moved = [(''a!'', moved_human), (''a!'', EHuman demo_human)]"
  by code_simp+

text \<open>An executable form of \<open>document_ok\<close>.\<close>

lemma document_ok_iff:
  "document_ok ops tag_of i y \<longleftrightarrow> TagID (tag_of y) = i \<and> sub_agrees ops tag_of y \<and> \<not> obj_Changed ops y \<and>
     TagType (tag_of y) = obj_TypeKey ops y \<and>
     valid_utf8 (obj_TagGetID ops y) \<and> valid_utf8 (obj_TypeKey ops y) \<and> valid_utf8 (obj_GetPrevSubKey ops y) \<and>
     encodes_well (obj_MarshalDiff ops (obj_State ops y))"
  by (simp add: document_ok_def encodes_well_iff)

lemma demo_documents:
  "document_ok entity_ops entity_tag ''a!'' (EHuman demo_human)" "document_ok entity_ops entity_tag ''a!'' moved_human"
  unfolding document_ok_iff sub_agrees_def by code_simp+

lemma demo_documents_ok:
  "documents_ok entity_ops entity_tag (map_of (ms_mongo demo_move))"
  "documents_ok entity_ops entity_tag (map_of (ms_mongo demo_moved))"
  using demo_documents by (auto simp: documents_ok_def demo_collections split: if_splits)

lemma entity_types: "creator (obj_TypeKey entity_ops y) \<noteq> None"
  by (cases y) (simp_all add: entity_ops_def Human_ops_def Orc_ops_def Human_TypeKey_def Orc_TypeKey_def)

lemma demo_texts:
  "encodes_well (obj_MarshalDiff entity_ops (obj_State entity_ops (ms_obj demo_move)))"
  "encodes_well (obj_MarshalDiff entity_ops (fst (obj_Resolve entity_ops (ms_obj demo_move))))"
  "encodes_well (obj_MarshalDiff entity_ops (obj_State entity_ops (snd (obj_Resolve entity_ops (ms_obj demo_move)))))"
  "valid_utf8 ''a!''" "valid_utf8 (obj_TypeKey entity_ops (ms_obj demo_move))" "valid_utf8 ''m:1|0''" "valid_utf8 ''m:0|0''"
  by code_simp+

lemma demo_scene:
  "encodable entity_ops (ms_obj demo_move)" "announceable entity_ops (ms_obj demo_move)"
  "synced entity_ops (map_of (ms_mongo demo_move)) (ms_obj demo_move)"
proof -
  show "encodable entity_ops (ms_obj demo_move)"
    unfolding encodable_def encodes_well_iff [symmetric] using demo_texts by (simp add: demo_move_keys del: valid_utf8.simps)
  show "announceable entity_ops (ms_obj demo_move)" by (simp add: announceable_def demo_move_keys)
  have "view_of entity_ops (EHuman demo_human) = view_of entity_ops (ms_obj demo_move)"
    by (simp add: view_of_def state_fields_def demo_move_def entity_ops_def Human_ops_def Human_State_def Human_SetCX_def
        Human_key_defs Human_get_defs)
  then show "synced entity_ops (map_of (ms_mongo demo_move)) (ms_obj demo_move)"
    by (simp add: synced_def demo_move_keys demo_collections)
qed

lemma demo_loads: "\<exists>objs m'. MongoSynk_Load creator mem_mongo (us_Add (request_key k)) m = (Ret (objs, None), m')"
  by (simp add: MongoSynk_Load_def mem_mongo_def epanic_def request_key_def del: creator.simps)

section \<open>Properties\<close>

text \<open>
  C4: No missed update: a request that adds keys runs while an object is modified, moves included. In
  every interleaving of the two calls and of the main loop the browser ends up with exactly the stored
  objects of its keys, as long as the client does not ask for the key that the object leaves while it
  is subscribed only to the key that the object enters.
\<close>

theorem no_missed_update:
  assumes "stored_object ops tag_of stored" "redis_behaves rd db" "mongo_behaves ops tag_of mk stored mg docs" "creator_ok ops mk"
    and "MongoSynk_Modify ops mg rd s = (Ret v, s')"
  defines "x \<equiv> ms_obj s"
  assumes "synced ops (docs (ms_mongo s)) x" "encodable ops x" "announceable ops x"
    and "documents_ok ops tag_of (docs (ms_mongo s))" "documents_ok ops tag_of (docs (ms_mongo s'))"
    and "\<forall>i y. docs (ms_mongo s) i = Some y \<longrightarrow> mk (obj_TypeKey ops y) \<noteq> None"
    and "\<forall>i y. docs (ms_mongo s') i = Some y \<longrightarrow> mk (obj_TypeKey ops y) \<noteq> None"
    and "us_Remove msg = []"
    and "subs (obj_GetPrevSubKey ops x) = None \<longrightarrow> obj_GetPrevSubKey ops x \<in> set (us_Add msg) \<longrightarrow>
      subs (obj_GetSubKey ops x) \<noteq> None \<longrightarrow> obj_GetSubKey ops x \<in> set (us_Add msg)"
    and "race_reaches ops mk mg docs msg (docs (ms_mongo s')) (published_since (db (ms_redis s)) (db (ms_redis s')))
      (race_start ops (docs (ms_mongo s)) msg subs) t" "race_over t"
  shows "rc_cache t = replica ops (docs (ms_mongo s')) (new_subscriptions msg subs)"
  by (rule stored_object.race_result [OF assms(1-5) assms(7-) [unfolded x_def]])

lemma no_missed_update_witness:
  "\<exists>t :: entity race. race_over t \<and> rc_cache t = replica entity_ops (map_of (ms_mongo demo_moved)) [''m:0|0'' \<mapsto> True, ''m:1|0'' \<mapsto> True]"
proof -
  let ?subs = "[''m:0|0'' \<mapsto> True]" and ?msg = "request_key ''m:1|0''"
  obtain objs m' where load: "MongoSynk_Load creator mem_mongo (us_Add ?msg) (ms_mongo demo_move) = (Ret (objs, None), m')"
    using demo_loads by blast
  obtain t where t: "race_reaches entity_ops creator mem_mongo map_of ?msg (map_of (ms_mongo demo_moved))
      (published_since (mem_view (ms_redis demo_move)) (mem_view (ms_redis demo_moved)))
      (race_start entity_ops (map_of (ms_mongo demo_move)) ?msg ?subs) t" "race_over t"
    using race_completes [where docs = map_of, OF load refl] by (fastforce simp: request_key_def)
  have "rc_cache t = replica entity_ops (map_of (ms_mongo demo_moved)) (new_subscriptions ?msg ?subs)"
    by (rule no_missed_update [OF entity_db.stored_object_axioms mem_redis_behaves mem_mongo_behaves entity_creator_ok
          demo_moved_call demo_scene(3,1,2) demo_documents_ok _ _ _ _ t])
      (simp_all add: entity_types request_key_def demo_move_keys del: creator.simps)
  moreover have "new_subscriptions ?msg ?subs = [''m:0|0'' \<mapsto> True, ''m:1|0'' \<mapsto> True]"
    by (auto simp: new_subscriptions_def request_key_def fun_eq_iff)
  ultimately show ?thesis using t(2) by auto
qed

text \<open>
  C35: A lost object: the remaining case goes wrong. A client that is subscribed to the key an object
  enters, and asks for the key it leaves, can end up without the object although it is subscribed to
  the key the object has.
\<close>

theorem moved_object_lost:
  assumes "stored_object ops tag_of stored" "redis_behaves rd db" "mongo_behaves ops tag_of mk stored mg docs" "creator_ok ops mk"
    and "MongoSynk_Modify ops mg rd s = (Ret v, s')"
  defines "x \<equiv> ms_obj s"
  assumes "synced ops (docs (ms_mongo s)) x" "encodable ops x" "announceable ops x"
    and "documents_ok ops tag_of (docs (ms_mongo s'))"
    and "\<forall>i y. docs (ms_mongo s') i = Some y \<longrightarrow> mk (obj_TypeKey ops y) \<noteq> None"
    and "us_Remove msg = []" "subs (obj_GetPrevSubKey ops x) = None" "subs (obj_GetSubKey ops x) \<noteq> None"
    and "obj_GetPrevSubKey ops x \<in> set (us_Add msg)" "obj_GetSubKey ops x \<notin> set (us_Add msg)"
    and "MongoSynk_Load mk mg (us_Add msg) (ms_mongo s') = (Ret (objs, None), m')"
  shows "\<exists>t. race_reaches ops mk mg docs msg (docs (ms_mongo s')) (published_since (db (ms_redis s)) (db (ms_redis s')))
      (race_start ops (docs (ms_mongo s)) msg subs) t \<and> race_over t \<and>
    rc_cache t (obj_TagGetID ops x) = None \<and>
    replica ops (docs (ms_mongo s')) (new_subscriptions msg subs) (obj_TagGetID ops x) \<noteq> None"
  unfolding x_def by (rule stored_object.race_lost [OF assms(1-5) assms(7-) [unfolded x_def]])

lemma moved_object_lost_witness:
  "\<exists>t :: entity race. race_over t \<and> rc_cache t ''a!'' = None \<and>
     replica entity_ops (map_of (ms_mongo demo_moved)) [''m:1|0'' \<mapsto> True, ''m:0|0'' \<mapsto> True] ''a!'' \<noteq> None"
proof -
  let ?subs = "[''m:1|0'' \<mapsto> True]" and ?msg = "request_key ''m:0|0''"
  obtain objs m' where load: "MongoSynk_Load creator mem_mongo (us_Add ?msg) (ms_mongo demo_moved) = (Ret (objs, None), m')"
    using demo_loads by blast
  have new: "new_subscriptions ?msg ?subs = [''m:1|0'' \<mapsto> True, ''m:0|0'' \<mapsto> True]"
    by (auto simp: new_subscriptions_def request_key_def fun_eq_iff)
  show ?thesis
    using moved_object_lost [OF entity_db.stored_object_axioms mem_redis_behaves mem_mongo_behaves entity_creator_ok
        demo_moved_call demo_scene(3,1,2) demo_documents_ok(2) _ _ _ _ _ _ load, of ?subs]
    unfolding new by (auto simp: entity_types request_key_def demo_move_keys simp del: creator.simps)
qed

text \<open>
  A move to the empty key is not announced: the new key of a mod message is left out when it is empty.
  A browser that is subscribed to the old key takes over the new values but keeps the object under the
  old key, although the object is no longer there.
\<close>

theorem empty_key_move:
  assumes "stored_object ops tag_of stored" "redis_behaves rd db" "mongo_behaves ops tag_of mk stored mg docs"
    and "MongoSynk_Modify ops mg rd s = (Ret v, s')"
  defines "x \<equiv> ms_obj s"
  assumes "synced ops (docs (ms_mongo s)) x" "encodable ops x" "CHR ''{'' \<notin> set (obj_GetPrevSubKey ops x)"
    and "obj_GetPrevSubKey ops x \<noteq> ''''" "obj_GetSubKey ops x = ''''"
    and "subs (obj_GetPrevSubKey ops x) \<noteq> None" "subs '''' = None"
  shows "updated subs (db (ms_redis s)) (db (ms_redis s')) (replica ops (docs (ms_mongo s)) subs) (obj_TagGetID ops x) =
      Some ((view_of ops (ms_obj s'))\<lparr>vw_key := obj_GetPrevSubKey ops x\<rparr>) \<and>
    replica ops (docs (ms_mongo s')) subs (obj_TagGetID ops x) = None"
  unfolding x_def by (rule stored_object.Modify_to_empty_key [OF assms(1-4) assms(6-) [unfolded x_def]])

text \<open>An orc whose key is cleared.\<close>

definition leaving_orc :: "(entity, (string \<times> entity) list, mem_db) mstate" where
  "leaving_orc =
     (let x = new_orc\<lparr>oTag := \<lparr>TagID = ''b!'', TagSub = ''cave'', TagType = ''c:o'', V = 3\<rparr>, oSubKey := ''cave'', oName := ''Bob''\<rparr>
      in \<lparr>ms_obj = EOrc (Orc_SetSubKey '''' x), ms_rand = demo_rand, ms_mongo = [(''b!'', EOrc x)], ms_redis = mem_empty\<rparr>)"

lemma leaving_orc_call:
  "fst (MongoSynk_Modify entity_ops mem_mongo mem_redis leaving_orc) = Ret None"
  "obj_GetPrevSubKey entity_ops (ms_obj leaving_orc) = ''cave''" "obj_GetSubKey entity_ops (ms_obj leaving_orc) = ''''"
  "obj_TagGetID entity_ops (ms_obj leaving_orc) = ''b!''" "valid_utf8 ''b!''" "valid_utf8 ''cave''"
  "valid_utf8 (obj_TypeKey entity_ops (ms_obj leaving_orc))"
  "encodes_well (obj_MarshalDiff entity_ops (obj_State entity_ops (ms_obj leaving_orc)))"
  "encodes_well (obj_MarshalDiff entity_ops (fst (obj_Resolve entity_ops (ms_obj leaving_orc))))"
  "encodes_well (obj_MarshalDiff entity_ops (obj_State entity_ops (snd (obj_Resolve entity_ops (ms_obj leaving_orc)))))"
  by code_simp+

lemma empty_key_move_witness:
  "\<exists>view. updated [''cave'' \<mapsto> True] (mem_view mem_empty)
      (mem_view (ms_redis (snd (MongoSynk_Modify entity_ops mem_mongo mem_redis leaving_orc))))
      (replica entity_ops (map_of (ms_mongo leaving_orc)) [''cave'' \<mapsto> True]) ''b!'' = Some view \<and> vw_key view = ''cave''"
proof -
  obtain s' where call: "MongoSynk_Modify entity_ops mem_mongo mem_redis leaving_orc = (Ret None, s')"
    using leaving_orc_call(1) by (cases "MongoSynk_Modify entity_ops mem_mongo mem_redis leaving_orc") simp
  have enc: "encodable entity_ops (ms_obj leaving_orc)"
    unfolding encodable_def encodes_well_iff [symmetric] using leaving_orc_call by (simp del: valid_utf8.simps(2-))
  have sync: "synced entity_ops (map_of (ms_mongo leaving_orc)) (ms_obj leaving_orc)"
    by (simp add: synced_def leaving_orc_call(4))
      (simp add: leaving_orc_def Let_def view_of_def state_fields_def entity_ops_def Orc_ops_def Orc_State_def Orc_SetSubKey_def Orc_get_defs)
  have "ms_redis leaving_orc = mem_empty" by (simp add: leaving_orc_def Let_def)
  then show ?thesis
    using empty_key_move [OF entity_db.stored_object_axioms mem_redis_behaves mem_mongo_behaves call sync enc, of "[''cave'' \<mapsto> True]"]
    by (simp add: leaving_orc_call call)
qed

end
