(* ===== verification/Race_Single.thy ===== *)
theory Race_Single
  imports Race_Props
begin

text \<open>
  A creation or a deletion and a subscription request at the same time. Both write one document and
  then publish one message, whose effect on a browser does not depend on what the browser holds; the
  steps are those of \<open>Race\<close>, with this write and this message.
\<close>

section \<open>One message about one object\<close>

text \<open>
  What is announced: the object, the channel and the bytes, and what a browser shows of the object
  before and after, if it is subscribed to the channel.
\<close>

record notice =
  nt_i :: string
  nt_k :: string
  nt_b :: bytes
  nt_old :: "view option"
  nt_new :: "view option"
  nt_subs :: "string \<rightharpoonup> bool"
  nt_want :: "string \<rightharpoonup> bool"

definition notice_ok :: "notice \<Rightarrow> bool" where
  "notice_ok N \<longleftrightarrow> (\<forall>cache. browser (nt_want N) (nt_b N) cache = cache(nt_i N := nt_new N)) \<and>
     (\<exists>r. nt_b N = CHR ''{'' # r)"

text \<open>The collections before and after the write, and a request that only adds keys.\<close>

definition notice_setting :: "('o, 'd) object_ops \<Rightarrow> (string \<rightharpoonup> 'o) \<Rightarrow> (string \<rightharpoonup> 'o) \<Rightarrow> notice \<Rightarrow> UpdateSubscriptionMessage \<Rightarrow> bool" where
  "notice_setting ops D D' N msg \<longleftrightarrow> notice_ok N \<and>
     nt_old N = map_option (view_of ops) (D (nt_i N)) \<and> nt_new N = map_option (view_of ops) (D' (nt_i N)) \<and>
     (\<forall>y. D (nt_i N) = Some y \<or> D' (nt_i N) = Some y \<longrightarrow> obj_GetPrevSubKey ops y = nt_k N) \<and>
     (\<forall>j. j \<noteq> nt_i N \<longrightarrow> D' j = D j) \<and> us_Remove msg = [] \<and> nt_want N = new_subscriptions msg (nt_subs N)"

fun still_to_publish :: "notice \<Rightarrow> writer \<Rightarrow> (string \<times> bytes) list" where
  "still_to_publish N Writing = [(nt_k N, nt_b N)]"
| "still_to_publish N (Publishing ms) = ms"

text \<open>
  The message is in the queue exactly when it was published while the client was subscribed and has
  not been passed on; \<open>v\<close> is what the browser holds of the object.
\<close>

definition notice_cell :: "notice \<Rightarrow> requester \<Rightarrow> writer \<Rightarrow> bytes list \<Rightarrow> view option \<Rightarrow> bool" where
  "notice_cell N c w q v =
     (let pending = (still_to_publish N w \<noteq> []);
          knew = (nt_subs N (nt_k N) \<noteq> None); wants = (nt_want N (nt_k N) \<noteq> None);
          heard = (q = [nt_b N] \<and> v = nt_old N \<or> q = [] \<and> v = nt_new N)
      in case c of
           Asking \<Rightarrow> if pending then q = [] \<and> v = (if knew then nt_old N else None)
                     else if knew then heard else q = [] \<and> v = None
         | Registering \<Rightarrow> if pending then q = [] \<and> v = (if knew then nt_old N else None)
                          else if knew then heard else q = [] \<and> v = None
         | Loading \<Rightarrow> if pending then q = [] \<and> v = (if knew then nt_old N else None)
                      else if knew then heard else q \<in> {[], [nt_b N]} \<and> (q = [] \<or> wants) \<and> v = None
         | Served \<Rightarrow> if \<not> wants then q = [] \<and> v = None
                     else if w = Writing then q = [] \<and> v = nt_old N
                     else if pending then q = [] else q = [nt_b N] \<or> q = [] \<and> v = nt_new N)"

definition notice_inv :: "('o, 'd) object_ops \<Rightarrow> (string \<rightharpoonup> 'o) \<Rightarrow> (string \<rightharpoonup> 'o) \<Rightarrow> notice \<Rightarrow> 'o race \<Rightarrow> bool" where
  "notice_inv ops D D' N s \<longleftrightarrow>
     rc_want s = nt_want N \<and> rc_docs s = (if rc_writer s = Writing then D else D') \<and>
     rc_subs s = (if rc_client s = Asking then nt_subs N else nt_want N) \<and>
     rc_agents s = (if rc_client s \<in> {Asking, Registering} then nt_subs N else nt_want N) \<and>
     still_to_publish N (rc_writer s) \<in> {[], [(nt_k N, nt_b N)]} \<and>
     \<not> ch_closed (rc_to s) \<and> 1 \<le> ch_cap (rc_to s) \<and>
     (\<forall>j. j \<noteq> nt_i N \<longrightarrow> rc_cache s j = replica ops D (if rc_client s = Served then nt_want N else nt_subs N) j) \<and>
     notice_cell N (rc_client s) (rc_writer s) (ch_buf (rc_to s)) (rc_cache s (nt_i N))"

text \<open>Before the message is published the queue is empty.\<close>

lemma notice_cell_pending: "notice_cell N c w q v \<Longrightarrow> still_to_publish N w \<noteq> [] \<Longrightarrow> q = []"
  by (cases c) (auto simp: notice_cell_def Let_def split: if_splits)

lemma notice_want:
  "notice_setting ops D D' N msg \<Longrightarrow> nt_want N k = (if k \<in> set (us_Add msg) then Some True else nt_subs N k)"
  by (simp add: notice_setting_def new_subscriptions_def)

lemma notice_effect:
  "notice_setting ops D D' N msg \<Longrightarrow> browser (nt_want N) (nt_b N) cache = cache(nt_i N := nt_new N)"
  unfolding notice_setting_def notice_ok_def by blast

section \<open>The steps keep the invariant\<close>

lemma notice_inv_write:
  assumes "notice_inv ops D D' N s" "rc_writer s = Writing"
  shows "notice_inv ops D D' N (s\<lparr>rc_docs := D', rc_writer := Publishing [(nt_k N, nt_b N)]\<rparr>)"
  using assms by (cases "rc_client s") (auto simp: notice_inv_def notice_cell_def Let_def)

lemma notice_inv_publish:
  assumes "notice_setting ops D D' N msg" "notice_inv ops D D' N s" "rc_writer s = Publishing (km # kms)"
  shows "notice_inv ops D D' N (s\<lparr>rc_to := handed (rc_agents s) (rc_subs s) km (rc_to s), rc_writer := Publishing kms\<rparr>)"
proof -
  have km: "km = (nt_k N, nt_b N)" "kms = []" using assms(2,3) by (auto simp: notice_inv_def)
  obtain r where r: "nt_b N = CHR ''{'' # r" using assms(1) by (auto simp: notice_setting_def notice_ok_def)
  have "notice_cell N (rc_client s) (Publishing (km # kms)) (ch_buf (rc_to s)) (rc_cache s (nt_i N))"
    using assms(2) unfolding notice_inv_def assms(3) by blast
  from notice_cell_pending [OF this] have q: "ch_buf (rc_to s) = []" by simp
  then have "room (Suc 0) (rc_to s)" using assms(2) by (simp add: notice_inv_def room_def)
  then have del: "handed (rc_agents s) (rc_subs s) km (rc_to s) = (if rc_agents s (nt_k N) = None then rc_to s else queued [nt_b N] (rc_to s))"
    by (simp add: km r handed_json)
  have mono: "nt_subs N (nt_k N) \<noteq> None \<Longrightarrow> nt_want N (nt_k N) \<noteq> None" by (auto simp: notice_want [OF assms(1)])
  have "notice_cell N (rc_client s) (Publishing []) (if rc_agents s (nt_k N) = None then [] else [nt_b N]) (rc_cache s (nt_i N))"
    using assms(2,3) q mono by (cases "rc_client s") (auto simp: notice_inv_def notice_cell_def Let_def km split: if_splits)
  then show ?thesis
    using assms(2,3) q unfolding del
    by (cases "rc_client s"; cases "rc_agents s (nt_k N) = None") (auto simp: notice_inv_def km queued_def)
qed

lemma notice_inv_subscribe:
  assumes "notice_setting ops D D' N msg" "notice_inv ops D D' N s" "rc_client s = Asking"
  shows "notice_inv ops D D' N (s\<lparr>rc_subs := new_subscriptions msg (rc_subs s), rc_client := Registering\<rparr>)"
proof -
  have "nt_want N = new_subscriptions msg (nt_subs N)" using assms(1) by (simp add: notice_setting_def)
  then show ?thesis using assms(2,3) by (auto simp: notice_inv_def notice_cell_def Let_def split: if_splits)
qed

lemma notice_inv_register:
  assumes "notice_setting ops D D' N msg" "notice_inv ops D D' N s" "rc_client s = Registering"
  shows "notice_inv ops D D' N (s\<lparr>rc_agents := new_subscriptions msg (rc_agents s), rc_client := Loading\<rparr>)"
proof -
  have "nt_want N = new_subscriptions msg (nt_subs N)" using assms(1) by (simp add: notice_setting_def)
  then show ?thesis using assms(2,3) by (auto simp: notice_inv_def notice_cell_def Let_def split: if_splits)
qed

lemma notice_inv_flush:
  assumes "notice_setting ops D D' N msg" "notice_inv ops D D' N s" "rc_client s \<in> {Asking, Served}" "ch_buf (rc_to s) = b # q"
  shows "notice_inv ops D D' N (s\<lparr>rc_to := (rc_to s)\<lparr>ch_buf := q\<rparr>, rc_cache := browser (rc_want s) b (rc_cache s)\<rparr>)"
proof -
  let ?v = "rc_cache s (nt_i N)"
  have cell: "notice_cell N (rc_client s) (rc_writer s) (b # q) ?v" using assms(2,4) by (simp add: notice_inv_def)
  then have b: "b = nt_b N" "q = []"
    using assms(3) by (cases "rc_client s"; auto simp: notice_cell_def Let_def split: if_splits)+
  have "browser (rc_want s) b (rc_cache s) = (rc_cache s)(nt_i N := nt_new N)"
    using assms(2) notice_effect [OF assms(1)] by (simp add: notice_inv_def b)
  moreover have "notice_cell N (rc_client s) (rc_writer s) [] (nt_new N)"
    using cell assms(3) unfolding b by (cases "rc_client s") (auto simp: notice_cell_def Let_def split: if_splits)
  ultimately show ?thesis using assms(2) by (simp add: notice_inv_def b)
qed

text \<open>What the load shows of the object.\<close>

definition loaded_cell :: "notice \<Rightarrow> UpdateSubscriptionMessage \<Rightarrow> writer \<Rightarrow> view option \<Rightarrow> view option" where
  "loaded_cell N msg w v =
     (case if w = Writing then nt_old N else nt_new N of
        Some y \<Rightarrow> if nt_k N \<in> set (us_Add msg) then Some y else v
      | None \<Rightarrow> v)"

lemma notice_cell_loaded:
  assumes "notice_setting ops D D' N msg" "notice_cell N Loading w q v"
  shows "notice_cell N Served w q (loaded_cell N msg w v)"
  using assms(2) notice_want [OF assms(1), of "nt_k N"]
  by (auto simp: notice_cell_def loaded_cell_def Let_def split: if_splits option.splits)

lemma notice_inv_served:
  assumes "notice_setting ops D D' N msg" "notice_inv ops D D' N s" "rc_client s = Loading"
    and "c (nt_i N) = loaded_cell N msg (rc_writer s) (rc_cache s (nt_i N))"
    and "\<And>j. j \<noteq> nt_i N \<Longrightarrow> c j = replica ops D (nt_want N) j"
  shows "notice_inv ops D D' N (s\<lparr>rc_cache := c, rc_client := Served\<rparr>)"
  using assms(2-) notice_cell_loaded [OF assms(1)] by (simp add: notice_inv_def)

lemma notice_inv_no_load:
  assumes "notice_setting ops D D' N msg" "notice_inv ops D D' N s" "rc_client s = Loading" "us_Add msg = []"
  shows "notice_inv ops D D' N (s\<lparr>rc_client := Served\<rparr>)"
proof -
  have "nt_want N = nt_subs N" using notice_want [OF assms(1)] assms(4) by (simp add: fun_eq_iff)
  then have "notice_inv ops D D' N (s\<lparr>rc_cache := rc_cache s, rc_client := Served\<rparr>)"
    using assms(2-4) by (intro notice_inv_served [OF assms(1-3)]) (simp_all add: loaded_cell_def notice_inv_def split: option.split)
  then show ?thesis by simp
qed

context stored_object
begin

lemma notice_inv_load:
  assumes "mongo_behaves ops tag_of mk stored mg docs" "creator_ok ops mk"
    and "documents_ok ops tag_of (rc_docs s)" "\<forall>i y. rc_docs s i = Some y \<longrightarrow> mk (obj_TypeKey ops y) \<noteq> None"
    and "notice_setting ops D D' N msg" "notice_inv ops D D' N s" "rc_client s = Loading"
    and "docs m = rc_docs s" "MongoSynk_Load mk mg (us_Add msg) m = (Ret (objs, None), m')"
  shows "notice_inv ops D D' N
    (s\<lparr>rc_cache := fold (browser (rc_want s)) (map (loaded_bytes ops) objs) (rc_cache s), rc_client := Served\<rparr>)"
proof (rule notice_inv_served [OF assms(5-7)])
  let ?c = "fold (browser (rc_want s)) (map (loaded_bytes ops) objs) (rc_cache s)"
  have c: "?c j = (case rc_docs s j of
       Some y \<Rightarrow> if obj_GetPrevSubKey ops y \<in> set (us_Add msg) then Some (view_of ops y) else rc_cache s j
     | None \<Rightarrow> rc_cache s j)" for j
    using Load_shown [OF assms(1,2) _ _ assms(9), of "rc_want s" "rc_cache s"] assms(3,4,8) by (simp add: fun_eq_iff)
  have docs: "rc_docs s = (if rc_writer s = Writing then D else D')" using assms(6) by (simp add: notice_inv_def)
  show "?c (nt_i N) = loaded_cell N msg (rc_writer s) (rc_cache s (nt_i N))"
    using assms(5) unfolding c docs loaded_cell_def notice_setting_def
    by (cases "rc_writer s = Writing") (auto split: option.split)
  fix j
  assume j: "j \<noteq> nt_i N"
  then have "rc_docs s j = D j" using docs assms(5) by (simp add: notice_setting_def)
  moreover have "rc_cache s j = replica ops D (nt_subs N) j" using assms(6,7) j by (simp add: notice_inv_def)
  ultimately show "?c j = replica ops D (nt_want N) j"
    unfolding c by (simp add: replica_def notice_want [OF assms(5)] split: option.split)
qed

lemma notice_inv_reaches:
  assumes "mongo_behaves ops tag_of mk stored mg docs" "creator_ok ops mk"
    and "documents_ok ops tag_of D" "\<forall>i y. D i = Some y \<longrightarrow> mk (obj_TypeKey ops y) \<noteq> None"
    and "documents_ok ops tag_of D'" "\<forall>i y. D' i = Some y \<longrightarrow> mk (obj_TypeKey ops y) \<noteq> None"
    and "notice_setting ops D D' N msg" "notice_inv ops D D' N s"
    and "race_reaches ops mk mg docs msg D' [(nt_k N, nt_b N)] s t"
  shows "notice_inv ops D D' N t"
  using assms(9,8)
proof (induction rule: race_reaches.induct)
  case (race_more s s' s'')
  note IH = race_more.IH [OF race_more.prems]
  have docs: "rc_docs s' = D \<or> rc_docs s' = D'" using IH by (auto simp: notice_inv_def)
  from race_more.hyps(2) show ?case
  proof (cases rule: race_step.cases)
    case race_write
    with notice_inv_write [OF IH] show ?thesis by simp
  next
    case race_publish
    with notice_inv_publish [OF assms(7) IH] show ?thesis by simp
  next
    case race_subscribe
    with notice_inv_subscribe [OF assms(7) IH] show ?thesis by simp
  next
    case race_register
    with notice_inv_register [OF assms(7) IH] show ?thesis by simp
  next
    case (race_load m objs m')
    show ?thesis unfolding race_load(1)
      by (rule notice_inv_load [OF assms(1,2) _ _ assms(7) IH race_load(2,4,5)]) (use docs assms(3-6) in auto)
  next
    case race_no_load
    with notice_inv_no_load [OF assms(7) IH] show ?thesis by simp
  next
    case (race_flush b to')
    then have "ch_buf (rc_to s') = b # ch_buf to'" "to' = (rc_to s')\<lparr>ch_buf := ch_buf to'\<rparr>"
      by (auto simp: chan_outcomes)
    with notice_inv_flush [OF assms(7) IH race_flush(2)] show ?thesis by (simp add: race_flush(1))
  qed
qed simp

lemma notice_inv_start:
  assumes "notice_setting ops D D' N msg" "nt_subs N = subs"
  shows "notice_inv ops D D' N (race_start ops D msg subs)"
proof -
  have "replica ops D subs (nt_i N) = (if subs (nt_k N) = None then None else nt_old N)"
    using assms by (auto simp: notice_setting_def replica_def split: option.split)
  then show ?thesis
    using assms by (simp add: notice_inv_def race_start_def notice_setting_def make_chan_def notice_cell_def clientBufferLength_def)
qed

lemma notice_inv_over:
  assumes "notice_setting ops D D' N msg" "notice_inv ops D D' N t" "race_over t"
  shows "rc_cache t = replica ops D' (nt_want N)"
proof
  fix j
  have t: "rc_writer t = Publishing []" "rc_client t = Served" "ch_buf (rc_to t) = []"
    using assms(3) by (simp_all add: race_over_def)
  show "rc_cache t j = replica ops D' (nt_want N) j"
  proof (cases "j = nt_i N")
    case True
    with assms(1,2) t show ?thesis
      by (auto simp: notice_inv_def notice_cell_def replica_def notice_setting_def split: option.split if_splits)
  next
    case False
    then have "D' j = D j" using assms(1) by (simp add: notice_setting_def)
    with False assms(2) t show ?thesis by (simp add: notice_inv_def replica_def)
  qed
qed

text \<open>The result, for any call that writes one document and publishes one such message.\<close>

lemma notice_result:
  assumes "mongo_behaves ops tag_of mk stored mg docs" "creator_ok ops mk"
    and "documents_ok ops tag_of D" "\<forall>i y. D i = Some y \<longrightarrow> mk (obj_TypeKey ops y) \<noteq> None"
    and "documents_ok ops tag_of D'" "\<forall>i y. D' i = Some y \<longrightarrow> mk (obj_TypeKey ops y) \<noteq> None"
    and "notice_setting ops D D' N msg"
    and "race_reaches ops mk mg docs msg D' [(nt_k N, nt_b N)] (race_start ops D msg (nt_subs N)) t" "race_over t"
  shows "rc_cache t = replica ops D' (new_subscriptions msg (nt_subs N))"
proof -
  note inv = notice_inv_reaches [OF assms(1-7) notice_inv_start [OF assms(7) refl] assms(8)]
  have "nt_want N = new_subscriptions msg (nt_subs N)" using assms(7) by (simp add: notice_setting_def)
  with notice_inv_over [OF assms(7) inv assms(9)] show ?thesis by simp
qed

text \<open>The notices that a creation and a deletion make.\<close>

lemma Create_notice:
  assumes "redis_behaves rd db" "mongo_behaves ops tag_of mk stored mg docs"
    and "MongoSynk_Create ops mg rd s = (Ret v, s')"
    and "encodable ops (ms_obj s')" "valid_utf8 (obj_TypeKey ops (ms_obj s))" "us_Remove msg = []"
  obtains N where "notice_setting ops (docs (ms_mongo s)) (docs (ms_mongo s')) N msg" "nt_subs N = subs"
    "published_since (db (ms_redis s)) (db (ms_redis s')) = [(nt_k N, nt_b N)]"
proof -
  let ?y = "ms_obj s'" and ?i = "obj_TagGetID ops (ms_obj s')" and ?k = "obj_GetSubKey ops (ms_obj s')"
  have y: "?y = created_obj ops (ms_obj s) (ms_rand s)" and free: "docs (ms_mongo s) ?i = None"
    and D': "docs (ms_mongo s') = (docs (ms_mongo s))(?i \<mapsto> stored ?y)"
    using Create_Ret [OF assms(1-3)] by auto
  have key: "obj_GetPrevSubKey ops ?y = ?k" unfolding y by (rule created_keys(1))
  obtain b where b: "marshal (addMsg_json ops (add_msg_of ops ?y '''' (obj_TypeKey ops (ms_obj s)))) = Inr b"
    and pub: "published_since (db (ms_redis s)) (db (ms_redis s')) = [(?k, b)]"
    using Create_Ret [OF assms(1-3)] y created_keys [of "ms_obj s" "ms_rand s"] set_sub_keys(1)
    by (fastforce simp: add_msg_of_def)
  obtain js where js: "obj_MarshalDiff ops (obj_State ops ?y) = Inr js" using diff_json by blast
  have eff: "browser want b cache = cache(?i \<mapsto> view_of ops ?y)" for want cache
    using browser_add [OF b, of js] js assms(4,5) by (simp add: add_msg_of_def encodable_def view_of_def state_fields_def key)
  have br: "\<exists>r. b = CHR ''{'' # r" by (rule marshal_msg_brace(1) [OF b])
  let ?N = "\<lparr>nt_i = ?i, nt_k = ?k, nt_b = b, nt_old = None, nt_new = Some (view_of ops ?y), nt_subs = subs,
      nt_want = new_subscriptions msg subs\<rparr>"
  have "notice_setting ops (docs (ms_mongo s)) (docs (ms_mongo s')) ?N msg"
    using free br assms(6) by (simp add: notice_setting_def notice_ok_def eff D' stored_view stored_prev key)
  then show thesis by (rule that) (simp_all add: pub)
qed

lemma Delete_notice:
  assumes "redis_behaves rd db" "mongo_behaves ops tag_of mk stored mg docs"
    and "MongoSynk_Delete ops mg rd s = (Ret v, s')"
    and "synced ops (docs (ms_mongo s)) (ms_obj s)" "encodable ops (ms_obj s)" "us_Remove msg = []"
  obtains N where "notice_setting ops (docs (ms_mongo s)) (docs (ms_mongo s')) N msg" "nt_subs N = subs"
    "published_since (db (ms_redis s)) (db (ms_redis s')) = [(nt_k N, nt_b N)]"
proof -
  let ?x = "ms_obj s"
  let ?i = "obj_TagGetID ops ?x" and ?k = "obj_GetPrevSubKey ops ?x"
  have D': "docs (ms_mongo s') = (docs (ms_mongo s))(?i := None)" using Delete_Ret [OF assms(1-3)] by simp
  obtain b where b: "marshal (remMsg_json (rem_msg_of ops ?x)) = Inr b"
    and pub: "published_since (db (ms_redis s)) (db (ms_redis s')) = [(?k, b)]"
    using Delete_Ret [OF assms(1-3)] by auto
  have eff: "browser want b cache = cache(?i := None)" for want cache
    using browser_rem [OF b] assms(5) by (simp add: rem_msg_of_def encodable_def)
  obtain y where y: "docs (ms_mongo s) ?i = Some y" "view_of ops y = view_of ops ?x"
    using assms(4) by (auto simp: synced_def)
  have br: "\<exists>r. b = CHR ''{'' # r" by (rule marshal_msg_brace(3) [OF b])
  have key: "obj_GetPrevSubKey ops y = ?k" using y(2) by (simp add: view_of_def)
  let ?N = "\<lparr>nt_i = ?i, nt_k = ?k, nt_b = b, nt_old = Some (view_of ops y), nt_new = None, nt_subs = subs,
      nt_want = new_subscriptions msg subs\<rparr>"
  have "notice_setting ops (docs (ms_mongo s)) (docs (ms_mongo s')) ?N msg"
    using y(1) key br assms(6) by (simp add: notice_setting_def notice_ok_def eff D')
  then show thesis by (rule that) (simp_all add: pub)
qed

end

section \<open>Properties\<close>

text \<open>
  C5: No missed creation: an object is created while a client adds keys to its subscriptions. In every
  interleaving of the two calls and of the main loop the browser ends up with exactly the stored
  objects of its keys, the new one included when its key is among them.
\<close>

theorem no_missed_creation:
  assumes "stored_object ops tag_of stored" "redis_behaves rd db" "mongo_behaves ops tag_of mk stored mg docs" "creator_ok ops mk"
    and "MongoSynk_Create ops mg rd s = (Ret v, s')"
    and "encodable ops (ms_obj s')" "valid_utf8 (obj_TypeKey ops (ms_obj s))"
    and "documents_ok ops tag_of (docs (ms_mongo s))" "documents_ok ops tag_of (docs (ms_mongo s'))"
    and "\<forall>i y. docs (ms_mongo s) i = Some y \<longrightarrow> mk (obj_TypeKey ops y) \<noteq> None"
    and "\<forall>i y. docs (ms_mongo s') i = Some y \<longrightarrow> mk (obj_TypeKey ops y) \<noteq> None"
    and "us_Remove msg = []"
    and "race_reaches ops mk mg docs msg (docs (ms_mongo s')) (published_since (db (ms_redis s)) (db (ms_redis s')))
      (race_start ops (docs (ms_mongo s)) msg subs) t" "race_over t"
  shows "rc_cache t = replica ops (docs (ms_mongo s')) (new_subscriptions msg subs)"
proof -
  obtain N where N: "notice_setting ops (docs (ms_mongo s)) (docs (ms_mongo s')) N msg" "nt_subs N = subs"
    "published_since (db (ms_redis s)) (db (ms_redis s')) = [(nt_k N, nt_b N)]"
    by (rule stored_object.Create_notice [OF assms(1-3,5-7,12)])
  from stored_object.notice_result [OF assms(1,3,4,8,10,9,11) N(1) assms(13) [unfolded N(3), folded N(2)] assms(14)] N(2)
  show ?thesis by simp
qed

lemma demo_created_documents:
  "ms_mongo demo_created = [(obj_TagGetID entity_ops demo_obj, entity_stored demo_obj)]"
  "document_ok entity_ops entity_tag (obj_TagGetID entity_ops demo_obj) (entity_stored demo_obj)"
  unfolding document_ok_iff sub_agrees_def by code_simp+

lemma demo_created_documents_ok: "documents_ok entity_ops entity_tag (map_of (ms_mongo demo_created))"
  using demo_created_documents(2) by (simp add: documents_ok_def demo_created_documents(1))

lemma no_missed_creation_witness:
  "\<exists>t :: entity race. race_over t \<and> rc_cache t = replica entity_ops (map_of (ms_mongo demo_created)) [''m:0|0'' \<mapsto> True] \<and>
     map_of (ms_mongo demo_created) \<noteq> Map.empty"
proof -
  let ?msg = "request_key ''m:0|0''"
  have call: "MongoSynk_Create entity_ops mem_mongo mem_redis demo_new = (Ret None, demo_created)"
    using demo_Create by (simp add: demo_created_def)
  have start: "ms_mongo demo_new = []" "valid_utf8 (obj_TypeKey entity_ops (ms_obj demo_new))" by code_simp+
  then have "documents_ok entity_ops entity_tag (map_of (ms_mongo demo_new))" by (simp add: documents_ok_def)
  obtain objs m' where load: "MongoSynk_Load creator mem_mongo (us_Add ?msg) (ms_mongo demo_new) = (Ret (objs, None), m')"
    using demo_loads by blast
  obtain t where t: "race_reaches entity_ops creator mem_mongo map_of ?msg (map_of (ms_mongo demo_created))
      (published_since (mem_view (ms_redis demo_new)) (mem_view (ms_redis demo_created)))
      (race_start entity_ops (map_of (ms_mongo demo_new)) ?msg Map.empty) t" "race_over t"
    using race_completes [where docs = map_of, OF load refl] by (fastforce simp: request_key_def)
  have "rc_cache t = replica entity_ops (map_of (ms_mongo demo_created)) (new_subscriptions ?msg Map.empty)"
    by (rule no_missed_creation [OF entity_db.stored_object_axioms mem_redis_behaves mem_mongo_behaves entity_creator_ok
          call demo_created_encodable start(2) _ demo_created_documents_ok _ _ _ t])
      (simp_all add: entity_types request_key_def start(1) documents_ok_def del: creator.simps)
  moreover have "new_subscriptions ?msg Map.empty = [''m:0|0'' \<mapsto> True]"
    by (auto simp: new_subscriptions_def request_key_def fun_eq_iff)
  ultimately show ?thesis using t(2) demo_created_documents(1) by auto
qed

text \<open>
  C6: No ghost: an object is deleted while a client adds keys to its subscriptions, possibly the
  object's own key. In every interleaving of the two calls and of the main loop the browser ends up
  with exactly the stored objects of its keys, so without the deleted one.
\<close>

theorem no_ghost_object:
  assumes "stored_object ops tag_of stored" "redis_behaves rd db" "mongo_behaves ops tag_of mk stored mg docs" "creator_ok ops mk"
    and "MongoSynk_Delete ops mg rd s = (Ret v, s')"
    and "synced ops (docs (ms_mongo s)) (ms_obj s)" "encodable ops (ms_obj s)"
    and "documents_ok ops tag_of (docs (ms_mongo s))"
    and "\<forall>i y. docs (ms_mongo s) i = Some y \<longrightarrow> mk (obj_TypeKey ops y) \<noteq> None"
    and "us_Remove msg = []"
    and "race_reaches ops mk mg docs msg (docs (ms_mongo s')) (published_since (db (ms_redis s)) (db (ms_redis s')))
      (race_start ops (docs (ms_mongo s)) msg subs) t" "race_over t"
  shows "rc_cache t = replica ops (docs (ms_mongo s')) (new_subscriptions msg subs) \<and>
    rc_cache t (obj_TagGetID ops (ms_obj s)) = None"
proof -
  obtain N where N: "notice_setting ops (docs (ms_mongo s)) (docs (ms_mongo s')) N msg" "nt_subs N = subs"
    "published_since (db (ms_redis s)) (db (ms_redis s')) = [(nt_k N, nt_b N)]"
    by (rule stored_object.Delete_notice [OF assms(1-3,5-7,10)])
  have D': "docs (ms_mongo s') = (docs (ms_mongo s))(obj_TagGetID ops (ms_obj s) := None)"
    using Delete_Ret [OF assms(2,3,5)] by simp
  have "documents_ok ops tag_of (docs (ms_mongo s'))" using assms(8) by (simp add: documents_ok_def D')
  moreover have "\<forall>i y. docs (ms_mongo s') i = Some y \<longrightarrow> mk (obj_TypeKey ops y) \<noteq> None" using assms(9) by (auto simp: D')
  ultimately have "rc_cache t = replica ops (docs (ms_mongo s')) (new_subscriptions msg subs)"
    using stored_object.notice_result [OF assms(1,3,4,8,9) _ _ N(1) assms(11) [unfolded N(3), folded N(2)] assms(12)] N(2) by simp
  then show ?thesis by (simp add: D' replica_def)
qed

lemma no_ghost_object_witness:
  "\<exists>t :: entity race. race_over t \<and> rc_cache t = Map.empty \<and>
     map_of (ms_mongo demo_move) ''a!'' \<noteq> None"
proof -
  let ?msg = "request_key ''m:0|0''"
  define gone where "gone = snd (MongoSynk_Delete entity_ops mem_mongo mem_redis demo_move)"
  have call: "MongoSynk_Delete entity_ops mem_mongo mem_redis demo_move = (Ret None, gone)"
    using demo_Delete by (simp add: gone_def)
  have empty: "map_of (ms_mongo gone) = Map.empty"
    using Delete_Ret [OF mem_redis_behaves mem_mongo_behaves call] by (simp add: demo_move_keys demo_collections)
  obtain objs m' where load: "MongoSynk_Load creator mem_mongo (us_Add ?msg) (ms_mongo demo_move) = (Ret (objs, None), m')"
    using demo_loads by blast
  obtain t where t: "race_reaches entity_ops creator mem_mongo map_of ?msg (map_of (ms_mongo gone))
      (published_since (mem_view (ms_redis demo_move)) (mem_view (ms_redis gone)))
      (race_start entity_ops (map_of (ms_mongo demo_move)) ?msg Map.empty) t" "race_over t"
    using race_completes [where docs = map_of, OF load refl] by (fastforce simp: request_key_def)
  have "rc_cache t = replica entity_ops (map_of (ms_mongo gone)) (new_subscriptions ?msg Map.empty) \<and>
      rc_cache t (obj_TagGetID entity_ops (ms_obj demo_move)) = None"
    by (rule no_ghost_object [OF entity_db.stored_object_axioms mem_redis_behaves mem_mongo_behaves entity_creator_ok
          call demo_scene(3,1) demo_documents_ok(1) _ _ t])
      (simp_all add: entity_types request_key_def del: creator.simps)
  then show ?thesis using t(2) by (auto simp: empty replica_def fun_eq_iff demo_collections)
qed

end
