(* ===== verification/Redis_Synk.thy ===== *)
theory Redis_Synk
  imports Mongo_Synk
begin

text \<open>
  \<open>RedisSynk.go\<close>, \<open>RedisScripts.go\<close> and the deprecated counter of \<open>ID.go\<close>: the
  key/value back end. A subscription key names a Redis set of object keys, an object key
  (\<open>type:id\<close>) names the JSON of the object. The Lua scripts are translated from their text in the
  source, over \<open>redis.call\<close>; \<open>redis.Values\<close>, \<open>redis.String\<close> and their relatives are the
  documented conversions of a reply.
\<close>

section \<open>The scripts\<close>

text \<open>\<open>redis.call\<close> in a script: an error reply aborts the script; what ran before is kept.\<close>

definition script_call :: "'r redis \<Rightarrow> redis_cmd \<Rightarrow> (redis_reply \<Rightarrow> 'r \<Rightarrow> redis_reply \<times> 'r) \<Rightarrow> 'r \<Rightarrow> redis_reply \<times> 'r" where
  "script_call rd c k r =
     (case rd_call rd c r of
        (RErr e, r1) \<Rightarrow> (RErr e, r1)
      | (reply, r1) \<Rightarrow> k reply r1)"

fun reply_text :: "redis_reply \<Rightarrow> string" where
  "reply_text (RBulk b) = b"
| "reply_text (RStatus s) = s"
| "reply_text _ = ''''"

definition getKeysObjectsScript :: "'r redis \<Rightarrow> string list \<Rightarrow> 'r \<Rightarrow> redis_reply \<times> 'r" where
  "getKeysObjectsScript rd KEYS =
     script_call rd (SUNION KEYS) (\<lambda>ids r1.
       case ids of
         RArr l \<Rightarrow>
           if length l = 0 then (RArr [RArr [], RArr []], r1)
           else script_call rd (MGET (map reply_text l)) (\<lambda>objs r2. (RArr [ids, objs], r2)) r1
       | _ \<Rightarrow> (RErr ''attempt to get length of a non-table value'', r1))"

definition setAndPublishText :: "'r redis \<Rightarrow> string \<Rightarrow> string \<Rightarrow> bytes \<Rightarrow> bytes \<Rightarrow> 'r \<Rightarrow> redis_reply \<times> 'r" where
  "setAndPublishText rd KEYS1 KEYS2 ARGV1 ARGV2 =
     script_call rd (SET_NX KEYS1 ARGV1) (\<lambda>res r1.
       if res \<noteq> RNil then
         script_call rd (SADD KEYS2 KEYS1) (\<lambda>_ r2.
           script_call rd (PUBLISH KEYS2 ARGV2) (\<lambda>_ r3. (RBulk ''OK'', r3)) r2) r1
       else (RBulk ''NO'', r1))"

section \<open>Conversions of replies\<close>

text \<open>\<open>redis.String\<close>: a nil reply is \<open>ErrNil\<close>.\<close>

definition redis_String :: "error + redis_reply \<Rightarrow> string \<times> error option" where
  "redis_String x =
     (case x of
        Inl e \<Rightarrow> ('''', Some e)
      | Inr (RBulk b) \<Rightarrow> (b, None)
      | Inr (RStatus s) \<Rightarrow> (s, None)
      | Inr RNil \<Rightarrow> ('''', Some ''redigo: nil returned'')
      | Inr _ \<Rightarrow> ('''', Some ''redigo: unexpected type for String''))"

definition redis_Values :: "error + redis_reply \<Rightarrow> redis_reply list \<times> error option" where
  "redis_Values x =
     (case x of
        Inl e \<Rightarrow> ([], Some e)
      | Inr (RArr l) \<Rightarrow> (l, None)
      | Inr RNil \<Rightarrow> ([], Some ''redigo: nil returned'')
      | Inr _ \<Rightarrow> ([], Some ''redigo: unexpected type for Values''))"

text \<open>\<open>redis.Strings\<close> and \<open>redis.ByteSlices\<close>: nil entries become empty ones.\<close>

definition is_text :: "redis_reply \<Rightarrow> bool" where
  "is_text r \<longleftrightarrow> (case r of RBulk _ \<Rightarrow> True | RStatus _ \<Rightarrow> True | RNil \<Rightarrow> True | _ \<Rightarrow> False)"

definition redis_Strings :: "redis_reply \<Rightarrow> string list \<times> error option" where
  "redis_Strings x =
     (case x of
        RArr l \<Rightarrow> (if list_all is_text l then (map reply_text l, None) else ([], Some ''redigo: unexpected element type for Strings''))
      | RNil \<Rightarrow> ([], Some ''redigo: nil returned'')
      | _ \<Rightarrow> ([], Some ''redigo: unexpected type for Strings''))"

definition redis_Int :: "error + redis_reply \<Rightarrow> int \<times> error option" where
  "redis_Int x =
     (case x of
        Inl e \<Rightarrow> (0, Some e)
      | Inr (RInt i) \<Rightarrow> (i, None)
      | Inr RNil \<Rightarrow> (0, Some ''redigo: nil returned'')
      | Inr _ \<Rightarrow> (0, Some ''redigo: unexpected type for Int''))"

section \<open>Keys\<close>

definition redisKey :: "('o, 'd) object_ops \<Rightarrow> 'o \<Rightarrow> string" where
  "redisKey ops x = obj_TypeKey ops x @ '':'' @ obj_TagGetID ops x"

definition redisTypeAndID :: "string \<Rightarrow> string \<times> string" where
  "redisTypeAndID k =
     (case last_index_byte (CHR '':'') k of
        None \<Rightarrow> (k, k)
      | Some index \<Rightarrow> (let end = index + 1 in (take index k, drop end k)))"

text \<open>\<open>getID\<close> of \<open>ID.go\<close>.\<close>

definition getID :: "'r redis \<Rightarrow> string \<Rightarrow> 'r \<Rightarrow> (string \<times> error option) \<times> 'r" where
  "getID rd counterKey r =
     (let (res, r1) = conn_Do rd (INCR (''count:'' @ counterKey)) r; (n, err) = redis_Int res
      in case err of Some e \<Rightarrow> (('''', Some e), r1) | None \<Rightarrow> ((format_int 36 n, None), r1))"

section \<open>Reading\<close>

text \<open>The keys and the serialized objects of some subscription keys, as two parallel slices.\<close>

definition RedisRequestByteSlices :: "'r redis \<Rightarrow> string list \<Rightarrow> 'r \<Rightarrow> (string list \<times> bytes list \<times> error option) go \<times> 'r" where
  "RedisRequestByteSlices rd subKeys r =
     (let (res, r1) = on_server rd (getKeysObjectsScript rd subKeys) r;
          (keysAndObjects, err) = redis_Values res
      in case err of
           Some e \<Rightarrow> (Ret ([], [], Some e), r1)
         | None \<Rightarrow>
             (case keysAndObjects of
                [] \<Rightarrow> (Ret ([], [], None), r1)
              | [u] \<Rightarrow> (Panic ''index out of range'', r1)
              | k0 # v0 # _ \<Rightarrow>
                  (let (keys, keyErr) = redis_Strings k0; (vals, valErr) = redis_Strings v0
                   in if keyErr \<noteq> None \<or> valErr \<noteq> None \<or> length keys \<noteq> length vals
                      then (Ret ([], [], Some ''RequestByteSlices got mismatched or invalid response from redis''), r1)
                      else (Ret (keys, vals, None), r1))))"

text \<open>
  The loop of \<open>RedisRequestObjects\<close>: \<open>err\<close> is the variable of the source, assigned in every
  iteration and returned after the loop.
\<close>

definition container_key :: "string \<Rightarrow> string" where
  "container_key key = (case last_index_byte (CHR '':'') key of Some index \<Rightarrow> take index key | None \<Rightarrow> key)"

fun request_loop :: "('o, 'd) object_ops \<Rightarrow> (string \<Rightarrow> 'o option) \<Rightarrow> (string \<times> bytes) list \<Rightarrow>
    'o list \<Rightarrow> error option \<Rightarrow> 'o list \<times> error option" where
  "request_loop ops constructor [] results err = (results, err)"
| "request_loop ops constructor ((key, val) # rest) results err =
     (case constructor (container_key key) of
        None \<Rightarrow> ([], Some (''No container for type: '' @ container_key key))
      | Some container \<Rightarrow>
          (case obj_Unmarshal ops val container of
             (None, x) \<Rightarrow> request_loop ops constructor rest (results @ [x]) None
           | (Some e, _) \<Rightarrow> request_loop ops constructor rest results (Some e)))"

definition RedisRequestObjects :: "('o, 'd) object_ops \<Rightarrow> (string \<Rightarrow> 'o option) \<Rightarrow> 'r redis \<Rightarrow>
    string list \<Rightarrow> 'r \<Rightarrow> ('o list \<times> error option) go \<times> 'r" where
  "RedisRequestObjects ops constructor rd subKeys r =
     (case RedisRequestByteSlices rd subKeys r of
        (Panic p, r1) \<Rightarrow> (Panic p, r1)
      | (Ret (keys, vals, Some e), r1) \<Rightarrow> (Ret ([], Some e), r1)
      | (Ret (keys, vals, None), r1) \<Rightarrow> (Ret (request_loop ops constructor (zip keys vals) [] None), r1))"

section \<open>Writing\<close>

record ('o, 'r) rstate =
  rs_obj :: 'o
  rs_rand :: rand
  rs_redis :: 'r

definition redisNewObject :: "('o, 'd) object_ops \<Rightarrow> 'r redis \<Rightarrow> ('o, 'r) rstate \<Rightarrow> error option \<times> ('o, 'r) rstate" where
  "redisNewObject ops rd s =
     (let x = rs_obj s;
          subKey = obj_GetSubKey ops x;
          typeKey = obj_TypeKey ops x;
          rKey = redisKey ops x;
          (x1, rand1) = obj_TagInit ops typeKey x (rs_rand s);
          x2 = run_OnCreate ops x1;
          x3 = snd (obj_Resolve ops x2);
          subscription = obj_GetSubKey ops x3;
          x4 = obj_TagSetSub ops subscription x3;
          msg = \<lparr>add_State = obj_State ops x4, add_ID = obj_TagGetID ops x4, add_SKey = subKey, add_PSKey = '''',
                 add_Version = obj_Version ops x4, add_Type = typeKey\<rparr>;
          s1 = s\<lparr>rs_obj := x4, rs_rand := rand1\<rparr>
      in case marshal (addMsg_json ops msg) of
           Inl e \<Rightarrow> (Some ''redisNewObject failed to convert diff to json'', s1)
         | Inr msgJSON \<Rightarrow>
             (case marshal (obj_MarshalObj ops x4) of
                Inl e \<Rightarrow> (Some ''redisNewObject failed to convert object to json'', s1)
              | Inr redisJSON \<Rightarrow>
                  (let (res, r1) = on_server rd (setAndPublishText rd rKey subKey redisJSON msgJSON) (rs_redis s1);
                       (val, err) = redis_String res; s2 = s1\<lparr>rs_redis := r1\<rparr>
                   in if val = ''NO''
                      then (Some (''synk.redisNewObject failed to create object. Redis key '' @ CHR 0x27 # rKey @ CHR 0x27 # '' already exists''), s2)
                      else (err, s2))))"

definition redisModObject :: "('o, 'd) object_ops \<Rightarrow> 'r redis \<Rightarrow> ('o, 'r) rstate \<Rightarrow> error option \<times> ('o, 'r) rstate" where
  "redisModObject ops rd s =
     (let x = rs_obj s;
          psk = obj_GetPrevSubKey ops x;
          nsk = obj_GetSubKey ops x;
          ident = obj_TagGetID ops x;
          rKey = redisKey ops x;
          simple = (psk = nsk);
          (diff, x1) = obj_Resolve ops x;
          s1 = s\<lparr>rs_obj := x1\<rparr>;
          msg = \<lparr>mod_Diff = diff, mod_ID = ident, mod_Version = obj_Version ops x1, mod_SKey = psk,
                 mod_NSKey = (if simple then '''' else nsk)\<rparr>
      in case marshal (modMsg_json ops msg) of
           Inl e \<Rightarrow> (Some ''redisModObject failed to convert modMsg to JSON'', s1)
         | Inr msgJSON \<Rightarrow>
             (case marshal (obj_MarshalObj ops x1) of
                Inl e \<Rightarrow> (Some ''redisModObject failed to convert object to JSON'', s1)
              | Inr objJSON \<Rightarrow>
                  if simple then
                    (let (res, r1) = conn_Exec rd [SADD nsk rKey, SET rKey objJSON, PUBLISH psk msgJSON] (rs_redis s1)
                     in (err_of res, s1\<lparr>rs_redis := r1\<rparr>))
                  else
                    (let amsg = \<lparr>add_State = obj_State ops x1, add_ID = ident, add_SKey = nsk, add_PSKey = psk,
                                 add_Version = obj_Version ops x1, add_Type = obj_TypeKey ops x1\<rparr>
                     in case marshal (addMsg_json ops amsg) of
                          Inl e \<Rightarrow> (Some ''redisModObject failed to convert full state to JSON'', s1)
                        | Inr addJSON \<Rightarrow>
                            (let (res, r1) = conn_Exec rd [SREM psk rKey, SADD nsk rKey, SET rKey objJSON,
                                   PUBLISH psk msgJSON, PUBLISH nsk (''from '' @ psk @ addJSON)] (rs_redis s1)
                             in (err_of res, s1\<lparr>rs_redis := r1\<rparr>)))))"

definition redisDelObject :: "('o, 'd) object_ops \<Rightarrow> 'r redis \<Rightarrow> ('o, 'r) rstate \<Rightarrow> error option \<times> ('o, 'r) rstate" where
  "redisDelObject ops rd s =
     (let x = rs_obj s;
          msg = \<lparr>rem_SKey = obj_GetPrevSubKey ops x, rem_Type = obj_TypeKey ops x, rem_ID = obj_TagGetID ops x\<rparr>
      in case marshal (remMsg_json msg) of
           Inl e \<Rightarrow> (Some (''synk.redisDelObj failed to convert msg to json: '' @ e), s)
         | Inr remJSON \<Rightarrow>
             (let rKey = redisKey ops x;
                  (res, r1) = conn_Exec rd [SREM (rem_SKey msg) rKey, DEL rKey, PUBLISH (rem_SKey msg) remJSON] (rs_redis s)
              in (err_of res, s\<lparr>rs_redis := r1\<rparr>)))"

section \<open>The methods of RedisSynk\<close>

text \<open>Each method takes a connection of the pool for the time of the call, which may panic.\<close>

definition on_conn :: "'r redis \<Rightarrow> (('o, 'r) rstate \<Rightarrow> 'a \<times> ('o, 'r) rstate) \<Rightarrow> ('o, 'r) rstate \<Rightarrow> 'a go \<times> ('o, 'r) rstate" where
  "on_conn rd body s =
     (case rd_Get rd (rs_redis s) of
        (Some p, r1) \<Rightarrow> (Panic p, s\<lparr>rs_redis := r1\<rparr>)
      | (None, r1) \<Rightarrow> (let (v, s2) = body (s\<lparr>rs_redis := r1\<rparr>) in (Ret v, s2)))"

lemma on_conn_Ret:
  "on_conn rd body s = (Ret v, s') \<longleftrightarrow> (\<exists>r1. rd_Get rd (rs_redis s) = (None, r1) \<and> body (s\<lparr>rs_redis := r1\<rparr>) = (v, s'))"
  by (auto simp: on_conn_def split: prod.splits option.splits)

definition RedisSynk_Create :: "('o, 'd) object_ops \<Rightarrow> 'r redis \<Rightarrow> ('o, 'r) rstate \<Rightarrow> error option go \<times> ('o, 'r) rstate" where
  "RedisSynk_Create ops rd s = on_conn rd (redisNewObject ops rd) s"

definition RedisSynk_Delete :: "('o, 'd) object_ops \<Rightarrow> 'r redis \<Rightarrow> ('o, 'r) rstate \<Rightarrow> error option go \<times> ('o, 'r) rstate" where
  "RedisSynk_Delete ops rd s = on_conn rd (redisDelObject ops rd) s"

definition RedisSynk_Modify :: "('o, 'd) object_ops \<Rightarrow> 'r redis \<Rightarrow> ('o, 'r) rstate \<Rightarrow> error option go \<times> ('o, 'r) rstate" where
  "RedisSynk_Modify ops rd s = on_conn rd (redisModObject ops rd) s"

definition RedisSynk_Close :: "'r \<Rightarrow> error option \<times> 'r" where
  "RedisSynk_Close r = (None, r)"

definition RedisSynk_Load :: "('o, 'd) object_ops \<Rightarrow> (string \<Rightarrow> 'o option) \<Rightarrow> 'r redis \<Rightarrow>
    string list \<Rightarrow> 'r \<Rightarrow> ('o list \<times> error option) go \<times> 'r" where
  "RedisSynk_Load ops Constructor rd subKeys r =
     (case rd_Get rd r of
        (Some p, r1) \<Rightarrow> (Panic p, r1)
      | (None, r1) \<Rightarrow> RedisRequestObjects ops Constructor rd subKeys r1)"

definition RedisSynk_Publish :: "'r redis \<Rightarrow> string \<Rightarrow> payload \<Rightarrow> 'r \<Rightarrow> error option go \<times> 'r" where
  "RedisSynk_Publish rd channel msg r =
     with_conn rd (\<lambda>r1.
       case msg of
         RawBytes b \<Rightarrow> publish_on rd channel b r1
       | GoValue v \<Rightarrow> (case marshal v of Inl e \<Rightarrow> (Some e, r1) | Inr b \<Rightarrow> publish_on rd channel b r1)) r"

text \<open>
  \<open>redisHandleMessage\<close> applies a queued mutation; the wrapped object takes the place of the
  object of the state. A value of any other type is refused with its type name.
\<close>

datatype 'o redis_msg = NewObj 'o | ModObj 'o | DelObj 'o | OtherMsg string

fun redisHandleMessage :: "('o, 'd) object_ops \<Rightarrow> 'r redis \<Rightarrow> 'o redis_msg \<Rightarrow> ('o, 'r) rstate \<Rightarrow> error option \<times> ('o, 'r) rstate" where
  "redisHandleMessage ops rd (ModObj x) s = redisModObject ops rd (s\<lparr>rs_obj := x\<rparr>)"
| "redisHandleMessage ops rd (NewObj x) s = redisNewObject ops rd (s\<lparr>rs_obj := x\<rparr>)"
| "redisHandleMessage ops rd (DelObj x) s = redisDelObject ops rd (s\<lparr>rs_obj := x\<rparr>)"
| "redisHandleMessage ops rd (OtherMsg t) s = (Some (''Unknown Message Type: '' @ t), s)"

end
