(* ===== verification/Interfaces.thy ===== *)
theory Interfaces
  imports Mongo_Lemmas Redis_Synk Node
begin

text \<open>
  The interfaces \<open>Mutator\<close>, \<open>Loader\<close> and \<open>AccessPoint\<close> of \<open>Interfaces.go\<close> as records of methods,
  and the values of these interfaces that the program makes: \<open>MongoSynk\<close> and \<open>RedisSynk\<close> are
  mutators and loaders, \<open>Node\<close> is an access point. Code that uses an interface takes such a record.
\<close>

section \<open>The method sets\<close>

text \<open>A method works on an object and on the state of the services behind the interface.\<close>

record ('o, 'w) Mutator =
  Mutator_Create :: "'o \<Rightarrow> 'w \<Rightarrow> error option go \<times> 'o \<times> 'w"
  Mutator_Delete :: "'o \<Rightarrow> 'w \<Rightarrow> error option go \<times> 'o \<times> 'w"
  Mutator_Modify :: "'o \<Rightarrow> 'w \<Rightarrow> error option go \<times> 'o \<times> 'w"
  Mutator_Load :: "string list \<Rightarrow> 'w \<Rightarrow> ('o list \<times> error option) go \<times> 'w"
  Mutator_Close :: "'w \<Rightarrow> error option \<times> 'w"

record ('o, 'w) Loader =
  Loader_Load :: "string list \<Rightarrow> 'w \<Rightarrow> ('o list \<times> error option) go \<times> 'w"
  Loader_Close :: "'w \<Rightarrow> error option \<times> 'w"
  Loader_Publish :: "string \<Rightarrow> payload \<Rightarrow> 'w \<Rightarrow> error option go \<times> 'w"

text \<open>The two constructors that an application registers; either may be nil, and may return nil.\<close>

type_synonym 'o ContainerConstructor = "string \<Rightarrow> 'o option"
type_synonym ('cl, 'cc) ClientConstructor = "'cl \<Rightarrow> 'cc option"

record ('n, 'mu, 'lo, 'o, 'cl, 'cc) AccessPoint =
  AP_CreateMutator :: "'n \<Rightarrow> 'mu go"
  AP_CreateLoader :: "'n \<Rightarrow> 'lo go"
  AP_RegisterClientConstructor :: "('cl, 'cc) ClientConstructor option \<Rightarrow> 'n \<Rightarrow> 'n go"
  AP_RegisterContainerConstructor :: "'o ContainerConstructor option \<Rightarrow> 'n \<Rightarrow> 'n go"
  AP_NewClient :: "'n \<Rightarrow> 'cl \<Rightarrow> 'cc option go"

section \<open>The back ends behind the interfaces\<close>

text \<open>The services of a process: the random source, the collection and the Redis server.\<close>

record ('m, 'r) services =
  sv_rand :: rand
  sv_mongo :: 'm
  sv_redis :: 'r

definition on_mstate :: "(('o, 'm, 'r) mstate \<Rightarrow> error option go \<times> ('o, 'm, 'r) mstate) \<Rightarrow>
    'o \<Rightarrow> ('m, 'r) services \<Rightarrow> error option go \<times> 'o \<times> ('m, 'r) services" where
  "on_mstate f x w =
     (let (res, s) = f \<lparr>ms_obj = x, ms_rand = sv_rand w, ms_mongo = sv_mongo w, ms_redis = sv_redis w\<rparr>
      in (res, ms_obj s, \<lparr>sv_rand = ms_rand s, sv_mongo = ms_mongo s, sv_redis = ms_redis s\<rparr>))"

definition on_rstate :: "(('o, 'r) rstate \<Rightarrow> error option go \<times> ('o, 'r) rstate) \<Rightarrow>
    'o \<Rightarrow> ('m, 'r) services \<Rightarrow> error option go \<times> 'o \<times> ('m, 'r) services" where
  "on_rstate f x w =
     (let (res, s) = f \<lparr>rs_obj = x, rs_rand = sv_rand w, rs_redis = sv_redis w\<rparr>
      in (res, rs_obj s, w\<lparr>sv_rand := rs_rand s, sv_redis := rs_redis s\<rparr>))"

definition MongoSynk_Mutator :: "('o, 'd) object_ops \<Rightarrow> 'o ContainerConstructor \<Rightarrow> ('m, 'o, 'raw) mongo \<Rightarrow> 'r redis \<Rightarrow>
    ('o, ('m, 'r) services) Mutator" where
  "MongoSynk_Mutator ops Creator mg rd = \<lparr>
     Mutator_Create = on_mstate (MongoSynk_Create ops mg rd),
     Mutator_Delete = on_mstate (MongoSynk_Delete ops mg rd),
     Mutator_Modify = on_mstate (MongoSynk_Modify ops mg rd),
     Mutator_Load = (\<lambda>keys w. let (res, m) = MongoSynk_Load Creator mg keys (sv_mongo w) in (res, w\<lparr>sv_mongo := m\<rparr>)),
     Mutator_Close = (\<lambda>w. let (e, m) = MongoSynk_Close (Some mg) (sv_mongo w) in (e, w\<lparr>sv_mongo := m\<rparr>))\<rparr>"

definition MongoSynk_Loader :: "'o ContainerConstructor \<Rightarrow> ('m, 'o, 'raw) mongo \<Rightarrow> 'r redis \<Rightarrow>
    ('o, ('m, 'r) services) Loader" where
  "MongoSynk_Loader Creator mg rd = \<lparr>
     Loader_Load = (\<lambda>keys w. let (res, m) = MongoSynk_Load Creator mg keys (sv_mongo w) in (res, w\<lparr>sv_mongo := m\<rparr>)),
     Loader_Close = (\<lambda>w. let (e, m) = MongoSynk_Close (Some mg) (sv_mongo w) in (e, w\<lparr>sv_mongo := m\<rparr>)),
     Loader_Publish = (\<lambda>ch msg w. let (e, r) = MongoSynk_Publish rd ch msg (sv_redis w) in (e, w\<lparr>sv_redis := r\<rparr>))\<rparr>"

text \<open>The struct \<open>RedisSynk\<close>: a pool of connections to the server, and the constructor.\<close>

record ('o, 'r) RedisSynk =
  rsk_Pool :: "'r redis"
  rsk_Constructor :: "'o ContainerConstructor"

definition RedisSynk_Mutator :: "('o, 'd) object_ops \<Rightarrow> ('o, 'r) RedisSynk \<Rightarrow> ('o, ('m, 'r) services) Mutator" where
  "RedisSynk_Mutator ops rs = \<lparr>
     Mutator_Create = on_rstate (RedisSynk_Create ops (rsk_Pool rs)),
     Mutator_Delete = on_rstate (RedisSynk_Delete ops (rsk_Pool rs)),
     Mutator_Modify = on_rstate (RedisSynk_Modify ops (rsk_Pool rs)),
     Mutator_Load = (\<lambda>keys w. let (res, r) = RedisSynk_Load ops (rsk_Constructor rs) (rsk_Pool rs) keys (sv_redis w) in (res, w\<lparr>sv_redis := r\<rparr>)),
     Mutator_Close = (\<lambda>w. let (e, r) = RedisSynk_Close (sv_redis w) in (e, w\<lparr>sv_redis := r\<rparr>))\<rparr>"

definition RedisSynk_Loader :: "('o, 'd) object_ops \<Rightarrow> ('o, 'r) RedisSynk \<Rightarrow> ('o, ('m, 'r) services) Loader" where
  "RedisSynk_Loader ops rs = \<lparr>
     Loader_Load = (\<lambda>keys w. let (res, r) = RedisSynk_Load ops (rsk_Constructor rs) (rsk_Pool rs) keys (sv_redis w) in (res, w\<lparr>sv_redis := r\<rparr>)),
     Loader_Close = (\<lambda>w. let (e, r) = RedisSynk_Close (sv_redis w) in (e, w\<lparr>sv_redis := r\<rparr>)),
     Loader_Publish = (\<lambda>ch msg w. let (e, r) = RedisSynk_Publish (rsk_Pool rs) ch msg (sv_redis w) in (e, w\<lparr>sv_redis := r\<rparr>))\<rparr>"

text \<open>The node as an access point; a mutator and a loader are both a \<open>MongoSynk\<close>.\<close>

definition Node_AccessPoint :: "('s, 'c, 'm, 'a) drivers \<Rightarrow> config \<Rightarrow>
    (('s, 'c, 'a, 'o, 'cl, 'cc) node, ('o, 'c, 'm) MongoSynk, ('o, 'c, 'm) MongoSynk, 'o, 'cl, 'cc) AccessPoint" where
  "Node_AccessPoint dr cfg = \<lparr>
     AP_CreateMutator = CreateMutator dr cfg, AP_CreateLoader = CreateLoader dr cfg,
     AP_RegisterClientConstructor = RegisterClientConstructor,
     AP_RegisterContainerConstructor = RegisterContainerConstructor,
     AP_NewClient = NewClient\<rparr>"

section \<open>The methods unfolded\<close>

lemma MongoSynk_Mutator_simps [simp]:
  "Mutator_Create (MongoSynk_Mutator ops mk mg rd) = on_mstate (MongoSynk_Create ops mg rd)"
  "Mutator_Delete (MongoSynk_Mutator ops mk mg rd) = on_mstate (MongoSynk_Delete ops mg rd)"
  "Mutator_Modify (MongoSynk_Mutator ops mk mg rd) = on_mstate (MongoSynk_Modify ops mg rd)"
  by (simp_all add: MongoSynk_Mutator_def)

lemma RedisSynk_Mutator_simps [simp]:
  "Mutator_Create (RedisSynk_Mutator ops rs) = on_rstate (RedisSynk_Create ops (rsk_Pool rs))"
  "Mutator_Delete (RedisSynk_Mutator ops rs) = on_rstate (RedisSynk_Delete ops (rsk_Pool rs))"
  "Mutator_Modify (RedisSynk_Mutator ops rs) = on_rstate (RedisSynk_Modify ops (rsk_Pool rs))"
  by (simp_all add: RedisSynk_Mutator_def)

abbreviation mstate_of :: "'o \<Rightarrow> ('m, 'r) services \<Rightarrow> ('o, 'm, 'r) mstate" where
  "mstate_of x w \<equiv> \<lparr>ms_obj = x, ms_rand = sv_rand w, ms_mongo = sv_mongo w, ms_redis = sv_redis w\<rparr>"

abbreviation rstate_of :: "'o \<Rightarrow> ('m, 'r) services \<Rightarrow> ('o, 'r) rstate" where
  "rstate_of x w \<equiv> \<lparr>rs_obj = x, rs_rand = sv_rand w, rs_redis = sv_redis w\<rparr>"

lemma on_mstate_eq:
  "on_mstate f x w = (res, x', w') \<longleftrightarrow>
     (\<exists>s. f (mstate_of x w) = (res, s) \<and> x' = ms_obj s \<and> sv_rand w' = ms_rand s \<and> sv_mongo w' = ms_mongo s \<and> sv_redis w' = ms_redis s)"
  by (cases w') (auto simp: on_mstate_def split: prod.split)

lemma on_rstate_eq:
  "on_rstate f x w = (res, x', w') \<longleftrightarrow>
     (\<exists>s. f (rstate_of x w) = (res, s) \<and> x' = rs_obj s \<and> sv_rand w' = rs_rand s \<and>
        sv_mongo w' = sv_mongo w \<and> sv_redis w' = rs_redis s)"
  by (cases w; cases w') (auto simp: on_rstate_def split: prod.split)

lemma MongoSynk_Mutator_Load:
  "Mutator_Load (MongoSynk_Mutator ops mk mg rd) keys w = (res, w') \<longleftrightarrow>
     (\<exists>m. MongoSynk_Load mk mg keys (sv_mongo w) = (res, m) \<and> w' = w\<lparr>sv_mongo := m\<rparr>)"
  by (auto simp: MongoSynk_Mutator_def split: prod.split)

lemma RedisSynk_Mutator_Load:
  "Mutator_Load (RedisSynk_Mutator ops rs) keys w = (res, w') \<longleftrightarrow>
     (\<exists>r. RedisSynk_Load ops (rsk_Constructor rs) (rsk_Pool rs) keys (sv_redis w) = (res, r) \<and> w' = w\<lparr>sv_redis := r\<rparr>)"
  by (auto simp: RedisSynk_Mutator_def split: prod.split)

end
