(* ===== verification/Redis_Lemmas.thy ===== *)
theory Redis_Lemmas
  imports Redis_Synk Mongo_Lemmas
begin

text \<open>
  What the Redis back end does to the key space and to the published messages: object keys and
  their parts, the two scripts, the transactions of modification and deletion, the sets that track
  where an object is, and what reading returns.
\<close>

section \<open>Object keys\<close>

lemma redisTypeAndID_join: "CHR '':'' \<notin> set i \<Longrightarrow> redisTypeAndID (t @ '':'' @ i) = (t, i)"
  using last_index_byte_append [of "CHR '':''" i t] by (simp add: redisTypeAndID_def)

lemma container_key_join: "CHR '':'' \<notin> set i \<Longrightarrow> container_key (t @ '':'' @ i) = t"
  using last_index_byte_append [of "CHR '':''" i t] by (simp add: container_key_def)

lemma redisKey_inj:
  "CHR '':'' \<notin> set (obj_TagGetID ops x) \<Longrightarrow> CHR '':'' \<notin> set (obj_TagGetID ops y) \<Longrightarrow>
   redisKey ops x = redisKey ops y \<longleftrightarrow> obj_TypeKey ops x = obj_TypeKey ops y \<and> obj_TagGetID ops x = obj_TagGetID ops y"
  using split_last_unique [of "obj_TypeKey ops x" "CHR '':''" "obj_TagGetID ops x" "obj_TypeKey ops y" "obj_TagGetID ops y"]
  by (auto simp: redisKey_def)

section \<open>The effect of a command\<close>

text \<open>The new contents do not depend on the reply.\<close>

fun redis_post :: "redis_cmd \<Rightarrow> redis_db \<Rightarrow> redis_db" where
  "redis_post (SADD k m) db = (if holds_string db k then db else put_set k (insert m (set_at db k)) db)"
| "redis_post (SREM k m) db = (if holds_string db k then db else put_set k (set_at db k - {m}) db)"
| "redis_post (SET k b) db = put_string k b db"
| "redis_post (SET_NX k b) db = (if db_keys db k = None then put_string k b db else db)"
| "redis_post (DEL k) db = del_key k db"
| "redis_post (PUBLISH ch b) db = add_published ch b db"
| "redis_post (SUNION ks) db = db"
| "redis_post (MGET ks) db = db"
| "redis_post (INCR k) db =
     (case db_keys db k of
        None \<Rightarrow> put_string k (format_int 10 1) db
      | Some (StrVal b) \<Rightarrow>
          (case parse_int64 b of
             Some w \<Rightarrow> if in_int64 (sint w + 1) then put_string k (format_int 10 (sint w + 1)) db else db
           | None \<Rightarrow> db)
      | Some (SetVal _) \<Rightarrow> db)"

lemma redis_spec_post: "redis_spec c db rep db' \<Longrightarrow> db' = redis_post c db"
  by (cases c) (auto split: if_splits option.splits redis_value.splits)

lemma redis_call_post: "redis_behaves rd db \<Longrightarrow> db (snd (rd_call rd c r)) = redis_post c (db r)"
  using redis_callD [of rd db c r] redis_spec_post by blast

lemma run_commands_post: "redis_behaves rd db \<Longrightarrow> db (snd (run_commands rd cs r)) = fold redis_post cs (db r)"
proof (induction cs arbitrary: r)
  case (Cons c cs)
  then show ?case
    using redis_call_post [OF Cons.prems, of c r] by (simp add: case_prod_unfold Let_def)
qed simp

lemma conn_Exec_ok:
  assumes "redis_behaves rd db" "conn_Exec rd cs r = (res, r')" "err_of res = None"
  shows "db r' = fold redis_post cs (db r)"
proof -
  from assms(3) obtain v where "res = Inr v" by auto
  with assms(2) have ex: "on_server rd (\<lambda>r. map_prod RArr id (run_commands rd cs r)) r = (Inr v, r')"
    by (simp add: conn_Exec_def)
  from on_server_Inr [OF assms(1) ex] obtain r1 where "db r1 = db r" "map_prod RArr id (run_commands rd cs r1) = (v, r')"
    by blast
  then show ?thesis
    using run_commands_post [OF assms(1), of cs r1] by (cases "run_commands rd cs r1") auto
qed

text \<open>A transaction is all or nothing, whatever the reply.\<close>

lemma conn_Exec_any:
  assumes "redis_behaves rd db"
  shows "db (snd (conn_Exec rd cs r)) \<in> {db r, fold redis_post cs (db r)}"
proof -
  obtain l r1 where l: "rd_net rd r = (l, r1)" by fastforce
  have "db r1 = db r" using redis_netD [OF assms, of r] l by simp
  moreover have "db (snd (run_commands rd cs r1)) = fold redis_post cs (db r1)"
    by (rule run_commands_post [OF assms])
  ultimately show ?thesis
    using l by (cases "run_commands rd cs r1") (auto simp: conn_Exec_def on_server_def split: link.splits)
qed

lemma script_call_cases:
  assumes "redis_behaves rd db" "script_call rd c k r = (rep, r')"
  obtains (error) e where "rd_call rd c r = (RErr e, r')" "rep = RErr e" "redis_spec c (db r) (RErr e) (db r')"
  | (answer) reply r1 where "\<not> is_error reply" "redis_spec c (db r) reply (db r1)" "k reply r1 = (rep, r')"
  using assms(2) redis_callD [OF assms(1), of c r]
  by (cases "rd_call rd c r") (auto simp: script_call_def is_error_def split: redis_reply.splits)

lemma put_simps [simp]:
  "set_at (put_set k s d) k' = (if k' = k then s else set_at d k')"
  "set_at (put_string k b d) k' = (if k' = k then {} else set_at d k')"
  "set_at (del_key k d) k' = (if k' = k then {} else set_at d k')"
  "set_at (add_published ch b d) k' = set_at d k'"
  "holds_string (put_set k s d) k' \<longleftrightarrow> k' \<noteq> k \<and> holds_string d k'"
  "holds_string (put_string k b d) k' \<longleftrightarrow> k' = k \<or> holds_string d k'"
  "holds_string (del_key k d) k' \<longleftrightarrow> k' \<noteq> k \<and> holds_string d k'"
  "holds_string (add_published ch b d) k' \<longleftrightarrow> holds_string d k'"
  "db_published (put_set k s d) = db_published d"
  "db_published (put_string k b d) = db_published d"
  "db_published (del_key k d) = db_published d"
  "db_published (add_published ch b d) = db_published d @ [(ch, b)]"
  by (simp_all add: set_at_def holds_string_def put_set_def put_string_def del_key_def add_published_def)

lemma put_keys [simp]:
  "db_keys (put_string k b d) k' = (if k' = k then Some (StrVal b) else db_keys d k')"
  "db_keys (del_key k d) k' = (if k' = k then None else db_keys d k')"
  "db_keys (add_published ch b d) k' = db_keys d k'"
  "k' \<noteq> k \<Longrightarrow> db_keys (put_set k s d) k' = db_keys d k'"
  by (simp_all add: put_set_def put_string_def del_key_def add_published_def)

section \<open>The creation script\<close>

lemma setAndPublish_cases:
  assumes "redis_behaves rd db" "setAndPublishText rd k c v m r = (rep, r')"
  shows "(db_keys (db r) k \<noteq> None \<and> rep = RBulk ''NO'' \<and> db r' = db r) \<or>
    (db_keys (db r) k = None \<and> \<not> holds_string (db r) c \<and> k \<noteq> c \<and> rep = RBulk ''OK'' \<and>
       db r' = add_published c m (put_set c (insert k (set_at (db r) c)) (put_string k v (db r)))) \<or>
    (db_keys (db r) k = None \<and> (holds_string (db r) c \<or> k = c) \<and> is_error rep \<and> db r' = put_string k v (db r))"
proof (rule script_call_cases [OF assms(1) assms(2) [unfolded setAndPublishText_def]], goal_cases)
  case (1 e)
  then show ?thesis by (auto split: if_splits)
next
  case answer: (2 reply r1)
  show ?thesis
  proof (cases "db_keys (db r) k = None")
    case False
    with answer show ?thesis by auto
  next
    case True
    with answer have r1: "db r1 = put_string k v (db r)"
      and next1: "script_call rd (SADD c k) (\<lambda>_ r2. script_call rd (PUBLISH c m) (\<lambda>_ r3. (RBulk ''OK'', r3)) r2) r1 = (rep, r')"
      by (auto split: if_splits)
    show ?thesis
    proof (rule script_call_cases [OF assms(1) next1], goal_cases)
      case (1 e)
      with r1 True show ?thesis by (auto simp: is_error_def split: if_splits)
    next
      case answer: (2 reply2 r2)
      with r1 have r2: "\<not> holds_string (db r) c" "k \<noteq> c"
          "db r2 = put_set c (insert k (set_at (db r) c)) (put_string k v (db r))"
        by (auto split: if_splits)
      show ?thesis
      proof (rule script_call_cases [OF assms(1) answer(3)], goal_cases)
        case (1 e)
        then show ?thesis by (auto simp: is_error_def)
      next
        case answer: (2 reply3 r3)
        with r2 True show ?thesis by auto
      qed
    qed
  qed
qed

section \<open>Where an object is\<close>

text \<open>The key of an object is a member of exactly one set, that of its subscription key.\<close>

definition tracked :: "redis_db \<Rightarrow> string \<Rightarrow> string \<Rightarrow> bool" where
  "tracked db rKey sub \<longleftrightarrow> holds_string db rKey \<and> (\<forall>k. rKey \<in> set_at db k \<longleftrightarrow> k = sub)"

definition untracked :: "redis_db \<Rightarrow> string \<Rightarrow> bool" where
  "untracked db rKey \<longleftrightarrow> db_keys db rKey = None \<and> (\<forall>k. rKey \<notin> set_at db k)"

lemma tracked_not_string: "tracked db rKey sub \<Longrightarrow> \<not> holds_string db sub \<and> sub \<noteq> rKey"
  by (auto simp: tracked_def holds_string_def set_at_def split: option.splits redis_value.splits)

lemma redisModObject_ok:
  assumes "redis_behaves rd db" "redisModObject ops rd s = (None, s')"
  defines "x \<equiv> rs_obj s"
  defines "psk \<equiv> obj_GetPrevSubKey ops x" and "nsk \<equiv> obj_GetSubKey ops x" and "y \<equiv> snd (obj_Resolve ops x)"
  shows "rs_obj s' = y \<and> (\<exists>b j. marshal (modMsg_json ops (mod_msg_of ops x)) = Inr b \<and>
     marshal (obj_MarshalObj ops y) = Inr j \<and>
     (if nsk = psk
      then db (rs_redis s') = fold redis_post [SADD nsk (redisKey ops x), SET (redisKey ops x) j, PUBLISH psk b] (db (rs_redis s))
      else \<exists>c. marshal (addMsg_json ops \<lparr>add_State = obj_State ops y, add_ID = obj_TagGetID ops x, add_SKey = nsk,
             add_PSKey = psk, add_Version = obj_Version ops y, add_Type = obj_TypeKey ops y\<rparr>) = Inr c \<and>
           db (rs_redis s') = fold redis_post [SREM psk (redisKey ops x), SADD nsk (redisKey ops x),
             SET (redisKey ops x) j, PUBLISH psk b, PUBLISH nsk (''from '' @ psk @ c)] (db (rs_redis s))))"
proof -
  have msg: "mod_msg_of ops x = \<lparr>mod_Diff = fst (obj_Resolve ops x), mod_ID = obj_TagGetID ops x,
      mod_Version = obj_Version ops y, mod_SKey = psk, mod_NSKey = (if psk = nsk then '''' else nsk)\<rparr>"
    by (simp add: mod_msg_of_def x_def y_def psk_def nsk_def eq_commute)
  obtain d where r: "obj_Resolve ops x = (d, y)" by (metis y_def prod.collapse)
  show ?thesis
  proof (cases "psk = nsk")
    case True
    with assms(2) obtain b j v r1 where "marshal (modMsg_json ops (mod_msg_of ops x)) = Inr b"
        "marshal (obj_MarshalObj ops y) = Inr j" "rs_obj s' = y" "rs_redis s' = r1" 
        "conn_Exec rd [SADD nsk (redisKey ops x), SET (redisKey ops x) j, PUBLISH psk b] (rs_redis s) = (Inr v, r1)"
      unfolding msg
      by (auto simp: redisModObject_def Let_def r x_def [symmetric] psk_def [symmetric] nsk_def [symmetric]
          split: sum.splits prod.splits)
    with True conn_Exec_ok [OF assms(1)] show ?thesis by auto
  next
    case False
    with assms(2) obtain b j c v r1 where "marshal (modMsg_json ops (mod_msg_of ops x)) = Inr b"
        "marshal (obj_MarshalObj ops y) = Inr j" "rs_obj s' = y" "rs_redis s' = r1"
        "marshal (addMsg_json ops \<lparr>add_State = obj_State ops y, add_ID = obj_TagGetID ops x, add_SKey = nsk,
             add_PSKey = psk, add_Version = obj_Version ops y, add_Type = obj_TypeKey ops y\<rparr>) = Inr c"
        "conn_Exec rd [SREM psk (redisKey ops x), SADD nsk (redisKey ops x), SET (redisKey ops x) j,
             PUBLISH psk b, PUBLISH nsk (''from '' @ psk @ c)] (rs_redis s) = (Inr v, r1)"
      unfolding msg
      by (auto simp: redisModObject_def Let_def r x_def [symmetric] psk_def [symmetric] nsk_def [symmetric]
          split: sum.splits prod.splits)
    with False conn_Exec_ok [OF assms(1)] show ?thesis by auto
  qed
qed

text \<open>Taking a connection of the pool changes neither the object nor the contents of the server.\<close>

lemma same_state: "rs_obj (s\<lparr>rs_redis := r\<rparr>) = rs_obj s" "rs_redis (s\<lparr>rs_redis := r\<rparr>) = r"
  by simp_all

lemma tracked_create:
  "\<forall>k. rKey \<notin> set_at d k \<Longrightarrow> sub \<noteq> rKey \<Longrightarrow>
   tracked (add_published sub m (put_set sub (insert rKey (set_at d sub)) (put_string rKey j d))) rKey sub"
  by (auto simp: tracked_def split: if_splits)

lemma tracked_move:
  assumes "tracked d rKey psk" "\<not> holds_string d nsk" "nsk \<noteq> rKey"
  shows "tracked (fold redis_post [SREM psk rKey, SADD nsk rKey, SET rKey j, PUBLISH psk b, PUBLISH nsk c] d) rKey nsk"
  using assms tracked_not_string [OF assms(1)] by (auto simp: tracked_def)

lemma tracked_stay:
  assumes "tracked d rKey sub"
  shows "tracked (fold redis_post [SADD sub rKey, SET rKey j, PUBLISH sub b] d) rKey sub"
  using assms tracked_not_string [OF assms(1)] by (auto simp: tracked_def)

lemma tracked_remove:
  assumes "tracked d rKey sub"
  shows "untracked (fold redis_post [SREM sub rKey, DEL rKey, PUBLISH sub b] d) rKey"
  using assms tracked_not_string [OF assms(1)] by (auto simp: tracked_def untracked_def)

lemma redisDelObject_ok:
  assumes "redis_behaves rd db" "redisDelObject ops rd s = (None, s')"
  defines "x \<equiv> rs_obj s"
  shows "rs_obj s' = x \<and> (\<exists>b. marshal (remMsg_json (rem_msg_of ops x)) = Inr b \<and>
    db (rs_redis s') = fold redis_post [SREM (obj_GetPrevSubKey ops x) (redisKey ops x), DEL (redisKey ops x),
      PUBLISH (obj_GetPrevSubKey ops x) b] (db (rs_redis s)))"
proof -
  from assms(2) obtain b v r1 where "marshal (remMsg_json (rem_msg_of ops x)) = Inr b" "rs_obj s' = x"
      "rs_redis s' = r1"
      "conn_Exec rd [SREM (obj_GetPrevSubKey ops x) (redisKey ops x), DEL (redisKey ops x),
         PUBLISH (obj_GetPrevSubKey ops x) b] (rs_redis s) = (Inr v, r1)"
    by (auto simp: redisDelObject_def Let_def rem_msg_of_def x_def split: sum.splits prod.splits)
  with conn_Exec_ok [OF assms(1)] show ?thesis by auto
qed

end
