(* ===== verification/Redis_Props.thy ===== *)
theory Redis_Props
  imports Redis_Lemmas Examples
begin

text \<open>
  The properties of the key/value back end: object keys, creation, the sets that track objects,
  and reading.
\<close>

section \<open>Lemmas on creation\<close>

text \<open>The object that \<open>redisNewObject\<close> leaves is the one that \<open>Create\<close> of the database leaves.\<close>

lemma redisNewObject_obj: "rs_obj (snd (redisNewObject ops rd s)) = created_obj ops (rs_obj s) (rs_rand s)"
  by (auto simp: redisNewObject_def created_obj_def Let_def case_prod_unfold split: sum.split)

text \<open>A creation that reports success has run the script, which answered OK.\<close>

lemma redisNewObject_ok:
  assumes "redis_behaves rd db" "redisNewObject ops rd s = (None, s')"
  shows "rs_obj s' = created_obj ops (rs_obj s) (rs_rand s) \<and>
    db_keys (db (rs_redis s)) (redisKey ops (rs_obj s)) = None \<and>
    \<not> holds_string (db (rs_redis s)) (obj_GetSubKey ops (rs_obj s)) \<and>
    redisKey ops (rs_obj s) \<noteq> obj_GetSubKey ops (rs_obj s) \<and>
    (\<exists>m j. marshal (addMsg_json ops ((add_msg_of ops (rs_obj s') '''' (obj_TypeKey ops (rs_obj s)))
        \<lparr>add_SKey := obj_GetSubKey ops (rs_obj s)\<rparr>)) = Inr m \<and>
      marshal (obj_MarshalObj ops (rs_obj s')) = Inr j \<and>
      db (rs_redis s') = add_published (obj_GetSubKey ops (rs_obj s)) m
        (put_set (obj_GetSubKey ops (rs_obj s)) (insert (redisKey ops (rs_obj s)) (set_at (db (rs_redis s)) (obj_GetSubKey ops (rs_obj s))))
          (put_string (redisKey ops (rs_obj s)) j (db (rs_redis s)))))"
proof -
  let ?x = "created_obj ops (rs_obj s) (rs_rand s)"
  have obj: "rs_obj s' = ?x" using redisNewObject_obj [of ops rd s] assms(2) by simp
  have msg: "(add_msg_of ops ?x '''' (obj_TypeKey ops (rs_obj s)))\<lparr>add_SKey := obj_GetSubKey ops (rs_obj s)\<rparr> =
      \<lparr>add_State = obj_State ops ?x, add_ID = obj_TagGetID ops ?x, add_SKey = obj_GetSubKey ops (rs_obj s), add_PSKey = '''',
       add_Version = obj_Version ops ?x, add_Type = obj_TypeKey ops (rs_obj s)\<rparr>"
    by (simp add: add_msg_of_def)
  obtain t r1 where t: "obj_TagInit ops (obj_TypeKey ops (rs_obj s)) (rs_obj s) (rs_rand s) = (t, r1)" by fastforce
  have x: "?x = obj_TagSetSub ops (obj_GetSubKey ops (snd (obj_Resolve ops (run_OnCreate ops t)))) (snd (obj_Resolve ops (run_OnCreate ops t)))"
    by (simp add: created_obj_def Let_def t)
  let ?call = "\<lambda>m j. on_server rd (setAndPublishText rd (redisKey ops (rs_obj s)) (obj_GetSubKey ops (rs_obj s)) j m) (rs_redis s)"
  obtain m j where m: "marshal (addMsg_json ops ((add_msg_of ops ?x '''' (obj_TypeKey ops (rs_obj s)))\<lparr>add_SKey := obj_GetSubKey ops (rs_obj s)\<rparr>)) = Inr m"
    and j: "marshal (obj_MarshalObj ops ?x) = Inr j"
    and val0: "fst (redis_String (fst (?call m j))) \<noteq> ''NO''" "snd (redis_String (fst (?call m j))) = None"
      "rs_redis s' = snd (?call m j)"
    using assms(2)
    by (auto simp: redisNewObject_def Let_def t x [symmetric] msg case_prod_unfold split: sum.splits if_splits)
  obtain res r2 where call: "?call m j = (res, r2)" by fastforce
  note val = val0(1,2) [unfolded call fst_conv] and r2 = val0(3) [unfolded call snd_conv]
  from val(2) obtain reply where reply: "res = Inr reply"
    by (auto simp: redis_String_def split: sum.splits)
  from on_server_Inr [OF assms(1) call [unfolded reply]] obtain r1 where r1: "db r1 = db (rs_redis s)"
    and script: "setAndPublishText rd (redisKey ops (rs_obj s)) (obj_GetSubKey ops (rs_obj s)) j m r1 = (reply, r2)" by blast
  have "reply \<noteq> RBulk ''NO''" "\<not> is_error reply"
    using val reply by (auto simp: redis_String_def is_error_def split: redis_reply.splits)
  with setAndPublish_cases [OF assms(1) script] r1 m j obj r2 show ?thesis by auto
qed

section \<open>Lemmas on reading\<close>

lemma getKeysObjects_ok:
  assumes "redis_behaves rd db" "getKeysObjectsScript rd keys r = (reply, r')" "\<not> is_error reply"
  shows "db r' = db r \<and> (\<exists>ms. distinct ms \<and> set ms = (\<Union>k \<in> set keys. set_at (db r) k) \<and>
    reply = RArr [RArr (map RBulk ms), RArr (map (bulk_of (db r)) ms)])"
proof (rule script_call_cases [OF assms(1) assms(2) [unfolded getKeysObjectsScript_def]], goal_cases)
  case (1 e)
  with assms(3) show ?case by (simp add: is_error_def)
next
  case answer: (2 ids r1)
  then obtain ms where ms: "ids = RArr (map RBulk ms)" "distinct ms" "set ms = (\<Union>k \<in> set keys. set_at (db r) k)"
    and r1: "db r1 = db r" by (auto split: if_splits)
  show ?case
  proof (cases "ms = []")
    case True
    with answer(3) ms r1 show ?thesis by (intro conjI exI [of _ "[]"]) auto
  next
    case False
    with answer(3) ms have "script_call rd (MGET ms) (\<lambda>objs r2. (RArr [ids, objs], r2)) r1 = (reply, r')"
      by (simp add: comp_def)
    then show ?thesis
    proof (rule script_call_cases [OF assms(1)], goal_cases)
      case (1 e)
      with assms(3) show ?case by (simp add: is_error_def)
    next
      case (2 objs r2)
      with ms r1 False show ?case by (intro conjI exI [of _ ms]) auto
    qed
  qed
qed

lemma bulk_of_texts:
  "list_all is_text (map (bulk_of d) ms)" "list_all is_text (map RBulk ms)" "map reply_text (map RBulk ms) = ms"
  by (simp_all add: list_all_iff is_text_def bulk_of_def comp_def split: option.split redis_value.split)

section \<open>Properties\<close>

text \<open>
  For identifiers without a colon, which new identifiers never contain, the Redis key of an object
  splits back into its type key and its identifier, whatever the type key is, and two objects have the
  same key exactly when they agree in both.
\<close>

theorem redis_key_roundtrip:
  assumes "CHR '':'' \<notin> set (obj_TagGetID ops x)" "CHR '':'' \<notin> set (obj_TagGetID ops y)"
  shows "redisTypeAndID (redisKey ops x) = (obj_TypeKey ops x, obj_TagGetID ops x) \<and>
    container_key (redisKey ops x) = obj_TypeKey ops x \<and>
    (redisKey ops x = redisKey ops y \<longleftrightarrow> obj_TypeKey ops x = obj_TypeKey ops y \<and> obj_TagGetID ops x = obj_TagGetID ops y)"
  using redisTypeAndID_join [OF assms(1)] container_key_join [OF assms(1)] redisKey_inj [OF assms]
  by (simp add: redisKey_def)

lemma redis_key_roundtrip_witness:
  "redisTypeAndID (redisKey entity_ops (EHuman demo_human)) = (''c:h'', ''a!'')"
proof -
  have id: "obj_TagGetID entity_ops (EHuman demo_human) = ''a!''" "obj_TypeKey entity_ops (EHuman demo_human) = ''c:h''"
    by code_simp+
  then have "CHR '':'' \<notin> set (obj_TagGetID entity_ops (EHuman demo_human))" by simp
  from redis_key_roundtrip [OF this this] show ?thesis unfolding id by blast
qed

text \<open>
  The creation script is atomic and never overwrites: if the object key exists, it answers NO and
  changes nothing; otherwise it stores the object, adds its key to the set of the subscription key and
  publishes the message on that channel, in this order, and answers OK. Only when the subscription key
  names a string does it fail, and then the object is stored although nobody is told.
\<close>

theorem creation_script:
  assumes "redis_behaves rd db" "setAndPublishText rd k c v m r = (rep, r')"
  shows "(db_keys (db r) k \<noteq> None \<and> rep = RBulk ''NO'' \<and> db r' = db r) \<or>
    (db_keys (db r) k = None \<and> \<not> holds_string (db r) c \<and> k \<noteq> c \<and> rep = RBulk ''OK'' \<and>
       db r' = add_published c m (put_set c (insert k (set_at (db r) c)) (put_string k v (db r)))) \<or>
    (db_keys (db r) k = None \<and> (holds_string (db r) c \<or> k = c) \<and> is_error rep \<and> db r' = put_string k v (db r))"
  by (rule setAndPublish_cases [OF assms])

lemma creation_script_witness:
  "\<exists>r'. setAndPublishText mem_redis ''c:o:1'' ''k'' ''{}'' ''{}'' mem_empty = (RBulk ''OK'', r') \<and>
     ''c:o:1'' \<in> set_at (mem_view r') ''k'' \<and> db_published (mem_view r') = [(''k'', ''{}'')]"
proof -
  obtain rep r' where call: "setAndPublishText mem_redis ''c:o:1'' ''k'' ''{}'' ''{}'' mem_empty = (rep, r')" by fastforce
  have "db_keys (mem_view mem_empty) k = None" "\<not> holds_string (mem_view mem_empty) k" "db_published (mem_view mem_empty) = []" for k
    by (simp_all add: mem_view_keys holds_string_def mem_view_def mem_empty_def)
  with creation_script [OF mem_redis_behaves call] call show ?thesis by auto
qed

text \<open>
  \<open>redisNewObject\<close> computes the object's Redis key before \<open>TagInit\<close> assigns the identifier.
  An object created without an identifier is therefore stored under its type key and a bare colon, not
  under its own key, and the next such creation of that type fails because that key exists.
\<close>

theorem new_object_without_id:
  assumes "synk_object ops tag_of" "redis_behaves rd db"
    and "\<And>y. obj_TagGetID ops (run_OnCreate ops y) = obj_TagGetID ops y"
    and "obj_TagGetID ops (rs_obj s) = ''''" "redisNewObject ops rd s = (None, s')"
    and "obj_TagGetID ops (rs_obj t) = ''''" "obj_TypeKey ops (rs_obj t) = obj_TypeKey ops (rs_obj s)"
    and "db (rs_redis t) = db (rs_redis s')"
  shows "holds_string (db (rs_redis s')) (obj_TypeKey ops (rs_obj s) @ '':'') \<and>
    redisKey ops (rs_obj s') \<noteq> obj_TypeKey ops (rs_obj s) @ '':'' \<and>
    fst (redisNewObject ops rd t) \<noteq> None"
proof -
  let ?id = "fst (NewID (rs_rand s))"
  have key: "redisKey ops (rs_obj s) = obj_TypeKey ops (rs_obj s) @ '':''" "redisKey ops (rs_obj t) = obj_TypeKey ops (rs_obj s) @ '':''"
    using assms(4,6,7) by (simp_all add: redisKey_def)
  note ok = redisNewObject_ok [OF assms(2,5)]
  have "obj_TagGetID ops (rs_obj s') = ?id"
    using ok assms(3,4) synk_object.resolve_id [OF assms(1)]
    by (simp add: created_obj_def Let_def synk_tagged.init_id [OF synk_object.axioms(1) [OF assms(1)]]
        synk_tagged.set_sub_id [OF synk_object.axioms(1) [OF assms(1)]])
  moreover have "last ?id = CHR ''!''" "?id \<noteq> []" by (simp_all add: NewID_eq)
  ultimately have "last (redisKey ops (rs_obj s')) = CHR ''!''" by (simp add: redisKey_def)
  then have "redisKey ops (rs_obj s') \<noteq> obj_TypeKey ops (rs_obj s) @ '':''" by auto
  moreover have stored: "holds_string (db (rs_redis s')) (obj_TypeKey ops (rs_obj s) @ '':'')"
    using ok key by auto
  moreover have "fst (redisNewObject ops rd t) \<noteq> None"
  proof
    assume "fst (redisNewObject ops rd t) = None"
    then obtain t' where "redisNewObject ops rd t = (None, t')" by (cases "redisNewObject ops rd t") simp
    from redisNewObject_ok [OF assms(2) this] have "db_keys (db (rs_redis t)) (obj_TypeKey ops (rs_obj s) @ '':'') = None"
      using key by simp
    with stored assms(8) show False by (simp add: holds_string_def)
  qed
  ultimately show ?thesis by blast
qed

text \<open>Objects for the witnesses: one without an identifier, one with, one moved.\<close>

definition demo_orc :: "string \<Rightarrow> entity" where
  "demo_orc i = EOrc (new_orc\<lparr>oTag := empty_tag\<lparr>TagID := i\<rparr>, oSubKey := ''k''\<rparr>)"

definition orc_state :: "string \<Rightarrow> mem_db \<Rightarrow> (entity, mem_db) rstate" where
  "orc_state i d = \<lparr>rs_obj = demo_orc i, rs_rand = demo_rand, rs_redis = d\<rparr>"

lemma demo_orc_simps:
  "obj_TagGetID entity_ops (demo_orc i) = i" "obj_TypeKey entity_ops (demo_orc i) = ''c:o''"
  "obj_GetSubKey entity_ops (demo_orc i) = ''k''" "obj_GetPrevSubKey entity_ops (demo_orc i) = ''k''"
  by (simp_all add: demo_orc_def entity_ops_def Orc_ops_def TagGetID_def Orc_get_defs new_orc_def no_orc_diff_def)

lemma demo_orc_created:
  "fst (redisNewObject entity_ops mem_redis (orc_state '''' mem_empty)) = None"
  "fst (redisNewObject entity_ops mem_redis (orc_state ''o1'' mem_empty)) = None"
  by code_simp+

lemma fst_None: "fst c = None \<Longrightarrow> c = (None, snd c)"
  by (cases c) simp

lemma entity_OnCreate: "run_OnCreate entity_ops x = x"
  by (cases x) (simp_all add: run_OnCreate_def entity_ops_def Human_ops_def Orc_ops_def)

lemma new_object_without_id_witness:
  "holds_string (mem_view (rs_redis (snd (redisNewObject entity_ops mem_redis (orc_state '''' mem_empty))))) ''c:o:'' \<and>
   fst (redisNewObject entity_ops mem_redis
     (orc_state '''' (rs_redis (snd (redisNewObject entity_ops mem_redis (orc_state '''' mem_empty)))))) \<noteq> None"
proof -
  let ?s = "orc_state '''' mem_empty"
  let ?t = "orc_state '''' (rs_redis (snd (redisNewObject entity_ops mem_redis ?s)))"
  have "obj_TagGetID entity_ops (rs_obj ?s) = ''''" "obj_TagGetID entity_ops (rs_obj ?t) = ''''"
      "obj_TypeKey entity_ops (rs_obj ?t) = obj_TypeKey entity_ops (rs_obj ?s)"
      "mem_view (rs_redis ?t) = mem_view (rs_redis (snd (redisNewObject entity_ops mem_redis ?s)))"
    by (simp_all add: orc_state_def demo_orc_simps)
  from new_object_without_id [OF entity.synk_object_axioms mem_redis_behaves _ this(1) demo_orc_created(1) [THEN fst_None] this(2-4)]
  show ?thesis by (simp add: entity_OnCreate orc_state_def demo_orc_simps)
qed

text \<open>
  For an object that has an identifier and whose \<open>OnCreate\<close> keeps identifier and type, a creation
  that succeeds stores it under its own key, makes that key a member of exactly the set of its
  subscription key, and publishes one message, if the key was not a member of a set before.
\<close>

theorem new_object_tracked:
  assumes "synk_object ops tag_of" "redis_behaves rd db"
    and "\<And>y. obj_TagGetID ops (run_OnCreate ops y) = obj_TagGetID ops y \<and> obj_TypeKey ops (run_OnCreate ops y) = obj_TypeKey ops y"
    and "obj_TagGetID ops (rs_obj s) \<noteq> ''''" "redisNewObject ops rd s = (None, s')"
    and "\<forall>k. redisKey ops (rs_obj s) \<notin> set_at (db (rs_redis s)) k"
  shows "redisKey ops (rs_obj s') = redisKey ops (rs_obj s) \<and>
    tracked (db (rs_redis s')) (redisKey ops (rs_obj s')) (obj_GetSubKey ops (rs_obj s)) \<and>
    (\<exists>j m. marshal (obj_MarshalObj ops (rs_obj s')) = Inr j \<and>
       db_keys (db (rs_redis s')) (redisKey ops (rs_obj s')) = Some (StrVal j) \<and>
       db_published (db (rs_redis s')) = db_published (db (rs_redis s)) @ [(obj_GetSubKey ops (rs_obj s), m)])"
proof -
  note tagged = synk_object.axioms(1) [OF assms(1)]
  note ok = redisNewObject_ok [OF assms(2,5)]
  have "redisKey ops (rs_obj s') = redisKey ops (rs_obj s)"
    using ok assms(3,4) synk_object.resolve_id [OF assms(1)] synk_object.resolve_type [OF assms(1)]
      synk_object.set_sub_type [OF assms(1)] synk_object.init_type [OF assms(1)]
      synk_tagged.init_id [OF tagged] synk_tagged.set_sub_id [OF tagged]
    by (simp add: redisKey_def created_obj_def Let_def)
  with ok tracked_create [OF assms(6)] show ?thesis by auto
qed

lemma new_object_tracked_witness:
  "tracked (mem_view (rs_redis (snd (redisNewObject entity_ops mem_redis (orc_state ''o1'' mem_empty))))) ''c:o:o1'' ''k''"
proof -
  have key: "redisKey entity_ops (rs_obj (orc_state ''o1'' mem_empty)) = ''c:o:o1''"
    by (simp add: redisKey_def orc_state_def demo_orc_simps)
  have "\<forall>k. redisKey entity_ops (rs_obj (orc_state ''o1'' mem_empty)) \<notin> set_at (mem_view (rs_redis (orc_state ''o1'' mem_empty))) k"
    by (simp add: orc_state_def mem_view_simps mem_set_def mem_empty_def)
  moreover have "obj_TagGetID entity_ops (rs_obj (orc_state ''o1'' mem_empty)) \<noteq> ''''"
      "obj_GetSubKey entity_ops (rs_obj (orc_state ''o1'' mem_empty)) = ''k''"
    by (simp_all add: orc_state_def demo_orc_simps)
  ultimately show ?thesis
    using new_object_tracked [OF entity.synk_object_axioms mem_redis_behaves _ _ demo_orc_created(2) [THEN fst_None]] key entity_OnCreate
    by metis
qed

text \<open>
  C34: for a tracked object, a modification that succeeds leaves it tracked under its new subscription
  key (moved from the old set if that changed, when the new key does not name a string), and a deletion
  that succeeds leaves no trace of it.
\<close>

theorem tracking_kept:
  assumes "synk_object ops tag_of" "redis_behaves rd db"
    and "tracked (db (rs_redis s)) (redisKey ops (rs_obj s)) (obj_GetPrevSubKey ops (rs_obj s))"
    and "\<not> holds_string (db (rs_redis s)) (obj_GetSubKey ops (rs_obj s))"
  shows "(redisModObject ops rd s = (None, s') \<longrightarrow>
      tracked (db (rs_redis s')) (redisKey ops (rs_obj s')) (obj_GetPrevSubKey ops (rs_obj s'))) \<and>
    (redisDelObject ops rd s = (None, s') \<longrightarrow> untracked (db (rs_redis s')) (redisKey ops (rs_obj s')))"
proof (intro conjI impI)
  let ?k = "redisKey ops (rs_obj s)" and ?n = "obj_GetSubKey ops (rs_obj s)"
  have neq: "?n \<noteq> ?k" using assms(3,4) by (metis tracked_def)
  assume "redisModObject ops rd s = (None, s')"
  note ok = redisModObject_ok [OF assms(2) this]
  then have obj: "rs_obj s' = snd (obj_Resolve ops (rs_obj s))" by blast
  have "redisKey ops (rs_obj s') = ?k" "obj_GetPrevSubKey ops (rs_obj s') = ?n"
    using synk_object.resolve_id [OF assms(1)] synk_object.resolve_type [OF assms(1)] synk_object.resolve_prev [OF assms(1)]
    by (simp_all add: obj redisKey_def)
  moreover have "tracked (db (rs_redis s')) ?k ?n"
  proof (cases "?n = obj_GetPrevSubKey ops (rs_obj s)")
    case True
    with ok [unfolded if_P [OF True]] tracked_stay [OF assms(3)] show ?thesis by metis
  next
    case False
    with ok [unfolded if_not_P [OF False]] tracked_move [OF assms(3,4) neq] show ?thesis by metis
  qed
  ultimately show "tracked (db (rs_redis s')) (redisKey ops (rs_obj s')) (obj_GetPrevSubKey ops (rs_obj s'))" by simp
next
  assume "redisDelObject ops rd s = (None, s')"
  with redisDelObject_ok [OF assms(2) this] tracked_remove [OF assms(3)]
  show "untracked (db (rs_redis s')) (redisKey ops (rs_obj s'))" by metis
qed

text \<open>A moved object: stored in the set of \<open>k\<close>, its new key is \<open>n\<close>.\<close>

definition demo_redis :: mem_db where
  "demo_redis = \<lparr>mem_keys = [(''c:o:o1'', MemStr ''{}''), (''k'', MemSet [''c:o:o1''])], mem_published = []\<rparr>"

definition orc_move :: "(entity, mem_db) rstate" where
  "orc_move = \<lparr>rs_obj = EOrc (Orc_SetSubKey ''n'' (new_orc\<lparr>oTag := empty_tag\<lparr>TagID := ''o1''\<rparr>, oSubKey := ''k''\<rparr>)),
     rs_rand = demo_rand, rs_redis = demo_redis\<rparr>"

lemma orc_move_facts:
  "fst (redisModObject entity_ops mem_redis orc_move) = None" "redisKey entity_ops (rs_obj orc_move) = ''c:o:o1''"
  "obj_GetPrevSubKey entity_ops (rs_obj orc_move) = ''k''" "obj_GetSubKey entity_ops (rs_obj orc_move) = ''n''"
  "redisKey entity_ops (rs_obj (snd (redisModObject entity_ops mem_redis orc_move))) = ''c:o:o1''"
  "obj_GetPrevSubKey entity_ops (rs_obj (snd (redisModObject entity_ops mem_redis orc_move))) = ''n''"
  by code_simp+

lemma tracking_kept_witness:
  "tracked (mem_view (rs_redis (snd (redisModObject entity_ops mem_redis orc_move)))) ''c:o:o1'' ''n''"
proof -
  have "tracked (mem_view (rs_redis orc_move)) ''c:o:o1'' ''k''" "\<not> holds_string (mem_view (rs_redis orc_move)) ''n''"
    by (auto simp: tracked_def mem_view_simps orc_move_def demo_redis_def mem_set_def mem_string_def)
  from tracking_kept [OF entity.synk_object_axioms mem_redis_behaves, unfolded orc_move_facts(2-4), of orc_move,
      unfolded orc_move_facts(2-4), OF this]
  show ?thesis using orc_move_facts(1) [THEN fst_None] orc_move_facts(5,6) by metis
qed

section \<open>Loading\<close>

text \<open>What decoding one stored object gives.\<close>

definition decode_stored :: "('o, 'd) object_ops \<Rightarrow> (string \<Rightarrow> 'o option) \<Rightarrow> string \<times> bytes \<Rightarrow> error option \<times> 'o" where
  "decode_stored ops mk kv = obj_Unmarshal ops (snd kv) (the (mk (container_key (fst kv))))"

lemma request_loop_eq:
  "\<forall>kv \<in> set kvs. mk (container_key (fst kv)) \<noteq> None \<Longrightarrow>
   request_loop ops mk kvs results err =
     (results @ map snd (filter (\<lambda>d. fst d = None) (map (decode_stored ops mk) kvs)),
      if kvs = [] then err else fst (decode_stored ops mk (last kvs)))"
proof (induction kvs arbitrary: results err)
  case Nil
  then show ?case by simp
next
  case (Cons kv kvs)
  obtain k v where kv: "kv = (k, v)" by fastforce
  from Cons.prems obtain c where c: "mk (container_key k) = Some c" using kv by auto
  obtain e x where d: "obj_Unmarshal ops v c = (e, x)" by fastforce
  then have "decode_stored ops mk kv = (e, x)" by (simp add: decode_stored_def kv c)
  with Cons kv c d show ?case by (cases e) auto
qed

lemma RedisRequestByteSlices_ok:
  assumes "redis_behaves rd db" "RedisRequestByteSlices rd subKeys r = (Ret (keys, vals, None), r')"
  shows "db r' = db r \<and> distinct keys \<and> set keys = (\<Union>k \<in> set subKeys. set_at (db r) k) \<and>
    vals = map (\<lambda>k. reply_text (bulk_of (db r) k)) keys"
proof -
  obtain res r1 where call: "on_server rd (getKeysObjectsScript rd subKeys) r = (res, r1)" by fastforce
  with assms(2) have r1: "r' = r1" and "snd (redis_Values res) = None"
    by (auto simp: RedisRequestByteSlices_def case_prod_unfold Let_def split: option.splits list.splits if_splits)
  then obtain reply where reply: "res = Inr reply" by (auto simp: redis_Values_def split: sum.splits)
  have "\<not> is_error reply"
    using \<open>snd (redis_Values res) = None\<close> reply by (auto simp: redis_Values_def is_error_def)
  moreover obtain r2 where r2: "db r2 = db r" "getKeysObjectsScript rd subKeys r2 = (reply, r1)"
    using on_server_Inr [OF assms(1) call [unfolded reply]] by blast
  ultimately obtain ms where ms: "distinct ms" "set ms = (\<Union>k \<in> set subKeys. set_at (db r) k)"
      "reply = RArr [RArr (map RBulk ms), RArr (map (bulk_of (db r)) ms)]" and "db r1 = db r"
    using getKeysObjects_ok [OF assms(1) r2(2)] by auto
  have "keys = ms \<and> vals = map (\<lambda>k. reply_text (bulk_of (db r)k)) ms"
    using assms(2) call reply ms(3)
    by (auto simp: RedisRequestByteSlices_def redis_Values_def redis_Strings_def bulk_of_texts comp_def split: if_splits)
  with ms r1 \<open>db r1 = db r\<close> show ?thesis by simp
qed

text \<open>
  Loading from Redis asks for exactly the keys in the sets of the subscription keys, each once,
  with the strings stored under them, and changes nothing; it returns the objects that decode. But the
  error it returns is that of the last object only: an object that fails to decode earlier is left out
  without an error.
\<close>

theorem redis_load_last_error:
  assumes "redis_behaves rd db" "rd_Get rd q = (None, r)" "RedisRequestByteSlices rd subKeys r = (Ret (keys, vals, None), r')"
    and "\<forall>k \<in> set keys. mk (container_key k) \<noteq> None"
  shows "db r' = db q \<and> distinct keys \<and> set keys = (\<Union>k \<in> set subKeys. set_at (db q) k) \<and>
    vals = map (\<lambda>k. reply_text (bulk_of (db q) k)) keys \<and>
    RedisSynk_Load ops mk rd subKeys q =
      (Ret (map snd (filter (\<lambda>d. fst d = None) (map (decode_stored ops mk) (zip keys vals))),
            if keys = [] then None else fst (decode_stored ops mk (last (zip keys vals)))), r')"
proof -
  have q: "db r = db q" using redis_GetD [OF assms(1), of q] assms(2) by simp
  note ok = RedisRequestByteSlices_ok [OF assms(1,3), unfolded q]
  then have len: "length vals = length keys" by simp
  then have "zip keys vals = [] \<longleftrightarrow> keys = []" by (cases keys; cases vals) auto
  moreover have "\<forall>kv \<in> set (zip keys vals). mk (container_key (fst kv)) \<noteq> None"
    using assms(4) by (auto dest: set_zip_leftD)
  ultimately have "RedisSynk_Load ops mk rd subKeys q =
      (Ret (map snd (filter (\<lambda>d. fst d = None) (map (decode_stored ops mk) (zip keys vals))),
            if keys = [] then None else fst (decode_stored ops mk (last (zip keys vals)))), r')"
    using assms(2,3) by (simp add: RedisSynk_Load_def RedisRequestObjects_def request_loop_eq)
  with ok show ?thesis by blast
qed

text \<open>A set with an object that does not decode and one that does.\<close>

definition bad_redis :: mem_db where
  "bad_redis = \<lparr>mem_keys = [(''c:o:1'', MemStr ''nope''), (''c:o:2'', MemStr ''{}''), (''k'', MemSet [''c:o:1'', ''c:o:2''])],
     mem_published = []\<rparr>"

lemma bad_redis_slices:
  "RedisRequestByteSlices mem_redis [''k''] bad_redis = (Ret ([''c:o:1'', ''c:o:2''], [''nope'', ''{}''], None), bad_redis)"
  by code_simp

lemma redis_load_last_error_witness:
  "\<exists>x. RedisSynk_Load entity_ops creator mem_redis [''k''] bad_redis = (Ret ([x], None), bad_redis) \<and>
     set_at (mem_view bad_redis) ''k'' = {''c:o:1'', ''c:o:2''}"
proof -
  have keys: "container_key ''c:o:1'' = ''c:o''" "container_key ''c:o:2'' = ''c:o''" by code_simp+
  then have found: "\<forall>k \<in> set [''c:o:1'', ''c:o:2'']. creator (container_key k) \<noteq> None" by simp
  have "rd_Get mem_redis bad_redis = (None, bad_redis)" by (simp add: mem_redis_def)
  note ok = redis_load_last_error [OF mem_redis_behaves this bad_redis_slices found, of entity_ops]
  have bad: "fst (decode_stored entity_ops creator (''c:o:1'', ''nope'')) = None \<longleftrightarrow> False"
    and good: "fst (decode_stored entity_ops creator (''c:o:2'', ''{}'')) = None"
    by code_simp+
  have "RedisSynk_Load entity_ops creator mem_redis [''k''] bad_redis =
      (Ret ([snd (decode_stored entity_ops creator (''c:o:2'', ''{}''))], None), bad_redis)"
    unfolding ok [THEN conjunct2, THEN conjunct2, THEN conjunct2, THEN conjunct2]
    by (simp only: zip_Cons_Cons zip_Nil list.map filter.simps bad good if_True if_False last.simps list.distinct HOL.simp_thms)
  moreover have "set_at (mem_view bad_redis) ''k'' = {''c:o:1'', ''c:o:2''}"
    using ok [THEN conjunct2, THEN conjunct2, THEN conjunct1] by simp
  ultimately show ?thesis by blast
qed

text \<open>A counter that holds a decimal number.\<close>

lemma parse_format_int: "in_int64 n \<Longrightarrow> parse_int64 (format_int 10 n) = Some (word_of_int n) \<and> sint (word_of_int n :: go_int) = n"
proof -
  assume "in_int64 n"
  then have n: "sint (word_of_int n :: go_int) = n"
    by (simp add: in_int64_def signed_take_bit_int_eq_self sint_sbintrunc')
  then have "format_int 10 n = show_int (word_of_int n)" by (simp add: show_int_def)
  with n show ?thesis by simp
qed

lemma getID_step:
  assumes "redis_behaves rd db" "getID rd c q = ((w, None), q')"
  shows "\<exists>n. w = format_int 36 n \<and> in_int64 n \<and> db_keys (db q') (''count:'' @ c) = Some (StrVal (format_int 10 n)) \<and>
    (\<forall>m. in_int64 m \<longrightarrow> db_keys (db q) (''count:'' @ c) = Some (StrVal (format_int 10 m)) \<longrightarrow> n = m + 1)"
proof -
  obtain res q1 where res: "conn_Do rd (INCR (''count:'' @ c)) q = (res, q1)" by fastforce
  with assms(2) obtain n where n: "res = Inr (RInt n)" "w = format_int 36 n" "q' = q1"
    by (auto simp: getID_def redis_Int_def split: sum.splits redis_reply.splits)
  let ?k = "''count:'' @ c"
  have spec: "redis_spec (INCR ?k) (db q) (RInt n) (db q')"
    using conn_Do_Inr [OF assms(1) res [unfolded n(1)]] n(3) by simp
  consider "db_keys (db q) ?k = None" "n = 1" "db q' = put_string ?k (format_int 10 1) (db q)"
    | x w' where "db_keys (db q) ?k = Some (StrVal x)" "parse_int64 x = Some w'" "in_int64 n" "n = sint w' + 1"
        "db q' = put_string ?k (format_int 10 n) (db q)"
    using spec by (auto simp: is_error_def split: option.splits redis_value.splits if_splits)
  then show ?thesis
  proof cases
    case 1
    with n(2) show ?thesis by (intro exI [of _ 1]) (simp add: in_int64_def)
  next
    case 2
    with n(2) parse_format_int show ?thesis by (intro exI [of _ n]) auto
  qed
qed

text \<open>
  The deprecated counter identifiers: a call that returns no error has added one to the counter
  and returns its new value in base 36, so two such calls for one counter, with any commands that do
  not touch the counter in between, return different identifiers.
\<close>

theorem counter_ids_differ:
  assumes "redis_behaves rd db"
    and "getID rd c r = ((a, None), r1)" "db_keys (db r2) (''count:'' @ c) = db_keys (db r1) (''count:'' @ c)"
    and "getID rd c r2 = ((b, None), r3)"
  shows "a \<noteq> b"
proof -
  from getID_step [OF assms(1,2)] obtain m where m: "a = format_int 36 m" "in_int64 m"
      "db_keys (db r1) (''count:'' @ c) = Some (StrVal (format_int 10 m))" by blast
  from getID_step [OF assms(1,4)] m assms(3) have "b = format_int 36 (m + 1)" by auto
  with m(1) format_int_inj [of 36 m "m + 1"] show ?thesis by auto
qed

lemma counter_ids_differ_witness:
  "fst (getID mem_redis ''c'' mem_empty) = (''1'', None) \<and>
   fst (getID mem_redis ''c'' (snd (getID mem_redis ''c'' mem_empty))) = (''2'', None) \<and> ''1'' \<noteq> ''2''"
proof -
  have calls: "fst (getID mem_redis ''c'' mem_empty) = (''1'', None)"
      "fst (getID mem_redis ''c'' (snd (getID mem_redis ''c'' mem_empty))) = (''2'', None)"
    by code_simp+
  let ?r1 = "snd (getID mem_redis ''c'' mem_empty)"
  have "getID mem_redis ''c'' mem_empty = ((''1'', None), ?r1)"
      "getID mem_redis ''c'' ?r1 = ((''2'', None), snd (getID mem_redis ''c'' ?r1))"
    by (metis calls prod.collapse)+
  from counter_ids_differ [OF mem_redis_behaves this(1) refl this(2)] calls show ?thesis by blast
qed

end
