(* ===== verification/Loaders.thy ===== *)
theory Loaders
  imports Interfaces Client_Lemmas Redis_Props
begin

text \<open>
  The contract of the interface \<open>Loader\<close>, through which a client loads objects and publishes values,
  met by both back ends; and what reaches the browsers of a value that a handler publishes.
\<close>

section \<open>The contract\<close>

text \<open>What is sent for a published value: a byte slice as it is, any other value as its JSON.\<close>

fun payload_bytes :: "payload \<Rightarrow> error + bytes" where
  "payload_bytes (RawBytes b) = Inr b"
| "payload_bytes (GoValue v) = marshal v"

text \<open>
  Loading publishes nothing and changes no stored object; \<open>Publish\<close> publishes exactly the bytes of the
  value when it returns nil, and a value that cannot be encoded reaches nobody: the call returns the error
  of the encoder, unless taking a connection panicked before. \<open>kept\<close> reads the stored objects out of a
  state.
\<close>

locale loader =
  fixes services_ok :: "'e \<Rightarrow> ('w \<Rightarrow> redis_db) \<Rightarrow> ('w \<Rightarrow> 'k) \<Rightarrow> bool"
    and L :: "'e \<Rightarrow> ('o, 'w) Loader"
  assumes load_silent: "services_ok e view kept \<Longrightarrow> Loader_Load (L e) keys w = (res, w') \<Longrightarrow>
      db_published (view w') = db_published (view w) \<and> kept w' = kept w"
    and publish_sends: "services_ok e view kept \<Longrightarrow> Loader_Publish (L e) ch p w = (Ret None, w') \<Longrightarrow>
      \<exists>b. payload_bytes p = Inr b \<and> published_since (view w) (view w') = [(ch, b)] \<and> kept w' = kept w"
    and publish_refuses: "services_ok e view kept \<Longrightarrow> payload_bytes p = Inl err \<Longrightarrow>
      Loader_Publish (L e) ch p w = (g, w') \<Longrightarrow>
      (g = Ret (Some err) \<or> (\<exists>q. g = Panic q)) \<and> db_published (view w') = db_published (view w) \<and> kept w' = kept w"
begin

text \<open>What a browser gets of a published value: the part of its bytes from the first brace on.\<close>

lemma publish_deliver:
  assumes "services_ok e view kept" "Loader_Publish (L e) ch p w = (Ret None, w')"
  shows "\<exists>b. payload_bytes p = Inr b \<and>
    deliver_all subs (published_since (view w) (view w')) to = deliver subs (ch, b) to"
  using publish_sends [OF assms] by auto

lemma publish_object:
  assumes "services_ok e view kept" "Loader_Publish (L e) ch (GoValue (Inr (JObj ms))) w = (Ret None, w')" "room 1 to"
  shows "deliver_all subs (published_since (view w) (view w')) to =
    (if subs ch = None then to else queued [render (JObj ms)] to)"
proof -
  obtain r where r: "render (JObj ms) = CHR ''{'' # r" by simp
  have "room (Suc 0) to" using assms(3) by simp
  from deliver_json [OF this r] publish_deliver [OF assms(1,2), of subs to] show ?thesis by auto
qed

text \<open>A list of objects loses its opening bracket.\<close>

lemma publish_list:
  assumes "services_ok e view kept" "Loader_Publish (L e) ch (GoValue (Inr (JArr (JObj ms # vs)))) w = (Ret None, w')" "room 1 to"
  shows "deliver_all subs (published_since (view w) (view w')) to =
    (if subs ch = None then to else queued [tl (render (JArr (JObj ms # vs)))] to)"
proof -
  obtain r where r: "render (JArr (JObj ms # vs)) = CHR ''['' # CHR ''{'' # r" by simp
  have "room (Suc 0) to" using assms(3) by simp
  from put_out_room [OF this] have "put_out (CHR ''{'' # r) to = (Returned None, queued [CHR ''{'' # r] to)" .
  moreover have "Receive subs ch (''['' @ CHR ''{'' # r) to = put_out (CHR ''{'' # r) to"
    by (rule Receive_other) (simp_all add: has_prefix_def)
  ultimately have "deliver subs (ch, CHR ''['' # CHR ''{'' # r) to =
      (if subs ch = None then to else queued [CHR ''{'' # r] to)"
    by (simp add: deliver_def)
  with publish_deliver [OF assms(1,2), of subs to] show ?thesis by (auto simp: r simp del: render.simps)
qed

text \<open>A value without a brace is not forwarded.\<close>

lemma publish_braceless:
  assumes "services_ok e view kept" "Loader_Publish (L e) ch p w = (Ret None, w')" "payload_bytes p = Inr b" "CHR ''{'' \<notin> set b"
  shows "deliver_all subs (published_since (view w) (view w')) to = to"
  using publish_deliver [OF assms(1,2), of subs to] assms(3) Receive_no_json [OF assms(4), of subs ch to]
  by (auto simp: deliver_def)

end

section \<open>The two loaders\<close>

definition mongo_loader_ok :: "('m, entity, 'raw) mongo \<times> 'r redis \<Rightarrow> (('m, 'r) services \<Rightarrow> redis_db) \<Rightarrow>
    (('m, 'r) services \<Rightarrow> string \<rightharpoonup> entity) \<Rightarrow> bool" where
  "mongo_loader_ok e view kept \<longleftrightarrow> (\<exists>db docs. redis_behaves (snd e) db \<and>
     mongo_behaves entity_ops entity_tag creator entity_stored (fst e) docs \<and>
     view = (\<lambda>w. db (sv_redis w)) \<and> kept = (\<lambda>w. docs (sv_mongo w)))"

definition redis_loader_ok :: "(entity, 'r) RedisSynk \<Rightarrow> (('m, 'r) services \<Rightarrow> redis_db) \<Rightarrow>
    (('m, 'r) services \<Rightarrow> string \<rightharpoonup> redis_value) \<Rightarrow> bool" where
  "redis_loader_ok rs view kept \<longleftrightarrow> (\<exists>db. redis_behaves (rsk_Pool rs) db \<and>
     view = (\<lambda>w. db (sv_redis w)) \<and> kept = (\<lambda>w. db_keys (db (sv_redis w))))"

lemma getKeysObjects_reads:
  assumes "redis_behaves rd db"
  shows "db (snd (getKeysObjectsScript rd keys r)) = db r"
proof -
  have "db (snd (rd_call rd (SUNION ks) r)) = db r" "db (snd (rd_call rd (MGET ks) r)) = db r" for ks r
    using redis_call_post [OF assms] by simp_all
  then show ?thesis
    by (auto simp: getKeysObjectsScript_def script_call_def split: prod.splits redis_reply.splits) (metis snd_conv)+
qed

lemma RedisSynk_Load_reads:
  assumes "redis_behaves rd db" "RedisSynk_Load ops mk rd keys r = (res, r')"
  shows "db r' = db r"
proof -
  let ?r1 = "snd (rd_Get rd r)"
  have "r' = ?r1 \<or> r' = snd (on_server rd (getKeysObjectsScript rd keys) ?r1)"
    using assms(2)
    by (auto simp: RedisSynk_Load_def RedisRequestObjects_def RedisRequestByteSlices_def case_prod_unfold Let_def
        split: go.splits prod.splits option.splits list.splits if_splits)
  moreover have "db (snd (on_server rd (getKeysObjectsScript rd keys) q)) = db q" for q
    using redis_netD [OF assms(1), of q] getKeysObjects_reads [OF assms(1), of keys]
    by (auto simp: on_server_def split: prod.splits link.splits redis_reply.splits) (metis snd_conv)+
  ultimately show ?thesis using redis_GetD [OF assms(1), of r] by auto
qed

lemma publish_unkept:
  "db_keys (add_published ch b d) = db_keys d"
  by (simp add: add_published_def)

text \<open>The two \<open>Publish\<close> methods are the same code.\<close>

lemma RedisSynk_Publish_same: "RedisSynk_Publish = MongoSynk_Publish"
  by (intro ext) (simp add: RedisSynk_Publish_def MongoSynk_Publish_def)

lemma Publish_sent:
  assumes "redis_behaves rd db" "MongoSynk_Publish rd ch p r = (Ret None, r')"
  shows "\<exists>b. payload_bytes p = Inr b \<and> db r' = add_published ch b (db r)"
proof -
  obtain r1 where get: "rd_Get rd r = (None, r1)" and body: "(case p of RawBytes b \<Rightarrow> publish_on rd ch b r1
      | GoValue v \<Rightarrow> (case marshal v of Inl e \<Rightarrow> (Some e, r1) | Inr b \<Rightarrow> publish_on rd ch b r1)) = (None, r')"
    using assms(2) by (auto simp: MongoSynk_Publish_def with_conn_Ret)
  have "db r1 = db r" using redis_GetD [OF assms(1), of r] get by simp
  with body show ?thesis
    by (cases p) (auto dest: publish_on_ok [OF assms(1)] split: sum.splits)
qed

lemma Publish_refused:
  assumes "redis_behaves rd db" "payload_bytes p = Inl err" "MongoSynk_Publish rd ch p r = (g, r')"
  shows "(g = Ret (Some err) \<or> (\<exists>q. g = Panic q)) \<and> db r' = db r"
  using assms(2,3) redis_GetD [OF assms(1), of r]
  by (cases p) (auto simp: MongoSynk_Publish_def with_conn_def split: prod.splits option.splits)

interpretation mongo_loader: loader mongo_loader_ok "\<lambda>e. MongoSynk_Loader creator (fst e) (snd e)"
proof (unfold_locales, goal_cases)
  case (1 e view kept keys w res w')
  then show ?case
    by (auto simp: mongo_loader_ok_def MongoSynk_Loader_def MongoSynk_Load_def Let_def epanic_def mongo_behaves_def
        split: prod.splits option.splits) (metis snd_conv)+
next
  case (2 e view kept ch p w w')
  then show ?case
    by (auto simp: mongo_loader_ok_def MongoSynk_Loader_def dest: Publish_sent split: prod.splits)
next
  case (3 e view kept p err ch w g w')
  then show ?case
    by (auto simp: mongo_loader_ok_def MongoSynk_Loader_def dest: Publish_refused split: prod.splits)
qed

interpretation redis_loader: loader redis_loader_ok "RedisSynk_Loader entity_ops"
proof (unfold_locales, goal_cases)
  case (1 e view kept keys w res w')
  then obtain db r where "redis_behaves (rsk_Pool e) db" "view = (\<lambda>w. db (sv_redis w))" "kept = (\<lambda>w. db_keys (db (sv_redis w)))"
      "RedisSynk_Load entity_ops (rsk_Constructor e) (rsk_Pool e) keys (sv_redis w) = (res, r)" "w' = w\<lparr>sv_redis := r\<rparr>"
    by (auto simp: redis_loader_ok_def RedisSynk_Loader_def split: prod.splits)
  with RedisSynk_Load_reads show ?case by fastforce
next
  case (2 e view kept ch p w w')
  then show ?case
    by (auto simp: redis_loader_ok_def RedisSynk_Loader_def RedisSynk_Publish_same publish_unkept dest: Publish_sent
        split: prod.splits)
next
  case (3 e view kept p err ch w g w')
  then show ?case
    by (auto simp: redis_loader_ok_def RedisSynk_Loader_def RedisSynk_Publish_same dest: Publish_refused
        split: prod.splits)
qed

section \<open>What browsers get of a published value\<close>

text \<open>What is left of a list without its opening bracket is not JSON.\<close>

lemma list_tail_no_json:
  assumes "wf_json (JArr (JObj ms # vs))"
  shows "json_parse (tl (render (JArr (JObj ms # vs)))) = None"
proof -
  let ?rest = "(if vs = [] then [] else CHR '','' # render_elems vs) @ '']''"
  have tail: "tl (render (JArr (JObj ms # vs))) = render (JObj ms) @ ?rest" by simp
  have "delimited ?rest" by simp
  then have "p_value (Suc (2 * length (render (JObj ms) @ ?rest))) (render (JObj ms) @ ?rest) = Some (JObj ms, ?rest)"
    using assms by (intro p_render(1)) (simp_all del: render.simps)
  moreover have "skip_ws ?rest \<noteq> []" by (simp add: skip_ws_def is_ws_def)
  ultimately show ?thesis unfolding json_parse_def tail by (simp del: render.simps)
qed

text \<open>
  C27: Publishing is for objects: when \<open>Publish\<close> returns nil for a value, through either back end, a
  browser subscribed to the channel gets a JSON object as it was published. It gets nothing of a null or
  of a truth value, and of a list of objects it gets the bytes after the opening bracket, which no JSON
  parser accepts, because \<open>Receive\<close> takes everything before the first brace for a header.
\<close>

theorem published_values:
  fixes view :: "('m, 'r) services \<Rightarrow> redis_db"
  assumes "mongo_loader_ok e view kept \<and> Loader_Publish (MongoSynk_Loader creator (fst e) (snd e)) ch (GoValue (Inr j)) w = (Ret None, w') \<or>
      redis_loader_ok rs view kept' \<and> Loader_Publish (RedisSynk_Loader entity_ops rs) ch (GoValue (Inr j)) w = (Ret None, w')"
    and "room 1 to" "subs ch \<noteq> None" "wf_json j"
  defines "received \<equiv> deliver_all subs (published_since (view w) (view w')) to"
  shows "case j of
      JObj ms \<Rightarrow> received = queued [render j] to
    | JArr (JObj ms # vs) \<Rightarrow> received = queued [tl (render j)] to \<and> json_parse (tl (render j)) = None
    | JBool b \<Rightarrow> received = to
    | JNull \<Rightarrow> received = to
    | _ \<Rightarrow> True"
proof -
  have obj: "received = queued [render j] to" if "j = JObj ms" for ms
    using mongo_loader.publish_object [OF _ _ assms(2), of e view kept ch ms w w' subs]
      redis_loader.publish_object [OF _ _ assms(2), of rs view kept' ch ms w w' subs] assms(1,3) that
    unfolding received_def by (auto simp del: render.simps)
  have arr: "received = queued [tl (render j)] to" if "j = JArr (JObj ms # vs)" for ms vs
    using mongo_loader.publish_list [OF _ _ assms(2), of e view kept ch ms vs w w' subs]
      redis_loader.publish_list [OF _ _ assms(2), of rs view kept' ch ms vs w w' subs] assms(1,3) that
    unfolding received_def by (auto simp del: render.simps)
  have none: "received = to" if "CHR ''{'' \<notin> set (render j)"
    using mongo_loader.publish_braceless [OF _ _ _ that, of e view kept ch "GoValue (Inr j)" w w' subs to]
      redis_loader.publish_braceless [OF _ _ _ that, of rs view kept' ch "GoValue (Inr j)" w w' subs to] assms(1)
    unfolding received_def by (auto simp del: render.simps)
  show ?thesis
    using obj arr none list_tail_no_json assms(4)
    by (cases j) (auto split: list.split json.split simp del: render.simps, simp_all)
qed

definition demo_services :: "((string \<times> entity) list, mem_db) services" where
  "demo_services = \<lparr>sv_rand = demo_rand, sv_mongo = [], sv_redis = mem_empty\<rparr>"

lemma published_values_witness:
  "\<exists>w'. Loader_Publish (MongoSynk_Loader creator mem_mongo mem_redis) ''k'' (GoValue (Inr (JArr [JObj []]))) demo_services = (Ret None, w') \<and>
     deliver_all [''k'' \<mapsto> True] (published_since (mem_view (sv_redis demo_services)) (mem_view (sv_redis w'))) (make_chan clientBufferLength) =
       queued [''{}]''] (make_chan clientBufferLength) \<and> json_parse ''{}]'' = None"
proof -
  let ?L = "Loader_Publish (MongoSynk_Loader creator mem_mongo mem_redis) ''k'' (GoValue (Inr (JArr [JObj []]))) demo_services"
  have ok: "mongo_loader_ok (mem_mongo, mem_redis) (\<lambda>w. mem_view (sv_redis w)) (\<lambda>w. map_of (sv_mongo w))"
    unfolding mongo_loader_ok_def using mem_redis_behaves mem_mongo_behaves by fastforce
  have call: "?L = (Ret None, snd ?L)"
    by (simp add: MongoSynk_Loader_def MongoSynk_Publish_def publish_on_def with_conn_def conn_Do_def on_server_def mem_redis_def demo_services_def)
  have room: "room 1 (make_chan clientBufferLength)" by (simp add: room_def make_chan_def clientBufferLength_def)
  have "wf_json (JArr [JObj []])" by simp
  from published_values [where e = "(mem_mongo, mem_redis)" and subs = "[''k'' \<mapsto> True]" and kept' = undefined and rs = undefined,
      OF disjI1 [OF conjI [OF ok]] room _ this, of "''k''" demo_services "snd ?L"] call
  show ?thesis by (intro exI [of _ "snd ?L"]) simp
qed

end
