(* ===== verification/Stores.thy ===== *)
theory Stores
  imports Loaders Object_Props
begin

text \<open>
  The other half of the contract of the interface \<open>Mutator\<close>: what has been written is there when it is
  loaded. The locale states it for the methods of a mutator; both back ends interpret it, each with its
  own idea of what is stored under a key and of what reading back preserves.
\<close>

section \<open>The contract\<close>

text \<open>
  \<open>holds v w k\<close> are the objects that a load of the key \<open>k\<close> returns in the state \<open>w\<close>, with \<open>v\<close> the
  reading of the services; \<open>reread x\<close> is what is left of an object that was written and read back.
  \<open>fresh\<close> and \<open>ready\<close> say which objects can be created and modified, \<open>sound\<close> what loading relies on.
\<close>

locale object_store = synk_object ops tag_of
  for ops :: "('o, 'd) object_ops" and tag_of :: "'o \<Rightarrow> tag" +
  fixes services_ok :: "'e \<Rightarrow> 'v \<Rightarrow> bool" and M :: "'e \<Rightarrow> ('o, 'w) Mutator"
    and fresh :: "'v \<Rightarrow> 'w \<Rightarrow> 'o \<Rightarrow> bool" and ready :: "'v \<Rightarrow> 'w \<Rightarrow> 'o \<Rightarrow> bool" and sound :: "'v \<Rightarrow> 'w \<Rightarrow> bool"
    and storable :: "'o \<Rightarrow> bool" and reread :: "'o \<Rightarrow> 'o" and holds :: "'v \<Rightarrow> 'w \<Rightarrow> string \<Rightarrow> 'o set"
  assumes create_holds: "services_ok e v \<Longrightarrow> fresh v w x \<Longrightarrow> Mutator_Create (M e) x w = (Ret None, x', w') \<Longrightarrow>
      storable x' \<Longrightarrow> reread x' \<in> holds v w' (obj_GetSubKey ops x')"
    and modify_holds: "services_ok e v \<Longrightarrow> ready v w x \<Longrightarrow> Mutator_Modify (M e) x w = (Ret None, x', w') \<Longrightarrow>
      storable x' \<Longrightarrow> reread x' \<in> holds v w' (obj_GetSubKey ops x')"
    and load_holds: "services_ok e v \<Longrightarrow> sound v w \<Longrightarrow> Mutator_Load (M e) keys w = (Ret (objs, None), w') \<Longrightarrow>
      set objs = (\<Union>k \<in> set keys. holds v w k)"
begin

lemma create_loads:
  assumes "services_ok e v" "fresh v w x" "Mutator_Create (M e) x w = (Ret None, x', w1)" "storable x'" "sound v w1"
    and "Mutator_Load (M e) keys w1 = (Ret (objs, None), w2)" "obj_GetSubKey ops x' \<in> set keys"
  shows "reread x' \<in> set objs"
  using create_holds [OF assms(1-4)] load_holds [OF assms(1,5,6)] assms(7) by blast

lemma modify_loads:
  assumes "services_ok e v" "ready v w x" "Mutator_Modify (M e) x w = (Ret None, x', w1)" "storable x'" "sound v w1"
    and "Mutator_Load (M e) keys w1 = (Ret (objs, None), w2)" "obj_GetSubKey ops x' \<in> set keys"
  shows "reread x' \<in> set objs"
  using modify_holds [OF assms(1-4)] load_holds [OF assms(1,5,6)] assms(7) by blast

end

section \<open>MongoDB\<close>

definition mongo_store_ok :: "('m, entity, 'raw) mongo \<times> 'r redis \<Rightarrow> ('m \<Rightarrow> string \<rightharpoonup> entity) \<Rightarrow> bool" where
  "mongo_store_ok e docs \<longleftrightarrow> mongo_behaves entity_ops entity_tag creator entity_stored (fst e) docs \<and>
     (\<exists>db. redis_behaves (snd e) db)"

definition mongo_holds :: "('m \<Rightarrow> string \<rightharpoonup> entity) \<Rightarrow> ('m, 'r) services \<Rightarrow> string \<Rightarrow> entity set" where
  "mongo_holds docs w k = {y. \<exists>i. docs (sv_mongo w) i = Some y \<and> TagSub (entity_tag y) = k}"

definition mongo_sound :: "('m \<Rightarrow> string \<rightharpoonup> entity) \<Rightarrow> ('m, 'r) services \<Rightarrow> bool" where
  "mongo_sound docs w \<longleftrightarrow> (\<forall>i x. docs (sv_mongo w) i = Some x \<longrightarrow> TagType (entity_tag x) = obj_TypeKey entity_ops x)"

lemma creator_of_type: "creator (obj_TypeKey entity_ops x) \<noteq> None"
  by (cases x) (simp_all add: entity_ops_def Human_ops_def Orc_ops_def Human_TypeKey_def Orc_TypeKey_def)

interpretation mongo_store: object_store entity_ops entity_tag mongo_store_ok
  "\<lambda>e. MongoSynk_Mutator entity_ops creator (fst e) (snd e)" "\<lambda>_ _ _. True" "\<lambda>_ _ x. sub_agrees entity_ops entity_tag x"
  mongo_sound "\<lambda>_. True" entity_stored mongo_holds
proof (unfold_locales, goal_cases)
  case (1 e docs w x x' w')
  then obtain db s where "redis_behaves (snd e) db" "mongo_behaves entity_ops entity_tag creator entity_stored (fst e) docs"
      "MongoSynk_Create entity_ops (fst e) (snd e) (mstate_of x w) = (Ret None, s)" "x' = ms_obj s" "sv_mongo w' = ms_mongo s"
    by (auto simp: mongo_store_ok_def on_mstate_eq)
  note call = Create_Ret [OF this(1-3)] and x' = this(4,5)
  have obj: "x' = created_obj entity_ops x (sv_rand w)" and doc: "docs (sv_mongo w') (obj_TagGetID entity_ops x') = Some (entity_stored x')"
    using call x' by auto
  have "TagSub (entity_tag x') = obj_GetSubKey entity_ops x'"
    using entity.created_keys [of x "sv_rand w"] by (simp add: obj sub_agrees_def)
  with doc show ?case by (auto simp: mongo_holds_def entity_db.stored_tag)
next
  case (2 e docs w x x' w')
  then obtain db s where "redis_behaves (snd e) db" "mongo_behaves entity_ops entity_tag creator entity_stored (fst e) docs"
      "MongoSynk_Modify entity_ops (fst e) (snd e) (mstate_of x w) = (Ret None, s)" "x' = ms_obj s" "sv_mongo w' = ms_mongo s"
    by (auto simp: mongo_store_ok_def on_mstate_eq)
  note call = Modify_Ret [OF this(1-3)] and x' = this(4,5)
  have obj: "x' = modified_obj entity_ops x" and doc: "docs (sv_mongo w') (obj_TagGetID entity_ops x) = Some (entity_stored x')"
    using call x' by auto
  have "TagSub (entity_tag x') = obj_GetSubKey entity_ops x'"
    using entity.modified_agrees [OF 2(2)] entity.modified_keys [of x] by (simp add: obj sub_agrees_def)
  with doc show ?case by (auto simp: mongo_holds_def entity_db.stored_tag)
next
  case (3 e docs w keys objs w')
  then obtain m where load: "MongoSynk_Load creator (fst e) keys (sv_mongo w) = (Ret (objs, None), m)"
    by (auto simp: MongoSynk_Mutator_Load)
  have typed: "\<forall>i x. docs (sv_mongo w) i = Some x \<longrightarrow> TagType (entity_tag x) = obj_TypeKey entity_ops x"
    using 3(2) by (simp add: mongo_sound_def)
  have "mongo_behaves entity_ops entity_tag creator entity_stored (fst e) docs" using 3(1) by (simp add: mongo_store_ok_def)
  from Load_Ret [OF this entity_creator_ok typed load] obtain ids where
    objs: "objs = map (\<lambda>i. the (docs (sv_mongo w) i)) ids"
    and ids: "set ids = {i \<in> ids_with_sub entity_tag (docs (sv_mongo w)) keys. creator (TagType (entity_tag (the (docs (sv_mongo w) i)))) \<noteq> None}"
    by blast
  have "i \<in> set ids \<longleftrightarrow> (\<exists>y. docs (sv_mongo w) i = Some y \<and> TagSub (entity_tag y) \<in> set keys)" for i
    using typed creator_of_type unfolding ids ids_with_sub_def by (auto simp del: creator.simps)
  then show ?case by (force simp: objs mongo_holds_def)
qed

section \<open>Redis\<close>

text \<open>What the JSON of an object restores in a new container: not the tag of a \<open>Human\<close>.\<close>

fun redis_reread :: "entity \<Rightarrow> entity" where
  "redis_reread (EHuman h) = EHuman (h\<lparr>hTag := empty_tag, hdiff := no_human_diff\<rparr>)"
| "redis_reread (EOrc x) = EOrc (x\<lparr>odiff := no_orc_diff\<rparr>)"

fun redis_storable :: "entity \<Rightarrow> bool" where
  "redis_storable (EHuman h) = valid_utf8 (hMapID h)"
| "redis_storable (EOrc x) = list_all valid_utf8 [TagID (oTag x), TagSub (oTag x), TagType (oTag x), oID x, oSubKey x, oName x]"

definition redis_holds :: "('r \<Rightarrow> redis_db) \<Rightarrow> ('m, 'r) services \<Rightarrow> string \<Rightarrow> entity set" where
  "redis_holds db w k = {x. \<exists>rKey \<in> set_at (db (sv_redis w)) k.
     decode_stored entity_ops creator (rKey, reply_text (bulk_of (db (sv_redis w)) rKey)) = (None, x)}"

text \<open>The object's key is a member of exactly the set of its subscription key.\<close>

definition redis_ready :: "('r \<Rightarrow> redis_db) \<Rightarrow> ('m, 'r) services \<Rightarrow> entity \<Rightarrow> bool" where
  "redis_ready db w x \<longleftrightarrow> CHR '':'' \<notin> set (obj_TagGetID entity_ops x) \<and>
     tracked (db (sv_redis w)) (redisKey entity_ops x) (obj_GetPrevSubKey entity_ops x) \<and>
     \<not> holds_string (db (sv_redis w)) (obj_GetSubKey entity_ops x)"

lemma redis_decodes:
  assumes "redis_storable x" "marshal (obj_MarshalObj entity_ops x) = Inr j" "container_key k = obj_TypeKey entity_ops x"
  shows "decode_stored entity_ops creator (k, j) = (None, redis_reread x)"
proof (cases x)
  case (EHuman h)
  with assms show ?thesis
    using human_json_drops_tag [of h new_human]
    by (simp add: decode_stored_def entity_ops_def Human_ops_def Human_TypeKey_def new_human_def del: valid_utf8.simps)
next
  case (EOrc y)
  with assms show ?thesis
    using orc_json_roundtrip [of y new_orc]
    by (simp add: decode_stored_def entity_ops_def Orc_ops_def Orc_TypeKey_def new_orc_def del: valid_utf8.simps)
qed

text \<open>A load that reports no error found a container for every key.\<close>

lemma request_loop_containers:
  "request_loop ops mk kvs results err = (xs, None) \<Longrightarrow> kv \<in> set kvs \<Longrightarrow> mk (container_key (fst kv)) \<noteq> None"
  by (induction ops mk kvs results err rule: request_loop.induct) (auto split: option.splits prod.splits)

lemma redis_load_objects:
  assumes "redis_behaves rd db" "RedisSynk_Load ops mk rd keys r = (Ret (objs, None), r')"
  shows "set objs = {x. \<exists>k \<in> (\<Union>s \<in> set keys. set_at (db r) s). decode_stored ops mk (k, reply_text (bulk_of (db r) k)) = (None, x)}"
proof -
  obtain ks vals r1 where r1: "rd_Get rd r = (None, r1)" and slices: "RedisRequestByteSlices rd keys r1 = (Ret (ks, vals, None), r')"
    and loop: "request_loop ops mk (zip ks vals) [] None = (objs, None)"
    using assms(2) by (auto simp: RedisSynk_Load_def RedisRequestObjects_def split: go.splits prod.splits option.splits)
  have same: "db r1 = db r" using redis_GetD [OF assms(1), of r] r1 by simp
  note ok = RedisRequestByteSlices_ok [OF assms(1) slices, unfolded same]
  have "objs = map snd (filter (\<lambda>d. fst d = None) (map (decode_stored ops mk) (zip ks vals)))"
    using loop request_loop_eq [of "zip ks vals" mk ops "[]" None] request_loop_containers [OF loop] by simp
  moreover have "zip ks vals = map (\<lambda>k. (k, reply_text (bulk_of (db r) k))) ks"
    using ok by (simp add: zip_map2 zip_same_conv_map)
  ultimately have "set objs = {x. \<exists>k \<in> set ks. decode_stored ops mk (k, reply_text (bulk_of (db r) k)) = (None, x)}"
    by (auto simp: image_iff) (metis prod.collapse snd_conv)+
  with ok show ?thesis by simp
qed

text \<open>What the two writing operations leave under the key of the object.\<close>

lemma redis_holdsI:
  assumes "rKey \<in> set_at (db (sv_redis w)) k" "db_keys (db (sv_redis w)) rKey = Some (StrVal j)"
    and "redis_storable x" "marshal (obj_MarshalObj entity_ops x) = Inr j" "container_key rKey = obj_TypeKey entity_ops x"
  shows "redis_reread x \<in> redis_holds db w k"
  using redis_decodes [OF assms(3-5)] assms(1,2) by (auto simp: redis_holds_def bulk_of_def intro!: bexI [of _ rKey])

lemma redis_create_stores:
  assumes "redis_behaves rd db" "redisNewObject entity_ops rd s = (None, s')" "CHR '':'' \<notin> set (obj_TagGetID entity_ops (rs_obj s))"
  shows "\<exists>rKey j. rKey \<in> set_at (db (rs_redis s')) (obj_GetSubKey entity_ops (rs_obj s')) \<and>
    db_keys (db (rs_redis s')) rKey = Some (StrVal j) \<and> marshal (obj_MarshalObj entity_ops (rs_obj s')) = Inr j \<and>
    container_key rKey = obj_TypeKey entity_ops (rs_obj s')"
proof -
  note ok = redisNewObject_ok [OF assms(1,2)]
  have same: "obj_GetSubKey entity_ops (rs_obj s') = obj_GetSubKey entity_ops (rs_obj s)"
      "obj_TypeKey entity_ops (rs_obj s') = obj_TypeKey entity_ops (rs_obj s)"
    using ok by (simp_all add: created_obj_def Let_def entity_OnCreate entity.laws)
  show ?thesis
    unfolding same using ok container_key_join [OF assms(3), of "obj_TypeKey entity_ops (rs_obj s)"]
    by - (rule exI [of _ "redisKey entity_ops (rs_obj s)"], auto simp: redisKey_def)
qed

lemma redis_modify_stores:
  assumes "redis_behaves rd db" "redisModObject entity_ops rd s = (None, s')"
    and "CHR '':'' \<notin> set (obj_TagGetID entity_ops (rs_obj s))"
    and "tracked (db (rs_redis s)) (redisKey entity_ops (rs_obj s)) (obj_GetPrevSubKey entity_ops (rs_obj s))"
    and "\<not> holds_string (db (rs_redis s)) (obj_GetSubKey entity_ops (rs_obj s))"
  shows "\<exists>rKey j. rKey \<in> set_at (db (rs_redis s')) (obj_GetSubKey entity_ops (rs_obj s')) \<and>
    db_keys (db (rs_redis s')) rKey = Some (StrVal j) \<and> marshal (obj_MarshalObj entity_ops (rs_obj s')) = Inr j \<and>
    container_key rKey = obj_TypeKey entity_ops (rs_obj s')"
proof -
  let ?x = "rs_obj s" and ?k = "redisKey entity_ops (rs_obj s)" and ?n = "obj_GetSubKey entity_ops (rs_obj s)"
  have neq: "?n \<noteq> ?k" using assms(4,5) by (metis tracked_def)
  note ok = redisModObject_ok [OF assms(1,2)]
  have obj: "rs_obj s' = snd (obj_Resolve entity_ops ?x)" using ok by blast
  have same: "obj_GetSubKey entity_ops (rs_obj s') = ?n" "obj_TypeKey entity_ops (rs_obj s') = obj_TypeKey entity_ops ?x"
    by (simp_all add: obj entity.laws)
  have "\<exists>j. ?k \<in> set_at (db (rs_redis s')) ?n \<and> db_keys (db (rs_redis s')) ?k = Some (StrVal j) \<and>
      marshal (obj_MarshalObj entity_ops (rs_obj s')) = Inr j"
  proof (cases "?n = obj_GetPrevSubKey entity_ops ?x")
    case True
    with ok neq assms(5) show ?thesis unfolding obj by (auto simp: if_P [OF True])
  next
    case False
    with ok neq assms(5) show ?thesis unfolding obj by (auto simp: if_not_P [OF False])
  qed
  with container_key_join [OF assms(3), of "obj_TypeKey entity_ops ?x"] show ?thesis
    unfolding same by (auto simp: redisKey_def)
qed

interpretation redis_store: object_store entity_ops entity_tag
  "\<lambda>rs db. redis_behaves (rsk_Pool rs) db \<and> rsk_Constructor rs = creator" "RedisSynk_Mutator entity_ops"
  "\<lambda>_ _ x. CHR '':'' \<notin> set (obj_TagGetID entity_ops x)" redis_ready "\<lambda>_ _. True" redis_storable redis_reread redis_holds
proof (unfold_locales, goal_cases)
  case (1 rs db w x x' w')
  then obtain r1 s where s: "redisNewObject entity_ops (rsk_Pool rs) (rstate_of x w\<lparr>rs_redis := r1\<rparr>) = (None, s)" "x' = rs_obj s" "sv_redis w' = rs_redis s"
    by (auto simp: on_rstate_eq RedisSynk_Create_def on_conn_Ret)
  then have "CHR '':'' \<notin> set (obj_TagGetID entity_ops (rs_obj (rstate_of x w\<lparr>rs_redis := r1\<rparr>)))" using 1(2) by simp
  from redis_create_stores [OF _ s(1) this, of db] 1(1,4) s(2,3) show ?case
    by (auto intro: redis_holdsI)
next
  case (2 rs db w x x' w')
  then obtain r1 s where s: "redisModObject entity_ops (rsk_Pool rs) (rstate_of x w\<lparr>rs_redis := r1\<rparr>) = (None, s)" "x' = rs_obj s" "sv_redis w' = rs_redis s"
      and r1: "rd_Get (rsk_Pool rs) (sv_redis w) = (None, r1)"
    by (auto simp: on_rstate_eq RedisSynk_Modify_def on_conn_Ret)
  have same: "db r1 = db (sv_redis w)" using redis_GetD [of "rsk_Pool rs" db "sv_redis w"] 2(1) r1 by simp
  from redis_modify_stores [OF _ s(1), of db] 2(1,2,4) s(2,3) same show ?case
    by (auto simp: redis_ready_def intro: redis_holdsI)
next
  case (3 rs db w keys objs w')
  then have "RedisSynk_Load entity_ops creator (rsk_Pool rs) keys (sv_redis w) = (Ret (objs, None), sv_redis w')"
    by (auto simp: RedisSynk_Mutator_Load)
  from redis_load_objects [of "rsk_Pool rs" db, OF _ this] 3(1) show ?case by (auto simp: redis_holds_def)
qed

section \<open>Properties\<close>

lemma redis_reread_shows:
  "obj_State entity_ops (redis_reread x) = obj_State entity_ops x"
  "obj_TypeKey entity_ops (redis_reread x) = obj_TypeKey entity_ops x"
  "obj_TagGetID entity_ops (redis_reread x) = (case x of EHuman _ \<Rightarrow> '''' | EOrc _ \<Rightarrow> obj_TagGetID entity_ops x)"
  "obj_Version entity_ops (redis_reread x) = (case x of EHuman _ \<Rightarrow> 0 | EOrc _ \<Rightarrow> obj_Version entity_ops x)"
  by (cases x; simp add: entity_ops_def Human_ops_def Orc_ops_def Human_State_def Orc_State_def Human_TypeKey_def
      Orc_TypeKey_def tag_defs empty_tag_def)+

text \<open>
  C26: Write, then read through Redis: an object that \<open>RedisSynk\<close> has created or modified without an
  error is among the objects of the next load of its subscription key that reports no error, with its
  state as it was written. An \<open>Orc\<close> has kept identifier and version as well; a \<open>Human\<close> has lost both,
  so whatever is done with it next is about an object without a name.
\<close>

theorem redis_write_read:
  fixes rs :: "(entity, 'r) RedisSynk" and w :: "('m, 'r) services"
  assumes "redis_behaves (rsk_Pool rs) db" "rsk_Constructor rs = creator"
    and "Mutator_Create (RedisSynk_Mutator entity_ops rs) x w = (Ret None, x', w') \<and> CHR '':'' \<notin> set (obj_TagGetID entity_ops x) \<or>
      Mutator_Modify (RedisSynk_Mutator entity_ops rs) x w = (Ret None, x', w') \<and> redis_ready db w x"
    and "redis_storable x'" "Mutator_Load (RedisSynk_Mutator entity_ops rs) keys w' = (Ret (objs, None), w'')"
    and "obj_GetSubKey entity_ops x' \<in> set keys"
  shows "\<exists>y \<in> set objs. obj_State entity_ops y = obj_State entity_ops x' \<and> obj_TypeKey entity_ops y = obj_TypeKey entity_ops x' \<and>
    obj_TagGetID entity_ops y = (case x' of EHuman _ \<Rightarrow> '''' | EOrc _ \<Rightarrow> obj_TagGetID entity_ops x') \<and>
    obj_Version entity_ops y = (case x' of EHuman _ \<Rightarrow> 0 | EOrc _ \<Rightarrow> obj_Version entity_ops x')"
proof -
  have "redis_reread x' \<in> set objs"
    using redis_store.create_loads [OF conjI [OF assms(1,2)] _ _ assms(4) _ assms(5,6), of x w]
      redis_store.modify_loads [OF conjI [OF assms(1,2)] _ _ assms(4) _ assms(5,6), of w x] assms(3)
    by blast
  then show ?thesis by (intro bexI [of _ "redis_reread x'"]) (simp_all add: redis_reread_shows)
qed

definition demo_RedisSynk :: "(entity, mem_db) RedisSynk" where
  "demo_RedisSynk = \<lparr>rsk_Pool = mem_redis, rsk_Constructor = creator\<rparr>"

text \<open>A human that is created and loaded again.\<close>

definition demo_written :: "error option go \<times> entity \<times> ((string \<times> entity) list, mem_db) services" where
  "demo_written = Mutator_Create (RedisSynk_Mutator entity_ops demo_RedisSynk) (EHuman demo_human) demo_services"

lemma demo_written_facts:
  "fst demo_written = Ret None" "redis_storable (fst (snd demo_written))" "obj_TagGetID entity_ops (fst (snd demo_written)) = ''a!''"
  "obj_GetSubKey entity_ops (fst (snd demo_written)) = ''m:0|0''" "obj_TypeKey entity_ops (fst (snd demo_written)) = ''c:h''"
  "(case fst (Mutator_Load (RedisSynk_Mutator entity_ops demo_RedisSynk) [''m:0|0''] (snd (snd demo_written))) of
     Ret (_, None) \<Rightarrow> True | _ \<Rightarrow> False)"
  by code_simp+

lemma redis_write_read_witness:
  "\<exists>x' w' objs w'' y. Mutator_Create (RedisSynk_Mutator entity_ops demo_RedisSynk) (EHuman demo_human) demo_services = (Ret None, x', w') \<and>
     obj_TagGetID entity_ops x' = ''a!'' \<and> Mutator_Load (RedisSynk_Mutator entity_ops demo_RedisSynk) [''m:0|0''] w' = (Ret (objs, None), w'') \<and>
     y \<in> set objs \<and> obj_State entity_ops y = obj_State entity_ops x' \<and> obj_TagGetID entity_ops y = ''''"
proof -
  obtain x' w' where c: "demo_written = (Ret None, x', w')"
    using demo_written_facts(1) by (metis prod.collapse)
  note facts = demo_written_facts [unfolded c fst_conv snd_conv]
  obtain objs w'' where l: "Mutator_Load (RedisSynk_Mutator entity_ops demo_RedisSynk) [''m:0|0''] w' = (Ret (objs, None), w'')"
    using facts(6) by (cases "Mutator_Load (RedisSynk_Mutator entity_ops demo_RedisSynk) [''m:0|0''] w'")
      (auto split: go.splits option.splits prod.splits)
  have call: "Mutator_Create (RedisSynk_Mutator entity_ops demo_RedisSynk) (EHuman demo_human) demo_services = (Ret None, x', w')"
    using c by (simp only: demo_written_def)
  have id: "CHR '':'' \<notin> set (obj_TagGetID entity_ops (EHuman demo_human))" by code_simp
  have rs: "redis_behaves (rsk_Pool demo_RedisSynk) mem_view" "rsk_Constructor demo_RedisSynk = creator"
    by (simp_all add: demo_RedisSynk_def mem_redis_behaves)
  have key: "obj_GetSubKey entity_ops x' \<in> set [''m:0|0'']" using facts(4) by simp
  obtain h where h: "x' = EHuman h"
    using facts(5) by (cases x') (simp_all add: entity_ops_def Orc_ops_def Orc_TypeKey_def)
  from redis_write_read [OF rs disjI1 [OF conjI [OF call id]] facts(2) l key] obtain y where
    y: "y \<in> set objs" "obj_State entity_ops y = obj_State entity_ops x'"
    "obj_TagGetID entity_ops y = (case x' of EHuman _ \<Rightarrow> '''' | EOrc _ \<Rightarrow> obj_TagGetID entity_ops x')" by blast
  show ?thesis
    by (intro exI conjI) (rule call, rule facts(3), rule l, rule y(1), rule y(2), use y(3) h in simp)
qed

end
