(* ===== verification/Human_Test.thy ===== *)
theory Human_Test
  imports Stores
begin

text \<open>
  \<open>stest/char_test.go\<close>: the test of the repository, \<open>TestHuman_GetSubKey\<close>, as a function of the mutator
  it runs against. The source makes a \<open>MongoSynk\<close> from the connections of \<open>Node.go\<close>; the interface
  allows any other back end.
\<close>

section \<open>The test\<close>

text \<open>How the test ends: a panic, \<open>t.Error\<close>, or passing, with what it printed about deep equality.\<close>

datatype test_result = TestPanic string | TestError string | TestPass bool

definition stest_epanic :: "string \<Rightarrow> error option \<Rightarrow> string option" where
  "stest_epanic message err = map_option (\<lambda>e. message @ e) err"

text \<open>
  \<open>reflect.DeepEqual\<close> on two pointers to structs compares the structs, and the targets of pointers in
  them; the values of the model are equal exactly then.
\<close>

definition DeepEqual :: "entity \<Rightarrow> entity \<Rightarrow> bool" where
  "DeepEqual o2 obj \<longleftrightarrow> o2 = obj"

text \<open>The loop over the loaded objects; it stops at the first one with the identifier.\<close>

fun find_loop :: "entity list \<Rightarrow> entity \<Rightarrow> bool option" where
  "find_loop [] h = None"
| "find_loop (obj # objs) h =
     (if obj_TagGetID entity_ops obj = obj_TagGetID entity_ops h then Some (DeepEqual h obj) else find_loop objs h)"

definition test_human :: human where
  "test_human = Human_SetCI 9 (Human_SetCX (- 1) (Human_SetX (- 1) (Human_SetMapID ''000a'' new_human)))"

fun step_down :: "entity \<Rightarrow> entity" where
  "step_down (EHuman h) = EHuman (Human_SetY (Human_GetY h + 1) h)"
| "step_down (EOrc x) = EOrc x"

definition TestHuman_GetSubKey :: "(entity, 'w) Mutator \<Rightarrow> 'w \<Rightarrow> test_result \<times> 'w" where
  "TestHuman_GetSubKey ms w =
     (case Mutator_Create ms (EHuman test_human) w of
        (Panic p, _, w1) \<Rightarrow> (TestPanic p, w1)
      | (Ret _, h1, w1) \<Rightarrow>
          (case Mutator_Modify ms (step_down h1) w1 of
             (Panic p, _, w2) \<Rightarrow> (TestPanic p, w2)
           | (Ret _, h2, w2) \<Rightarrow>
               (case Mutator_Load ms [obj_GetSubKey entity_ops h2] w2 of
                  (Panic p, w3) \<Rightarrow> (TestPanic p, w3)
                | (Ret (objects, err), w3) \<Rightarrow>
                    (case stest_epanic ''Error loading synk Objects:'' err of
                       Some p \<Rightarrow> (TestPanic p, w3)
                     | None \<Rightarrow>
                         (case find_loop objects h2 of
                            Some equal \<Rightarrow> (TestPass equal, w3)
                          | None \<Rightarrow> (TestError (''coulnd not find object in results with id:'' @ obj_TagGetID entity_ops h2), w3))))))"

section \<open>Lemmas\<close>

lemma find_loop_found:
  assumes "h \<in> set objs" "\<And>y. y \<in> set objs \<Longrightarrow> obj_TagGetID entity_ops y = obj_TagGetID entity_ops h \<Longrightarrow> y = h"
  shows "find_loop objs h = Some True"
  using assms
proof (induction objs)
  case (Cons y objs)
  then show ?case by (cases "obj_TagGetID entity_ops y = obj_TagGetID entity_ops h") (auto simp: DeepEqual_def)
qed simp

lemma find_loop_True: "find_loop objs h = Some True \<Longrightarrow> h \<in> set objs"
  by (induction objs) (auto simp: DeepEqual_def split: if_splits)

lemma step_down_frame:
  "entity_tag (step_down x) = entity_tag x" "obj_GetPrevSubKey entity_ops (step_down x) = obj_GetPrevSubKey entity_ops x"
  "obj_GetSubKey entity_ops (step_down x) = obj_GetSubKey entity_ops x" "obj_TypeKey entity_ops (step_down x) = obj_TypeKey entity_ops x"
  by (cases x; simp add: entity_ops_def Human_ops_def Human_key_defs Human_get_defs Human_SetY_def cong: option.case_cong)+

text \<open>A resolved object has nothing that a document would lose.\<close>

lemma resolved_stored: "entity_stored (modified_obj entity_ops x) = modified_obj entity_ops x"
proof -
  have res: "entity_stored (snd (obj_Resolve entity_ops y)) = snd (obj_Resolve entity_ops y)" for y
    by (cases y) (simp_all add: entity_ops_def Human_ops_def Orc_ops_def Human_Resolve_def Orc_Resolve_def Let_def)
  have sub: "entity_stored (obj_TagSetSub entity_ops k y) = obj_TagSetSub entity_ops k y" if "entity_stored y = y" for k y
  proof (cases y)
    case (EHuman h)
    with that have "hdiff h = no_human_diff" by (metis entity.inject(1) entity_stored.simps(1) human.select_convs(8) human.surjective human.update_convs(8))
    then show ?thesis by (simp add: EHuman entity_ops_def Human_ops_def)
  next
    case (EOrc x)
    with that have "odiff x = no_orc_diff" by (metis entity.inject(2) entity_stored.simps(2) orc.select_convs(5) orc.surjective orc.update_convs(5))
    then show ?thesis by (simp add: EOrc entity_ops_def Orc_ops_def)
  qed
  from res sub show ?thesis by (simp add: modified_obj_def Let_def)
qed

lemma created_type: "obj_TypeKey entity_ops (created_obj entity_ops x r) = obj_TypeKey entity_ops x"
  by (simp add: created_obj_def Let_def entity_OnCreate entity.laws)

lemma created_tag:
  "TagType (entity_tag x) = '''' \<Longrightarrow> TagType (entity_tag (created_obj entity_ops x r)) = obj_TypeKey entity_ops x"
  "TagID (entity_tag (created_obj entity_ops x r)) \<noteq> ''''"
  using NewID_no_special(3) by (simp_all add: created_obj_def Let_def entity_OnCreate entity.laws tag_defs(3,5))

lemma modified_tag_frame: "TagType (entity_tag (modified_obj entity_ops x)) = TagType (entity_tag x)"
  by (simp add: modified_obj_def Let_def entity.laws tag_defs)

lemma test_human_type: "TagType (entity_tag (EHuman test_human)) = ''''" "obj_TypeKey entity_ops (EHuman test_human) = ''c:h''"
  by (simp_all add: test_human_def new_human_def empty_tag_def entity_ops_def Human_ops_def Human_TypeKey_def Human_set_defs)

text \<open>What a creation and a modification keep of a collection that loading relies on.\<close>

lemma mongo_sound_write:
  assumes "mongo_sound docs w" "docs (sv_mongo w') = (docs (sv_mongo w))(i \<mapsto> entity_stored x)"
    and "TagType (entity_tag x) = obj_TypeKey entity_ops x"
  shows "mongo_sound docs w'"
  using assms by (auto simp: mongo_sound_def entity_db.stored_tag entity_db.stored_type)

lemma test_on_mongo:
  fixes w :: "('m, 'r) services"
  assumes "mongo_behaves entity_ops entity_tag creator entity_stored mg docs" "redis_behaves rd db"
    and "coll_ok entity_ops entity_tag (docs (sv_mongo w))" "mongo_sound docs w"
    and create: "Mutator_Create (MongoSynk_Mutator entity_ops creator mg rd) (EHuman test_human) w = (Ret e1, h1, w1)"
    and modify: "Mutator_Modify (MongoSynk_Mutator entity_ops creator mg rd) (step_down h1) w1 = (Ret e2, h2, w2)"
    and load: "Mutator_Load (MongoSynk_Mutator entity_ops creator mg rd) [obj_GetSubKey entity_ops h2] w2 = (Ret (objs, err), w3)"
  shows "err = None \<and> find_loop objs h2 = Some True"
proof -
  obtain s1 where c: "MongoSynk_Create entity_ops mg rd (mstate_of (EHuman test_human) w) = (Ret e1, s1)"
      "h1 = ms_obj s1" "sv_rand w1 = ms_rand s1" "sv_mongo w1 = ms_mongo s1" "sv_redis w1 = ms_redis s1"
    using create by (auto simp: on_mstate_eq)
  obtain s2 where m: "MongoSynk_Modify entity_ops mg rd (mstate_of (step_down h1) w1) = (Ret e2, s2)"
      "h2 = ms_obj s2" "sv_mongo w2 = ms_mongo s2"
    using modify by (auto simp: on_mstate_eq)
  have C: "ms_obj s1 = created_obj entity_ops (EHuman test_human) (sv_rand w)"
      "docs (ms_mongo s1) = (docs (sv_mongo w))(obj_TagGetID entity_ops (ms_obj s1) \<mapsto> entity_stored (ms_obj s1))"
    using Create_Ret [OF assms(2,1) c(1)] by (elim conjE, simp)+
  have Mo: "e2 = None" "ms_obj s2 = modified_obj entity_ops (step_down h1)"
      "docs (ms_mongo s2) = (docs (sv_mongo w1))(obj_TagGetID entity_ops (step_down h1) \<mapsto> entity_stored (ms_obj s2))"
    using Modify_Ret [OF assms(2,1) m(1)] by (elim conjE, simp)+
  have h1: "h1 = created_obj entity_ops (EHuman test_human) (sv_rand w)" by (simp only: c(2) C(1))
  have h2: "h2 = modified_obj entity_ops (step_down h1)" by (simp only: m(2) Mo(2))
  have agrees: "sub_agrees entity_ops entity_tag (step_down h1)"
    using entity.created_keys(2) [of "EHuman test_human" "sv_rand w"] by (simp add: sub_agrees_def step_down_frame h1)
  have typed: "TagType (entity_tag h1) = obj_TypeKey entity_ops h1"
    using created_tag(1) [OF test_human_type(1)] by (simp add: h1 created_type)
  have coll1: "coll_ok entity_ops entity_tag (docs (sv_mongo w1))"
    using entity_db.Create_coll_ok [OF assms(2,1) c(1)] assms(3) c(4) by simp
  then have coll2: "coll_ok entity_ops entity_tag (docs (sv_mongo w2))"
    using entity_db.Modify_coll_ok [OF assms(2,1) m(1)] agrees m(3) by simp
  have "docs (sv_mongo w1) = (docs (sv_mongo w))(obj_TagGetID entity_ops h1 \<mapsto> entity_stored h1)"
    by (simp only: c(2,4) C(2))
  from mongo_sound_write [OF assms(4) this typed] have sound1: "mongo_sound docs w1" .
  have D2: "docs (sv_mongo w2) = (docs (sv_mongo w1))(obj_TagGetID entity_ops (step_down h1) \<mapsto> entity_stored h2)"
    by (simp only: m(2,3) Mo(3))
  have "TagType (entity_tag h2) = obj_TypeKey entity_ops h2"
    using typed by (simp add: h2 modified_tag_frame entity.modified_frame step_down_frame)
  from mongo_sound_write [OF sound1 D2 this] have sound2: "mongo_sound docs w2" .
  have err: "err = None" using load by (auto simp: MongoSynk_Mutator_Load MongoSynk_Load_def split: prod.splits option.splits)
  have ok: "mongo_store_ok (mg, rd) docs" using assms(1,2) by (auto simp: mongo_store_ok_def)
  have stored: "entity_stored h2 = h2" by (simp add: h2 resolved_stored)
  have found: "h2 \<in> set objs"
    using mongo_store.modify_loads [OF ok agrees _ _ sound2, unfolded fst_conv snd_conv, OF modify [unfolded Mo(1)] _ load [unfolded err]]
    by (simp add: stored)
  have id: "obj_TagGetID entity_ops h2 = obj_TagGetID entity_ops (step_down h1)" by (simp add: h2 entity.modified_frame)
  have "y = h2" if y: "y \<in> set objs" "obj_TagGetID entity_ops y = obj_TagGetID entity_ops h2" for y
  proof -
    obtain i where "docs (sv_mongo w2) i = Some y"
      using mongo_store.load_holds [OF ok sound2, unfolded fst_conv snd_conv, OF load [unfolded err]] y(1)
      by (auto simp: mongo_holds_def)
    moreover from this have "i = obj_TagGetID entity_ops y" using coll2 by (simp add: coll_ok_def entity.get_id)
    ultimately have "docs (sv_mongo w2) (obj_TagGetID entity_ops (step_down h1)) = Some y" by (simp only: y(2) id)
    then show ?thesis unfolding D2 by (simp add: stored)
  qed
  from find_loop_found [OF found this] err show ?thesis by (rule conjI [rotated])
qed

section \<open>The other back end\<close>

text \<open>Decoding keeps whatever the setters of the fields keep.\<close>

lemma decode_members_keep:
  assumes "\<And>n j x. P x \<Longrightarrow> P (snd (set_field n j x))"
  shows "P x \<Longrightarrow> P (snd (decode_members names set_field ms x))"
proof (induction ms arbitrary: x)
  case (Cons m ms)
  let ?r = "case find_field names (fst m) of None \<Rightarrow> (None, x) | Some n \<Rightarrow> set_field n (snd m) x"
  have "P (snd ?r)" using assms Cons.prems by (cases "find_field names (fst m)") simp_all
  from Cons.IH [OF this] show ?case by (simp add: Let_def case_prod_unfold)
qed simp

lemma unmarshal_keep:
  assumes "\<And>n j x. P x \<Longrightarrow> P (snd (set_field n j x))" "P x"
  shows "P (snd (unmarshal names set_field data x))"
  using decode_members_keep [of P set_field, OF assms(1)] assms(2)
  by (simp add: unmarshal_def decode_struct_def split: option.split json.split)

lemma Human_Unmarshal_tag: "hTag (snd (Human_Unmarshal data h)) = hTag h"
  unfolding Human_Unmarshal_def
  by (rule unmarshal_keep) (simp_all add: Human_set_field_def)

text \<open>Every human that \<open>RedisSynk\<close> loads has the tag of a new container.\<close>

lemma request_loop_source:
  "request_loop ops mk kvs results err = (xs, e) \<Longrightarrow> x \<in> set xs \<Longrightarrow>
   x \<in> set results \<or> (\<exists>k v c. mk k = Some c \<and> obj_Unmarshal ops v c = (None, x))"
proof (induction kvs arbitrary: results err)
  case (Cons kv kvs)
  obtain k v where kv: "kv = (k, v)" by fastforce
  show ?case
  proof (cases "mk (container_key k)")
    case None
    with Cons.prems kv show ?thesis by auto
  next
    case (Some c)
    obtain f y where y: "obj_Unmarshal ops v c = (f, y)" by fastforce
    show ?thesis
    proof (cases f)
      case None
      with Cons.IH [of "results @ [y]" None] Cons.prems kv y Some show ?thesis by auto
    next
      case (Some d)
      with Cons.IH [of results "Some d"] Cons.prems kv y \<open>mk (container_key k) = Some c\<close> show ?thesis by auto
    qed
  qed
qed simp

lemma redis_loaded_source:
  assumes "RedisSynk_Load ops mk rd keys r = (Ret (objs, e), r')" "x \<in> set objs"
  shows "\<exists>k v c. mk k = Some c \<and> obj_Unmarshal ops v c = (None, x)"
  using assms request_loop_source
  by (fastforce simp: RedisSynk_Load_def RedisRequestObjects_def split: go.splits prod.splits option.splits)

lemma redis_loaded_human:
  assumes "RedisSynk_Load entity_ops creator rd keys r = (Ret (objs, e), r')" "EHuman h \<in> set objs"
  shows "hTag h = empty_tag"
proof -
  obtain k v c where c: "creator k = Some c" "obj_Unmarshal entity_ops v c = (None, EHuman h)"
    using redis_loaded_source [OF assms] by blast
  then have "c = EHuman new_human"
    by (cases c) (auto simp: entity_ops_def map_prod_def split: if_splits prod.splits)
  with c(2) have "Human_Unmarshal v new_human = (None, h)"
    by (auto simp: entity_ops_def Human_ops_def map_prod_def split: prod.splits)
  with Human_Unmarshal_tag [of v new_human] show ?thesis by (simp add: new_human_def)
qed

lemma redisModObject_obj: "rs_obj (snd (redisModObject ops rd s)) = snd (obj_Resolve ops (rs_obj s))"
  by (auto simp: redisModObject_def Let_def case_prod_unfold split: sum.split)

lemma test_on_redis:
  fixes u :: "('n, 'q) services"
  assumes "rsk_Constructor rs = creator"
    and "Mutator_Create (RedisSynk_Mutator entity_ops rs) (EHuman test_human) u = (Ret e1, h1, w1)"
    and "Mutator_Modify (RedisSynk_Mutator entity_ops rs) (step_down h1) w1 = (Ret e2, h2, w2)"
    and "Mutator_Load (RedisSynk_Mutator entity_ops rs) keys w2 = (Ret (objs, err), w3)"
  shows "find_loop objs h2 \<noteq> Some True"
proof
  assume "find_loop objs h2 = Some True"
  then have found: "h2 \<in> set objs" by (rule find_loop_True)
  have h1: "h1 = created_obj entity_ops (EHuman test_human) (sv_rand u)"
  proof -
    obtain r1 s where "redisNewObject entity_ops (rsk_Pool rs) (rstate_of (EHuman test_human) u\<lparr>rs_redis := r1\<rparr>) = (e1, s)" "h1 = rs_obj s"
      using assms(2) by (auto simp: on_rstate_eq RedisSynk_Create_def on_conn_Ret)
    with redisNewObject_obj [of entity_ops "rsk_Pool rs" "rstate_of (EHuman test_human) u\<lparr>rs_redis := r1\<rparr>"] show ?thesis by simp
  qed
  have h2: "h2 = snd (obj_Resolve entity_ops (step_down h1))"
  proof -
    obtain r1 s where "redisModObject entity_ops (rsk_Pool rs) (rstate_of (step_down h1) w1\<lparr>rs_redis := r1\<rparr>) = (e2, s)" "h2 = rs_obj s"
      using assms(3) by (auto simp: on_rstate_eq RedisSynk_Modify_def on_conn_Ret)
    with redisModObject_obj [of entity_ops "rsk_Pool rs" "rstate_of (step_down h1) w1\<lparr>rs_redis := r1\<rparr>"] show ?thesis by simp
  qed
  have id: "TagID (entity_tag h2) \<noteq> ''''"
    using created_tag(2) [of "EHuman test_human" "sv_rand u"] by (simp add: h2 h1 entity.resolve_tag tag_defs step_down_frame)
  have type: "obj_TypeKey entity_ops h2 = ''c:h''"
    by (simp add: h2 h1 entity.resolve_type step_down_frame created_type test_human_type)
  then obtain h where h: "h2 = EHuman h" by (cases h2) (simp_all add: entity_ops_def Orc_ops_def Orc_TypeKey_def)
  obtain r where "RedisSynk_Load entity_ops creator (rsk_Pool rs) keys (sv_redis w2) = (Ret (objs, err), r)"
    using assms(1,4) by (auto simp: RedisSynk_Mutator_Load)
  from redis_loaded_human [OF this] found h have "hTag h = empty_tag" by simp
  with id h show False by (simp add: empty_tag_def)
qed

section \<open>Properties\<close>

text \<open>
  C19: The test of the repository passes: run against MongoDB, on any collection whose documents are
  filed under their identifiers and have the type of their object, it either stops because a service
  failed, or it finds the human it created and moved, and the loaded object is deeply equal to it. Run
  against \<open>RedisSynk\<close>, which implements the same interface, it never finds the human as it is.
\<close>

theorem human_test:
  fixes w :: "('m, 'r) services" and u :: "('n, 'q) services"
  assumes "mongo_behaves entity_ops entity_tag creator entity_stored mg docs" "redis_behaves rd db"
    and "coll_ok entity_ops entity_tag (docs (sv_mongo w))" "mongo_sound docs w"
    and "rsk_Constructor rs = creator"
  shows "fst (TestHuman_GetSubKey (MongoSynk_Mutator entity_ops creator mg rd) w) \<in> insert (TestPass True) (range TestPanic) \<and>
    fst (TestHuman_GetSubKey (RedisSynk_Mutator entity_ops rs) u) \<noteq> TestPass True"
proof
  show "fst (TestHuman_GetSubKey (MongoSynk_Mutator entity_ops creator mg rd) w) \<in> insert (TestPass True) (range TestPanic)"
    using test_on_mongo [OF assms(1-4)]
    by (auto simp: TestHuman_GetSubKey_def stest_epanic_def split: prod.splits go.splits option.splits)
  show "fst (TestHuman_GetSubKey (RedisSynk_Mutator entity_ops rs) u) \<noteq> TestPass True"
    using test_on_redis [OF assms(5), of u]
    by (auto simp: TestHuman_GetSubKey_def stest_epanic_def split: prod.splits go.splits option.splits)
qed

text \<open>Running the test on the servers in memory.\<close>

lemma demo_test_runs:
  "(case fst (TestHuman_GetSubKey (MongoSynk_Mutator entity_ops creator mem_mongo mem_redis) demo_services) of
      TestPanic _ \<Rightarrow> False | _ \<Rightarrow> True)"
  by code_simp

lemma human_test_witness:
  "fst (TestHuman_GetSubKey (MongoSynk_Mutator entity_ops creator mem_mongo mem_redis) demo_services) = TestPass True \<and>
   fst (TestHuman_GetSubKey (RedisSynk_Mutator entity_ops demo_RedisSynk) demo_services) \<noteq> TestPass True"
proof -
  have "coll_ok entity_ops entity_tag (map_of (sv_mongo demo_services))" "mongo_sound map_of demo_services"
    by (simp_all add: coll_ok_def mongo_sound_def demo_services_def)
  moreover have "rsk_Constructor demo_RedisSynk = creator" by (simp add: demo_RedisSynk_def)
  ultimately show ?thesis
    using human_test [OF mem_mongo_behaves mem_redis_behaves, of demo_services demo_RedisSynk demo_services] demo_test_runs
    by auto
qed

end
