(* ===== verification/Access.thy ===== *)
theory Access
  imports Interfaces
begin

text \<open>
  The contract of the interface \<open>AccessPoint\<close>, proved for \<open>Node\<close>: each of the two constructors is
  registered at most once, and what an access point hands out follows the registrations.
\<close>

section \<open>The contract\<close>

text \<open>A history of registrations through the interface.\<close>

fun ap_register :: "('n, 'mu, 'lo, 'o, 'cl, 'cc) AccessPoint \<Rightarrow> ('o, 'cl, 'cc) registration \<Rightarrow> 'n \<Rightarrow> 'n go" where
  "ap_register ap (RegContainer f) n = AP_RegisterContainerConstructor ap f n"
| "ap_register ap (RegClient g) n = AP_RegisterClientConstructor ap g n"

fun ap_register_all :: "('n, 'mu, 'lo, 'o, 'cl, 'cc) AccessPoint \<Rightarrow> ('o, 'cl, 'cc) registration list \<Rightarrow> 'n \<Rightarrow> 'n go" where
  "ap_register_all ap [] n = Ret n"
| "ap_register_all ap (x # xs) n = (case ap_register ap x n of Panic p \<Rightarrow> Panic p | Ret n' \<Rightarrow> ap_register_all ap xs n')"

text \<open>The registrations of each kind, in their order; \<open>None\<close> is nil.\<close>

fun containers_of :: "('o, 'cl, 'cc) registration list \<Rightarrow> 'o ContainerConstructor option list" where
  "containers_of [] = []"
| "containers_of (RegContainer f # xs) = f # containers_of xs"
| "containers_of (RegClient g # xs) = containers_of xs"

fun clients_of :: "('o, 'cl, 'cc) registration list \<Rightarrow> ('cl, 'cc) ClientConstructor option list" where
  "clients_of [] = []"
| "clients_of (RegContainer f # xs) = clients_of xs"
| "clients_of (RegClient g # xs) = g # clients_of xs"

text \<open>The first registration that is not nil, and those after it.\<close>

definition effective :: "'a option list \<Rightarrow> 'a option list" where
  "effective fs = dropWhile (\<lambda>f. f = None) fs"

lemma effective_simps [simp]:
  "effective [] = []" "effective (None # fs) = effective fs" "effective (Some f # fs) = Some f # fs"
  by (simp_all add: effective_def)

lemma effective_one: "effective [f] = [] \<longleftrightarrow> f = None"
  by (cases f) simp_all

locale access_point =
  fixes ap :: "('n, 'mu, 'lo, 'o, 'cl, 'cc) AccessPoint"
    and container :: "'n \<Rightarrow> 'o ContainerConstructor option"
    and custom :: "'n \<Rightarrow> ('cl, 'cc) ClientConstructor option"
  assumes container_twice: "container n \<noteq> None \<Longrightarrow> panics (AP_RegisterContainerConstructor ap f n)"
    and container_once: "container n = None \<Longrightarrow>
      \<exists>n'. AP_RegisterContainerConstructor ap f n = Ret n' \<and> container n' = f \<and> custom n' = custom n"
    and client_twice: "custom n \<noteq> None \<Longrightarrow> panics (AP_RegisterClientConstructor ap g n)"
    and client_once: "custom n = None \<Longrightarrow>
      \<exists>n'. AP_RegisterClientConstructor ap g n = Ret n' \<and> container n' = container n \<and> custom n' = g"
    and mutator_needs: "panics (AP_CreateMutator ap n) \<longleftrightarrow> container n = None"
    and loader_needs: "panics (AP_CreateLoader ap n) \<longleftrightarrow> container n = None"
    and new_client: "custom n = Some h \<Longrightarrow> AP_NewClient ap n c = Ret (h c)"
    and no_client: "custom n = None \<Longrightarrow> panics (AP_NewClient ap n c)"
begin

text \<open>Registering: the constructors so far, and the new ones.\<close>

lemma register_all_outcome:
  "length (effective (container n # containers_of xs)) \<le> 1 \<Longrightarrow> length (effective (custom n # clients_of xs)) \<le> 1 \<Longrightarrow>
   \<exists>n'. ap_register_all ap xs n = Ret n' \<and> effective [container n'] = effective (container n # containers_of xs) \<and>
     effective [custom n'] = effective (custom n # clients_of xs)"
proof (induction xs arbitrary: n)
  case Nil
  then show ?case by simp
next
  case (Cons x xs)
  show ?case
  proof (cases x)
    case (RegContainer f)
    with Cons.prems have none: "container n = None" by (cases "container n") auto
    from container_once [OF this, of f] obtain n1 where n1: "AP_RegisterContainerConstructor ap f n = Ret n1"
        "container n1 = f" "custom n1 = custom n" by blast
    from Cons.IH [of n1] Cons.prems n1 RegContainer none show ?thesis by auto
  next
    case (RegClient g)
    with Cons.prems have none: "custom n = None" by (cases "custom n") auto
    from client_once [OF this, of g] obtain n1 where n1: "AP_RegisterClientConstructor ap g n = Ret n1"
        "container n1 = container n" "custom n1 = g" by blast
    from Cons.IH [of n1] Cons.prems n1 RegClient none show ?thesis by auto
  qed
qed

lemma register_all_panics:
  "1 < length (effective (container n # containers_of xs)) \<or> 1 < length (effective (custom n # clients_of xs)) \<Longrightarrow>
   panics (ap_register_all ap xs n)"
proof (induction xs arbitrary: n)
  case Nil
  then show ?case by (cases "container n"; cases "custom n") auto
next
  case (Cons x xs)
  show ?case
  proof (cases x)
    case (RegContainer f)
    show ?thesis
    proof (cases "container n")
      case None
      from container_once [OF this, of f] obtain n1 where n1: "AP_RegisterContainerConstructor ap f n = Ret n1"
          "container n1 = f" "custom n1 = custom n" by blast
      with Cons.IH [of n1] Cons.prems RegContainer None show ?thesis by simp
    next
      case (Some h)
      with container_twice [of n f] RegContainer show ?thesis
        by (cases "AP_RegisterContainerConstructor ap f n") simp_all
    qed
  next
    case (RegClient g)
    show ?thesis
    proof (cases "custom n")
      case None
      from client_once [OF this, of g] obtain n1 where n1: "AP_RegisterClientConstructor ap g n = Ret n1"
          "container n1 = container n" "custom n1 = g" by blast
      with Cons.IH [of n1] Cons.prems RegClient None show ?thesis by simp
    next
      case (Some h)
      with client_twice [of n g] RegClient show ?thesis
        by (cases "AP_RegisterClientConstructor ap g n") simp_all
    qed
  qed
qed

end

section \<open>The node\<close>

interpretation node_ap: access_point "Node_AccessPoint dr cfg" newContainer newClientFn
  for dr :: "('s, 'c, 'm, 'a) drivers" and cfg
  by unfold_locales
    (auto simp: Node_AccessPoint_def RegisterContainerConstructor_def RegisterClientConstructor_def CreateMutator_def
      CreateLoader_def NewClient_def split: option.splits)

lemma NewNode_unregistered: "NewNode dr cfg = Ret n \<Longrightarrow> newContainer n = None \<and> newClientFn n = None"
  by (auto simp: NewNode_def split: go.splits)

section \<open>Properties\<close>

text \<open>
  C37: A new node accepts at most one constructor of each kind, in any order: a list of registrations
  panics exactly when, for one of the kinds, something is registered after a constructor that is not
  nil; registering nil before that has no effect. Otherwise the node then creates mutators and loaders
  exactly when a container constructor was among them, and a custom client is what the registered
  constructor makes, or a panic when there was none.
\<close>

theorem node_registrations:
  fixes dr :: "('s, 'c, 'm, 'a) drivers" and n :: "('s, 'c, 'a, 'o, 'cl, 'cc) node"
  assumes "NewNode dr cfg = Ret n"
  defines "ap \<equiv> Node_AccessPoint dr cfg"
  shows "(panics (ap_register_all ap xs n) \<longleftrightarrow>
      1 < length (effective (containers_of xs)) \<or> 1 < length (effective (clients_of xs))) \<and>
    (\<forall>n'. ap_register_all ap xs n = Ret n' \<longrightarrow>
       (panics (AP_CreateMutator ap n') \<longleftrightarrow> effective (containers_of xs) = []) \<and>
       (panics (AP_CreateLoader ap n') \<longleftrightarrow> effective (containers_of xs) = []) \<and>
       (\<forall>c. case effective (clients_of xs) of [] \<Rightarrow> panics (AP_NewClient ap n' c) | g # gs \<Rightarrow> AP_NewClient ap n' c = Ret (the g c)))"
proof (cases "1 < length (effective (containers_of xs)) \<or> 1 < length (effective (clients_of xs))")
  case True
  with node_ap.register_all_panics [of n xs dr cfg] NewNode_unregistered [OF assms(1)]
  have "panics (ap_register_all ap xs n)" by (simp add: ap_def)
  then show ?thesis using True by (cases "ap_register_all ap xs n") simp_all
next
  case False
  with node_ap.register_all_outcome [of n xs dr cfg] NewNode_unregistered [OF assms(1)] obtain n' where n':
      "ap_register_all ap xs n = Ret n'" "effective [newContainer n'] = effective (containers_of xs)"
      "effective [newClientFn n'] = effective (clients_of xs)"
    by (auto simp: ap_def not_less)
  have "newContainer n' = None \<longleftrightarrow> effective (containers_of xs) = []"
    unfolding n'(2) [symmetric] effective_one ..
  moreover have "case effective (clients_of xs) of [] \<Rightarrow> panics (AP_NewClient ap n' c) | g # gs \<Rightarrow> AP_NewClient ap n' c = Ret (the g c)" for c
    unfolding ap_def n'(3) [symmetric]
    by (cases "newClientFn n'") (simp_all add: node_ap.no_client node_ap.new_client)
  ultimately show ?thesis
    using False n'(1) by (simp add: ap_def node_ap.mutator_needs node_ap.loader_needs)
qed

definition demo_cfg :: config where
  "demo_cfg = init_config (config_vars (\<lambda>_. ''''))"

definition fresh_node :: "(unit, unit, unit, nat, unit, unit) node" where
  "fresh_node = \<lparr>mongoSession = (), redisPool = DialRedisPool demo_drivers demo_cfg, redisAgents = (),
     newContainer = None, newClientFn = None\<rparr>"

lemma fresh_node_dialled: "NewNode demo_drivers demo_cfg = Ret fresh_node"
  by (simp add: NewNode_def DialMongo_def DialRedis_def demo_drivers_def demo_cfg_def init_config_eq config_vars_def fresh_node_def)

lemma node_registrations_witness:
  "panics (ap_register_all (Node_AccessPoint demo_drivers demo_cfg) [RegClient (Some Some), RegClient None] fresh_node) \<and>
   \<not> panics (ap_register_all (Node_AccessPoint demo_drivers demo_cfg)
      [RegClient None, RegClient (Some Some), RegContainer (Some (\<lambda>_. Some 0))] fresh_node)"
  using node_registrations [OF fresh_node_dialled, of "[RegClient (Some Some), RegClient None]"]
    node_registrations [OF fresh_node_dialled, of "[RegClient None, RegClient (Some Some), RegContainer (Some (\<lambda>_. Some 0))]"]
  by simp

end
