(* ===== verification/Versions.thy ===== *)
theory Versions
  imports World
begin

text \<open>
  The version of an object over a series of modifications. \<open>Resolve\<close> increments a 64-bit counter that
  is stored with the object and sent with its messages; it wraps around.
\<close>

section \<open>A series of modifications\<close>

text \<open>
  The owner changes the object in memory and calls \<open>Modify\<close>, again and again; the states after the
  calls, as long as they return nil.
\<close>

fun modify_series :: "('o, 'd) object_ops \<Rightarrow> ('m, 'o, 'raw) mongo \<Rightarrow> 'r redis \<Rightarrow> ('o \<Rightarrow> 'o) list \<Rightarrow>
    ('o, 'm, 'r) mstate \<Rightarrow> ('o, 'm, 'r) mstate list option" where
  "modify_series ops mg rd [] s = Some []"
| "modify_series ops mg rd (f # fs) s =
     (case MongoSynk_Modify ops mg rd (s\<lparr>ms_obj := f (ms_obj s)\<rparr>) of
        (Ret None, s') \<Rightarrow> map_option ((#) s') (modify_series ops mg rd fs s')
      | _ \<Rightarrow> None)"

text \<open>Setters leave the tag alone.\<close>

definition keeps_tag :: "('o \<Rightarrow> tag) \<Rightarrow> ('o \<Rightarrow> 'o) \<Rightarrow> bool" where
  "keeps_tag tag_of f \<longleftrightarrow> (\<forall>x. tag_of (f x) = tag_of x)"

lemma modify_series_Cons:
  "modify_series ops mg rd (f # fs) s = Some ts \<longleftrightarrow>
     (\<exists>s' ts'. MongoSynk_Modify ops mg rd (s\<lparr>ms_obj := f (ms_obj s)\<rparr>) = (Ret None, s') \<and>
        modify_series ops mg rd fs s' = Some ts' \<and> ts = s' # ts')"
  by (auto split: prod.splits go.splits option.splits)

section \<open>Counting modulo \<open>2 ^ 64\<close>\<close>

lemma add_nat_eq_iff:
  fixes v :: go_uint
  assumes "j \<le> k"
  shows "v + of_nat j = v + of_nat k \<longleftrightarrow> 2 ^ 64 dvd k - j"
proof -
  have "v + of_nat j = v + of_nat k \<longleftrightarrow> (of_nat (k - j) :: go_uint) = 0"
    using assms by (auto simp: of_nat_diff)
  also have "\<dots> \<longleftrightarrow> 2 ^ 64 dvd k - j" by (simp add: word_of_nat_eq_0_iff)
  finally show ?thesis .
qed

lemma unat_add_nat:
  fixes v :: go_uint
  shows "unat (v + of_nat n) = (unat v + n) mod 2 ^ 64"
  by (simp add: unat_word_ariths unat_of_nat mod_simps)

context stored_object
begin

lemma stored_version: "obj_Version ops (stored x) = obj_Version ops x"
  by (simp add: version stored_tag)

text \<open>One call counts one.\<close>

lemma Modify_version:
  assumes "redis_behaves rd db" "mongo_behaves ops tag_of mk stored mg docs"
    and "MongoSynk_Modify ops mg rd (s\<lparr>ms_obj := f (ms_obj s)\<rparr>) = (Ret None, s')" "keeps_tag tag_of f"
  shows "obj_Version ops (ms_obj s') = obj_Version ops (ms_obj s) + 1"
    and "obj_TagGetID ops (ms_obj s') = obj_TagGetID ops (ms_obj s)"
    and "docs (ms_mongo s') (obj_TagGetID ops (ms_obj s)) = Some (stored (ms_obj s'))"
proof -
  have "tag_of (f (ms_obj s)) = tag_of (ms_obj s)" using assms(4) by (simp add: keeps_tag_def)
  then have same: "obj_Version ops (f (ms_obj s)) = obj_Version ops (ms_obj s)"
      "obj_TagGetID ops (f (ms_obj s)) = obj_TagGetID ops (ms_obj s)"
    by (simp_all add: version get_id)
  have res: "ms_obj s' = modified_obj ops (f (ms_obj s))"
      "docs (ms_mongo s') = (docs (ms_mongo s))(obj_TagGetID ops (f (ms_obj s)) \<mapsto> stored (ms_obj s'))"
    using Modify_Ret [OF assms(1-3)] by simp_all
  show "obj_Version ops (ms_obj s') = obj_Version ops (ms_obj s) + 1"
      "obj_TagGetID ops (ms_obj s') = obj_TagGetID ops (ms_obj s)"
    by (simp_all add: res(1) modified_frame same)
  show "docs (ms_mongo s') (obj_TagGetID ops (ms_obj s)) = Some (stored (ms_obj s'))"
    by (simp add: res(2) same)
qed

lemma series_versions:
  assumes "redis_behaves rd db" "mongo_behaves ops tag_of mk stored mg docs"
  shows "modify_series ops mg rd fs s = Some ts \<Longrightarrow> list_all (keeps_tag tag_of) fs \<Longrightarrow>
    length ts = length fs \<and>
    (\<forall>k < length fs. obj_Version ops (ms_obj (ts ! k)) = obj_Version ops (ms_obj s) + of_nat (Suc k) \<and>
       docs (ms_mongo (ts ! k)) (obj_TagGetID ops (ms_obj s)) = Some (stored (ms_obj (ts ! k))))"
proof (induction fs arbitrary: s ts)
  case Nil
  then show ?case by simp
next
  case (Cons f fs)
  then obtain s' ts' where call: "MongoSynk_Modify ops mg rd (s\<lparr>ms_obj := f (ms_obj s)\<rparr>) = (Ret None, s')"
    and rest: "modify_series ops mg rd fs s' = Some ts'" and ts: "ts = s' # ts'"
    unfolding modify_series_Cons by blast
  have "keeps_tag tag_of f" using Cons.prems(2) by simp
  note one = Modify_version [OF assms call this]
  show ?case
    using Cons.IH [OF rest] Cons.prems(2) one by (auto simp: ts nth_Cons' algebra_simps split: if_splits)
qed

end

section \<open>Properties\<close>

text \<open>
  C20: Versions count modifications, modulo \<open>2 ^ 64\<close>: after the \<open>k\<close>-th call of a series of successful
  ones, with setter calls in between, the object and its document have the version it started with plus
  \<open>k\<close>, wrapped around; two of these versions are the same exactly when a multiple of \<open>2 ^ 64\<close> calls lies
  between them, and before the counter overflows they increase.
\<close>

theorem version_bounds:
  assumes "stored_object ops tag_of stored" "redis_behaves rd db" "mongo_behaves ops tag_of mk stored mg docs"
    and "list_all (keeps_tag tag_of) fs" "modify_series ops mg rd fs s = Some ts" "j \<le> k" "k < length fs"
  defines "ver \<equiv> \<lambda>i. obj_Version ops (ms_obj (ts ! i))"
  shows "unat (ver k) = (unat (obj_Version ops (ms_obj s)) + k + 1) mod 2 ^ 64 \<and>
    map_option (obj_Version ops) (docs (ms_mongo (ts ! k)) (obj_TagGetID ops (ms_obj s))) = Some (ver k) \<and>
    (ver j = ver k \<longleftrightarrow> 2 ^ 64 dvd k - j) \<and>
    (j < k \<longrightarrow> unat (obj_Version ops (ms_obj s)) + length fs < 2 ^ 64 \<longrightarrow> ver j < ver k)"
proof -
  let ?v = "obj_Version ops (ms_obj s)"
  have all: "ver i = ?v + of_nat (Suc i)"
      "docs (ms_mongo (ts ! i)) (obj_TagGetID ops (ms_obj s)) = Some (stored (ms_obj (ts ! i)))" if "i \<le> k" for i
    using stored_object.series_versions [OF assms(1-3) assms(5,4)] assms(7) that unfolding ver_def
    by (simp_all del: of_nat_Suc)
  have un: "unat (ver i) = (unat ?v + i + 1) mod 2 ^ 64" if "i \<le> k" for i
    unfolding all(1) [OF that] unat_add_nat by simp
  have increase: "ver j < ver k" if "j < k" "unat ?v + length fs < 2 ^ 64"
    unfolding word_less_nat_alt un [OF assms(6)] un [OF order_refl] using that assms(7) by simp
  have "ver j = ver k \<longleftrightarrow> 2 ^ 64 dvd k - j"
    unfolding all(1) [OF assms(6)] all(1) [OF order_refl] by (subst add_nat_eq_iff) (use assms(6) in simp_all)
  then show ?thesis
    using un [OF order_refl] all(2) [OF order_refl] increase
    by (simp add: stored_object.stored_version [OF assms(1)] ver_def)
qed

text \<open>An object that was modified \<open>2 ^ 64 - 1\<close> times before.\<close>

definition worn_move :: "(entity, (string \<times> entity) list, mem_db) mstate" where
  "worn_move = demo_move\<lparr>ms_obj := EHuman (demo_human\<lparr>hTag := (hTag demo_human)\<lparr>V := - 1\<rparr>\<rparr>)\<rparr>"

definition worn_setters :: "(entity \<Rightarrow> entity) list" where
  "worn_setters = [entity_do (OnHuman (SetX 1)), entity_do (OnHuman (SetCX 1))]"

lemma worn_setters_keep: "list_all (keeps_tag entity_tag) worn_setters"
  by (simp add: worn_setters_def keeps_tag_def entity_do_frame)

lemma worn_series: "modify_series entity_ops mem_mongo mem_redis worn_setters worn_move \<noteq> None"
  by code_simp

lemma version_bounds_witness:
  "\<exists>ts. modify_series entity_ops mem_mongo mem_redis worn_setters worn_move = Some ts \<and>
     obj_Version entity_ops (ms_obj (ts ! 1)) = 1 \<and> obj_Version entity_ops (ms_obj (ts ! 0)) \<noteq> 1"
proof -
  obtain ts where ts: "modify_series entity_ops mem_mongo mem_redis worn_setters worn_move = Some ts"
    using worn_series by blast
  have "unat (obj_Version entity_ops (ms_obj worn_move)) = 2 ^ 64 - 1"
    by (simp add: worn_move_def entity_ops_def Human_ops_def Version_def unsigned_minus_1_eq_mask mask_eq_exp_minus_1)
  with version_bounds [OF entity_db.stored_object_axioms mem_redis_behaves mem_mongo_behaves worn_setters_keep ts, of 0 1]
  have "unat (obj_Version entity_ops (ms_obj (ts ! 1))) = 1 \<and>
      obj_Version entity_ops (ms_obj (ts ! 0)) \<noteq> obj_Version entity_ops (ms_obj (ts ! 1))"
    by (simp add: worn_setters_def)
  moreover from this have "obj_Version entity_ops (ms_obj (ts ! 1)) = 1" by (intro word_unat_eq_iff [THEN iffD2]) simp
  ultimately show ?thesis using ts by (intro exI [of _ ts]) auto
qed

end
