(* ===== verification/Timing.thy ===== *)
theory Timing
  imports Client_Props
begin

text \<open>
  Time in \<open>Client.go\<close>: the write deadlines and the period of the pings. A duration is a number of
  nanoseconds; the constants are Go constants, so they are computed exactly and only have to fit into
  the 64 bits of a \<open>time.Duration\<close>. The theories on the client use a connection as a whole
  (\<open>websocket\<close>); here its writes are put together from the calls that the client makes.
\<close>

section \<open>The constants\<close>

definition time_Second :: int where
  "time_Second = 1000000000"

definition writeTimeout :: int where
  "writeTimeout = 10 * time_Second"

definition pongTimeout :: int where
  "pongTimeout = 60 * time_Second"

definition pingInterval :: int where
  "pingInterval = (pongTimeout * 9) div 10"

definition is_duration :: "int \<Rightarrow> bool" where
  "is_duration d \<longleftrightarrow> - (2 ^ 63) \<le> d \<and> d < 2 ^ 63"

lemmas timeout_defs = time_Second_def writeTimeout_def pongTimeout_def pingInterval_def

lemma timeouts:
  "is_duration writeTimeout" "is_duration pongTimeout" "is_duration (pongTimeout * 9)" "is_duration pingInterval"
  "0 < writeTimeout" "writeTimeout < pingInterval" "pingInterval < pongTimeout" "pongTimeout < 2 * pingInterval"
  by (simp_all add: timeout_defs is_duration_def)

section \<open>A connection with a clock\<close>

text \<open>
  The calls on a \<open>*websocket.Conn\<close>, with the time at which the last one came back as part of the state.
\<close>

datatype message_type = TextMessage | PingMessage

record 'w conn =
  conn_Now :: "'w \<Rightarrow> int"
  conn_SetWriteDeadline :: "int \<Rightarrow> 'w \<Rightarrow> 'w"
  conn_WriteMessage :: "message_type \<Rightarrow> bytes \<Rightarrow> 'w \<Rightarrow> error option \<times> 'w"
  conn_ReadMessage :: "'w \<Rightarrow> (read_error + bytes) \<times> 'w"
  conn_Close :: "'w \<Rightarrow> 'w"

text \<open>Every write of the client sets the deadline first.\<close>

definition write_by_deadline :: "'w conn \<Rightarrow> message_type \<Rightarrow> bytes \<Rightarrow> 'w \<Rightarrow> error option \<times> 'w" where
  "write_by_deadline cn kind message w =
     conn_WriteMessage cn kind message (conn_SetWriteDeadline cn (conn_Now cn w + writeTimeout) w)"

definition conn_websocket :: "'w conn \<Rightarrow> 'w websocket" where
  "conn_websocket cn = \<lparr>ws_WriteText = write_by_deadline cn TextMessage, ws_WritePing = write_by_deadline cn PingMessage [],
     ws_Read = conn_ReadMessage cn, ws_Close = conn_Close cn\<rparr>"

text \<open>
  Documented behaviour of \<open>gorilla/websocket\<close>: a write comes back at the deadline at the latest.
\<close>

definition keeps_deadlines :: "'w conn \<Rightarrow> bool" where
  "keeps_deadlines cn \<longleftrightarrow> (\<forall>kind b t w.
     conn_Now cn (snd (conn_WriteMessage cn kind b (conn_SetWriteDeadline cn t w))) \<le> max (conn_Now cn w) t)"

lemma write_in_time:
  "keeps_deadlines cn \<Longrightarrow> conn_Now cn (snd (write_by_deadline cn kind b w)) \<le> conn_Now cn w + writeTimeout"
proof -
  assume "keeps_deadlines cn"
  then have "conn_Now cn (snd (write_by_deadline cn kind b w)) \<le> max (conn_Now cn w) (conn_Now cn w + writeTimeout)"
    unfolding keeps_deadlines_def write_by_deadline_def by blast
  with timeouts(5) show ?thesis by simp
qed

lemma conn_websocket_simps [simp]:
  "ws_WriteText (conn_websocket cn) = write_by_deadline cn TextMessage"
  "ws_WritePing (conn_websocket cn) = write_by_deadline cn PingMessage []"
  by (simp_all add: conn_websocket_def)

section \<open>The main loop between two messages of the browser\<close>

lemma writing_pass:
  assumes "keeps_deadlines cn" "env_ws env = conn_websocket cn" "ev \<noteq> MessageIn" "main_iteration env ev c = (res, c')"
  shows "conn_Now cn (cl_ws c') \<le> conn_Now cn (cl_ws c) + writeTimeout"
proof (cases ev)
  case MessageOut
  have idle: "conn_Now cn (cl_ws c) \<le> conn_Now cn (cl_ws c) + writeTimeout" using timeouts(5) by simp
  with MessageOut assms(4) write_in_time [OF assms(1), of TextMessage _ "cl_ws c"] show ?thesis
    by (auto simp: main_iteration_def Client_writeToWebSocket_def assms(2) Let_def case_prod_unfold
        split: run.splits option.splits)
next
  case Ping
  with assms(4) write_in_time [OF assms(1), of PingMessage "[]" "cl_ws c"] show ?thesis
    by (auto simp: main_iteration_def assms(2) Let_def case_prod_unfold)
next
  case MessageIn
  with assms(3) show ?thesis by simp
qed

lemma writing_loop:
  assumes "keeps_deadlines cn" "env_ws env = conn_websocket cn"
  shows "main_loop env evs c = (res, c') \<Longrightarrow> MessageIn \<notin> set evs \<Longrightarrow>
    conn_Now cn (cl_ws c') \<le> conn_Now cn (cl_ws c) + int (length evs) * writeTimeout"
proof (induction evs arbitrary: c)
  case Nil
  then show ?case by simp
next
  case (Cons ev evs)
  obtain r c1 where step: "main_iteration env ev c = (r, c1)" by fastforce
  have pass: "conn_Now cn (cl_ws c1) \<le> conn_Now cn (cl_ws c) + writeTimeout"
    using writing_pass [OF assms _ step] Cons.prems(2) by auto
  have "c' = c1 \<or> main_loop env evs c1 = (res, c')"
    using Cons.prems(1) step by (auto split: run.splits loop_next.splits)
  then have "conn_Now cn (cl_ws c') \<le> conn_Now cn (cl_ws c1) + int (length evs) * writeTimeout"
    using Cons.IH Cons.prems(2) timeouts(5) by auto
  with pass show ?case by (simp add: algebra_simps)
qed

lemma pings_go_on:
  assumes "env_ws env = conn_websocket cn" "\<And>w. fst (write_by_deadline cn PingMessage [] w) = None"
  shows "main_loop env (replicate n Ping) c =
    (Returned Continue, c\<lparr>cl_ws := ((\<lambda>w. snd (write_by_deadline cn PingMessage [] w)) ^^ n) (cl_ws c)\<rparr>)"
proof (induction n arbitrary: c)
  case 0
  then show ?case by simp
next
  case (Suc n)
  have "main_iteration env Ping c = (Returned Continue, c\<lparr>cl_ws := snd (write_by_deadline cn PingMessage [] (cl_ws c))\<rparr>)"
    by (simp add: main_iteration_def assms case_prod_unfold Let_def)
  then show ?case by (simp add: Suc.IH funpow_Suc_right del: funpow.simps)
qed

section \<open>Properties\<close>

text \<open>
  C23: A slow browser holds the main loop up for a bounded time: passes that only write, pings and outgoing
  messages in any order, take at most ten seconds each, whatever the network does, and a pass that
  starts at a tick of the ping timer is over before the next tick.
\<close>

theorem writes_bounded:
  assumes "keeps_deadlines cn" "env_ws env = conn_websocket cn"
    and "main_loop env evs c = (res, c')" "MessageIn \<notin> set evs"
  shows "conn_Now cn (cl_ws c') - conn_Now cn (cl_ws c) \<le> int (length evs) * (10 * time_Second) \<and>
    (length evs \<le> 1 \<longrightarrow> conn_Now cn (cl_ws c') < conn_Now cn (cl_ws c) + pingInterval)"
proof -
  have bound: "conn_Now cn (cl_ws c') \<le> conn_Now cn (cl_ws c) + int (length evs) * writeTimeout"
    by (rule writing_loop [OF assms])
  have "int (length evs) * writeTimeout \<le> writeTimeout" if "length evs \<le> 1"
    using that timeouts(5) by (cases evs) auto
  with bound timeouts(6) show ?thesis by (auto simp: writeTimeout_def)
qed

text \<open>
  A connection that is the time and the deadline: a text message hangs until the deadline passes, a
  ping is written at once.
\<close>

definition stalled_conn :: "(int \<times> int) conn" where
  "stalled_conn = \<lparr>conn_Now = fst, conn_SetWriteDeadline = (\<lambda>t w. (fst w, t)),
     conn_WriteMessage = (\<lambda>kind b w. if kind = PingMessage then (None, w)
       else (Some ''i/o timeout'', (max (fst w) (snd w), snd w))),
     conn_ReadMessage = (\<lambda>w. (Inl (ReadFailed ''closed''), w)), conn_Close = (\<lambda>w. w)\<rparr>"

definition stalled_env :: "(entity, entity_diff, (string \<times> entity) list, entity, mem_db, int \<times> int, unit, unit) client_env" where
  "stalled_env = \<lparr>env_ops = entity_ops, env_mongo = mem_mongo, env_redis = mem_redis,
     env_ws = conn_websocket stalled_conn,
     env_agents = \<lparr>ag_Update = (\<lambda>_ _ _ a. a), ag_RemoveAgent = (\<lambda>_ a. a)\<rparr>,
     env_custom = \<lparr>cu_OnConnect = (\<lambda>_ _. Finish ()), cu_OnMessage = (\<lambda>_ _ _ _. Finish ()),
       cu_OnSubscribe = (\<lambda>_ _ _ _. Finish ())\<rparr>\<rparr>"

definition stalled_client :: "(entity, (string \<times> entity) list, mem_db, int \<times> int, unit, unit) client" where
  "stalled_client = (fst (make_client creator [] mem_empty () (0, 0) demo_rand))
     \<lparr>toWebSocket := queued [''{}''] (make_chan clientBufferLength)\<rparr>"

lemma stalled_keeps_deadlines: "keeps_deadlines stalled_conn"
  by (simp add: keeps_deadlines_def stalled_conn_def)

lemma stalled_ws: "env_ws stalled_env = conn_websocket stalled_conn"
  by (simp add: stalled_env_def)

lemma stalled_client_ws: "cl_ws stalled_client = (0, 0)"
  by (simp add: stalled_client_def make_client_def case_prod_unfold Let_def)

lemma writes_bounded_witness:
  "fst (main_loop stalled_env [Ping, MessageOut] stalled_client) = Returned Return \<and>
   conn_Now stalled_conn (cl_ws (snd (main_loop stalled_env [Ping, MessageOut] stalled_client))) \<le> 20000000000 \<and>
   10000000000 \<le> conn_Now stalled_conn (cl_ws (snd (main_loop stalled_env [Ping, MessageOut] stalled_client)))"
proof -
  let ?r = "main_loop stalled_env [Ping, MessageOut] stalled_client"
  have run: "fst ?r = Returned Return" "conn_Now stalled_conn (cl_ws (snd ?r)) = 10000000000" by code_simp+
  have "conn_Now stalled_conn (cl_ws (snd ?r)) - conn_Now stalled_conn (cl_ws stalled_client) \<le>
      int (length [Ping, MessageOut]) * (10 * time_Second)"
    using writes_bounded [OF stalled_keeps_deadlines stalled_ws, of "[Ping, MessageOut]" stalled_client "fst ?r" "snd ?r"] by simp
  with run show ?thesis by (simp add: stalled_client_ws stalled_conn_def time_Second_def)
qed

text \<open>
  A silent browser is kept: as long as the pings can be written the main loop goes on for ever, without
  a single message or pong from the browser, and from the second ping on for longer than the time the
  source gives a pong to arrive.
\<close>

theorem silent_browser_kept:
  assumes "env_ws env = conn_websocket cn" "\<And>w. fst (write_by_deadline cn PingMessage [] w) = None"
  shows "(\<exists>w. main_loop env (replicate n Ping) c = (Returned Continue, c\<lparr>cl_ws := w\<rparr>)) \<and>
    (2 \<le> n \<longrightarrow> pongTimeout < int n * pingInterval)"
proof -
  have "pongTimeout < int n * pingInterval" if "2 \<le> n"
  proof -
    have "2 * pingInterval \<le> int n * pingInterval" using that by (intro mult_right_mono) (simp_all add: timeout_defs)
    with timeouts(8) show ?thesis by simp
  qed
  with pings_go_on [OF assms] show ?thesis by blast
qed

lemma silent_browser_kept_witness:
  "\<exists>w. main_loop stalled_env (replicate 100 Ping) stalled_client = (Returned Continue, stalled_client\<lparr>cl_ws := w\<rparr>)"
  using silent_browser_kept [OF stalled_ws, of 100 stalled_client]
  by (simp add: write_by_deadline_def stalled_conn_def)

end
