(* ===== verification/Mutators.thy ===== *)
theory Mutators
  imports Client_Lemmas Redis_Lemmas
begin

text \<open>
  The interface \<open>Mutator\<close> of \<open>Interfaces.go\<close>, with the contract that the clients of both back ends
  live on: what a modification and a deletion publish, and what they leave of the object. The locale
  states it, \<open>MongoSynk\<close> and \<open>RedisSynk\<close> interpret it, and what reaches a browser is proved once.
\<close>

section \<open>The contract\<close>

text \<open>The messages that announce a modification and a deletion of an object.\<close>

definition modify_messages :: "('o, 'd) object_ops \<Rightarrow> 'o \<Rightarrow> (string \<times> bytes) list" where
  "modify_messages ops x =
     (let psk = obj_GetPrevSubKey ops x; nsk = obj_GetSubKey ops x
      in case marshal (modMsg_json ops (mod_msg_of ops x)) of
           Inl e \<Rightarrow> []
         | Inr m \<Rightarrow>
             if nsk = psk then [(psk, m)]
             else (case marshal (addMsg_json ops (add_msg_of ops (snd (obj_Resolve ops x)) psk (obj_TypeKey ops x))) of
                     Inl e \<Rightarrow> []
                   | Inr a \<Rightarrow> [(psk, m), (nsk, ''from '' @ psk @ a)]))"

definition delete_messages :: "('o, 'd) object_ops \<Rightarrow> 'o \<Rightarrow> (string \<times> bytes) list" where
  "delete_messages ops x =
     (case marshal (remMsg_json (rem_msg_of ops x)) of Inl e \<Rightarrow> [] | Inr b \<Rightarrow> [(obj_GetPrevSubKey ops x, b)])"

text \<open>What clients can see of an object: identifier, type, state, version and keys.\<close>

definition looks_like :: "('o, 'd) object_ops \<Rightarrow> 'o \<Rightarrow> 'o \<Rightarrow> bool" where
  "looks_like ops x y \<longleftrightarrow> obj_TagGetID ops x = obj_TagGetID ops y \<and> obj_TypeKey ops x = obj_TypeKey ops y \<and>
     obj_State ops x = obj_State ops y \<and> obj_Version ops x = obj_Version ops y \<and>
     obj_GetSubKey ops x = obj_GetSubKey ops y \<and> obj_GetPrevSubKey ops x = obj_GetPrevSubKey ops y"

text \<open>
  \<open>services_ok e view\<close>: the services \<open>e\<close> behave as documented and \<open>view\<close> reads the contents of the
  Redis server out of a state. \<open>modify\<close> and \<open>delete\<close> give the state of a call that reports no error.
\<close>

locale mutator = synk_object ops tag_of
  for ops :: "('o, 'd) object_ops" and tag_of :: "'o \<Rightarrow> tag" +
  fixes services_ok :: "'e \<Rightarrow> ('s \<Rightarrow> redis_db) \<Rightarrow> bool" and object_of :: "'s \<Rightarrow> 'o"
    and modify :: "'e \<Rightarrow> 's \<Rightarrow> 's option" and delete :: "'e \<Rightarrow> 's \<Rightarrow> 's option"
  assumes modify_publishes: "services_ok e view \<Longrightarrow> modify e s = Some s' \<Longrightarrow>
      published_since (view s) (view s') = modify_messages ops (object_of s)"
    and modify_resolves: "services_ok e view \<Longrightarrow> modify e s = Some s' \<Longrightarrow>
      looks_like ops (object_of s') (snd (obj_Resolve ops (object_of s)))"
    and delete_publishes: "services_ok e view \<Longrightarrow> delete e s = Some s' \<Longrightarrow>
      published_since (view s) (view s') = delete_messages ops (object_of s)"
begin

lemma modify_messages_eq:
  obtains m a where "marshal (modMsg_json ops (mod_msg_of ops x)) = Inr m"
    "marshal (addMsg_json ops (add_msg_of ops (snd (obj_Resolve ops x)) (obj_GetPrevSubKey ops x) (obj_TypeKey ops x))) = Inr a"
    "modify_messages ops x = (if obj_GetSubKey ops x = obj_GetPrevSubKey ops x then [(obj_GetPrevSubKey ops x, m)]
       else [(obj_GetPrevSubKey ops x, m), (obj_GetSubKey ops x, ''from '' @ obj_GetPrevSubKey ops x @ a)])"
proof -
  obtain m a where ma: "marshal (modMsg_json ops (mod_msg_of ops x)) = Inr m"
    "marshal (addMsg_json ops (add_msg_of ops (snd (obj_Resolve ops x)) (obj_GetPrevSubKey ops x) (obj_TypeKey ops x))) = Inr a"
    using marshal_mod marshal_add by blast
  show thesis by (rule that [OF ma]) (simp add: modify_messages_def ma Let_def del: append.simps)
qed

text \<open>What a browser gets of a modification, by what it is subscribed to.\<close>

lemma modify_reaches:
  assumes "services_ok e view" "modify e s = Some s'" "CHR ''{'' \<notin> set (obj_GetPrevSubKey ops (object_of s))" "room 2 to"
  obtains m a where "deliver_all subs (published_since (view s) (view s')) to =
      queued (modify_delivery subs (obj_GetPrevSubKey ops (object_of s)) (obj_GetSubKey ops (object_of s)) m a) to"
    "marshal (modMsg_json ops (mod_msg_of ops (object_of s))) = Inr m"
    "marshal (addMsg_json ops (add_msg_of ops (object_of s') (obj_GetPrevSubKey ops (object_of s)) (obj_TypeKey ops (object_of s)))) = Inr a"
proof -
  let ?x = "object_of s" and ?y = "snd (obj_Resolve ops (object_of s))"
  obtain m a where ma: "marshal (modMsg_json ops (mod_msg_of ops ?x)) = Inr m"
    "marshal (addMsg_json ops (add_msg_of ops ?y (obj_GetPrevSubKey ops ?x) (obj_TypeKey ops ?x))) = Inr a"
    and pub: "modify_messages ops ?x = (if obj_GetSubKey ops ?x = obj_GetPrevSubKey ops ?x then [(obj_GetPrevSubKey ops ?x, m)]
       else [(obj_GetPrevSubKey ops ?x, m), (obj_GetSubKey ops ?x, ''from '' @ obj_GetPrevSubKey ops ?x @ a)])"
    by (rule modify_messages_eq)
  obtain r1 r2 where br: "m = CHR ''{'' # r1" "a = CHR ''{'' # r2"
    using marshal_msg_brace(2) [OF ma(1)] marshal_msg_brace(1) [OF ma(2)] by blast
  have rooms: "room (Suc 0) to" "room (Suc 0) (queued [m] to)"
    using assms(4) by (auto simp: room_def queued_def)
  have "deliver_all subs (published_since (view s) (view s')) to =
      queued (modify_delivery subs (obj_GetPrevSubKey ops ?x) (obj_GetSubKey ops ?x) m a) to"
    using deliver_json [OF rooms(1) br(1)] deliver_moved [OF rooms(1) br(2) assms(3)]
      deliver_moved [OF rooms(2) br(2) assms(3)]
    by (simp add: modify_publishes [OF assms(1,2)] pub modify_delivery_def)
  moreover have "add_msg_of ops (object_of s') p t = add_msg_of ops ?y p t" for p t
    using modify_resolves [OF assms(1,2)] by (simp add: add_msg_of_def looks_like_def)
  ultimately show thesis using ma by (intro that) simp_all
qed

end

section \<open>The two back ends\<close>

definition mongo_modify :: "('o, 'd) object_ops \<Rightarrow> ('m, 'o, 'raw) mongo \<times> 'r redis \<Rightarrow> ('o, 'm, 'r) mstate \<Rightarrow> ('o, 'm, 'r) mstate option" where
  "mongo_modify ops e s = (case MongoSynk_Modify ops (fst e) (snd e) s of (Ret None, s') \<Rightarrow> Some s' | _ \<Rightarrow> None)"

definition mongo_delete :: "('o, 'd) object_ops \<Rightarrow> ('m, 'o, 'raw) mongo \<times> 'r redis \<Rightarrow> ('o, 'm, 'r) mstate \<Rightarrow> ('o, 'm, 'r) mstate option" where
  "mongo_delete ops e s = (case MongoSynk_Delete ops (fst e) (snd e) s of (Ret None, s') \<Rightarrow> Some s' | _ \<Rightarrow> None)"

definition mongo_ok :: "('m, entity, 'raw) mongo \<times> 'r redis \<Rightarrow> ((entity, 'm, 'r) mstate \<Rightarrow> redis_db) \<Rightarrow> bool" where
  "mongo_ok e view \<longleftrightarrow> (\<exists>db docs. redis_behaves (snd e) db \<and>
     mongo_behaves entity_ops entity_tag creator entity_stored (fst e) docs \<and> view = (\<lambda>s. db (ms_redis s)))"

definition redis_modify :: "('o, 'd) object_ops \<Rightarrow> 'r redis \<Rightarrow> ('o, 'r) rstate \<Rightarrow> ('o, 'r) rstate option" where
  "redis_modify ops rd s = (case RedisSynk_Modify ops rd s of (Ret None, s') \<Rightarrow> Some s' | _ \<Rightarrow> None)"

definition redis_delete :: "('o, 'd) object_ops \<Rightarrow> 'r redis \<Rightarrow> ('o, 'r) rstate \<Rightarrow> ('o, 'r) rstate option" where
  "redis_delete ops rd s = (case RedisSynk_Delete ops rd s of (Ret None, s') \<Rightarrow> Some s' | _ \<Rightarrow> None)"

definition redis_ok :: "'r redis \<Rightarrow> ((entity, 'r) rstate \<Rightarrow> redis_db) \<Rightarrow> bool" where
  "redis_ok rd view \<longleftrightarrow> (\<exists>db. redis_behaves rd db \<and> view = (\<lambda>s. db (rs_redis s)))"

lemma published_post:
  "db_published (redis_post c d) = db_published d @ (case c of PUBLISH ch b \<Rightarrow> [(ch, b)] | _ \<Rightarrow> [])"
  by (cases c) (auto split: option.split redis_value.split)

lemma published_since_fold:
  "published_since d (fold redis_post cs d) = concat (map (\<lambda>c. case c of PUBLISH ch b \<Rightarrow> [(ch, b)] | _ \<Rightarrow> []) cs)"
proof -
  have "db_published (fold redis_post cs e) =
      db_published e @ concat (map (\<lambda>c. case c of PUBLISH ch b \<Rightarrow> [(ch, b)] | _ \<Rightarrow> []) cs)" for e
    by (induction cs arbitrary: e) (simp_all add: published_post)
  then show ?thesis by (simp add: published_since_def)
qed

context synk_object
begin

lemma looks_like_modified: "looks_like ops (modified_obj ops x) (snd (obj_Resolve ops x))"
  by (simp add: looks_like_def modified_obj_def Let_def set_sub_id set_sub_type set_sub_state set_sub_version set_sub_keys)

lemma modified_sub:
  "TagSub (tag_of (modified_obj ops x)) =
     (if obj_GetSubKey ops x = obj_GetPrevSubKey ops x then TagSub (tag_of x) else obj_GetSubKey ops x)"
  by (simp add: modified_obj_def Let_def set_sub_sub resolve_stored_sub)

lemma mongo_modify_publishes:
  assumes "redis_behaves rd db" "mongo_behaves ops tag_of mk stored mg docs" "mongo_modify ops (mg, rd) s = Some s'"
  shows "published_since (db (ms_redis s)) (db (ms_redis s')) = modify_messages ops (ms_obj s)"
    "ms_obj s' = modified_obj ops (ms_obj s)"
proof -
  have call: "MongoSynk_Modify ops mg rd s = (Ret None, s')"
    using assms(3) by (auto simp: mongo_modify_def split: prod.splits go.splits option.splits)
  have "add_msg_of ops (modified_obj ops x) p t = add_msg_of ops (snd (obj_Resolve ops x)) p t" for x p t
    using looks_like_modified [of x] by (simp add: add_msg_of_def looks_like_def)
  with Modify_published [OF assms(1,2) call]
  show "published_since (db (ms_redis s)) (db (ms_redis s')) = modify_messages ops (ms_obj s)"
    by (auto simp: modify_messages_def Let_def simp del: append.simps)
  show "ms_obj s' = modified_obj ops (ms_obj s)" using Modify_Ret [OF assms(1,2) call] by simp
qed

lemma mongo_delete_publishes:
  assumes "redis_behaves rd db" "mongo_behaves ops tag_of mk stored mg docs" "mongo_delete ops (mg, rd) s = Some s'"
  shows "published_since (db (ms_redis s)) (db (ms_redis s')) = delete_messages ops (ms_obj s)"
proof -
  have "MongoSynk_Delete ops mg rd s = (Ret None, s')"
    using assms(3) by (auto simp: mongo_delete_def split: prod.splits go.splits option.splits)
  from Delete_Ret [OF assms(1,2) this] show ?thesis by (auto simp: delete_messages_def)
qed

lemma redis_modify_publishes:
  assumes "redis_behaves rd db" "redis_modify ops rd s = Some s'"
  shows "published_since (db (rs_redis s)) (db (rs_redis s')) = modify_messages ops (rs_obj s)"
    "rs_obj s' = snd (obj_Resolve ops (rs_obj s))"
proof -
  let ?x = "rs_obj s" and ?y = "snd (obj_Resolve ops (rs_obj s))"
  obtain r1 where r1: "rd_Get rd (rs_redis s) = (None, r1)" and call: "redisModObject ops rd (s\<lparr>rs_redis := r1\<rparr>) = (None, s')"
    using assms(2) by (auto simp: redis_modify_def RedisSynk_Modify_def on_conn_Ret split: prod.splits go.splits option.splits)
  have "db r1 = db (rs_redis s)" using redis_GetD [OF assms(1), of "rs_redis s"] r1 by simp
  note ok = redisModObject_ok [OF assms(1) call, unfolded same_state this]
  then show "rs_obj s' = ?y" by blast
  have add: "add_msg_of ops ?y p (obj_TypeKey ops ?x) = \<lparr>add_State = obj_State ops ?y, add_ID = obj_TagGetID ops ?x,
      add_SKey = obj_GetSubKey ops ?x, add_PSKey = p, add_Version = obj_Version ops ?y, add_Type = obj_TypeKey ops ?y\<rparr>" for p
    by (simp add: add_msg_of_def resolve_id resolve_type resolve_sub)
  show "published_since (db (rs_redis s)) (db (rs_redis s')) = modify_messages ops ?x"
  proof (cases "obj_GetSubKey ops ?x = obj_GetPrevSubKey ops ?x")
    case True
    from ok [unfolded if_P [OF True]] obtain b j where "marshal (modMsg_json ops (mod_msg_of ops ?x)) = Inr b"
      and d: "db (rs_redis s') = fold redis_post [SADD (obj_GetSubKey ops ?x) (redisKey ops ?x), SET (redisKey ops ?x) j,
        PUBLISH (obj_GetPrevSubKey ops ?x) b] (db (rs_redis s))"
      by blast
    then show ?thesis unfolding d published_since_fold by (simp add: modify_messages_def True)
  next
    case False
    from ok [unfolded if_not_P [OF False]] obtain b j c where "marshal (modMsg_json ops (mod_msg_of ops ?x)) = Inr b"
      and "marshal (addMsg_json ops (add_msg_of ops ?y (obj_GetPrevSubKey ops ?x) (obj_TypeKey ops ?x))) = Inr c"
      and d: "db (rs_redis s') = fold redis_post [SREM (obj_GetPrevSubKey ops ?x) (redisKey ops ?x), SADD (obj_GetSubKey ops ?x) (redisKey ops ?x),
        SET (redisKey ops ?x) j, PUBLISH (obj_GetPrevSubKey ops ?x) b,
        PUBLISH (obj_GetSubKey ops ?x) (''from '' @ obj_GetPrevSubKey ops ?x @ c)] (db (rs_redis s))"
      unfolding add by blast
    then show ?thesis unfolding d published_since_fold by (simp add: modify_messages_def False Let_def)
  qed
qed

lemma redis_delete_publishes:
  assumes "redis_behaves rd db" "redis_delete ops rd s = Some s'"
  shows "published_since (db (rs_redis s)) (db (rs_redis s')) = delete_messages ops (rs_obj s)"
proof -
  obtain r1 where r1: "rd_Get rd (rs_redis s) = (None, r1)" and call: "redisDelObject ops rd (s\<lparr>rs_redis := r1\<rparr>) = (None, s')"
    using assms(2) by (auto simp: redis_delete_def RedisSynk_Delete_def on_conn_Ret split: prod.splits go.splits option.splits)
  have "db r1 = db (rs_redis s)" using redis_GetD [OF assms(1), of "rs_redis s"] r1 by simp
  from redisDelObject_ok [OF assms(1) call, unfolded same_state this] obtain b where "marshal (remMsg_json (rem_msg_of ops (rs_obj s))) = Inr b"
    and d: "db (rs_redis s') = fold redis_post [SREM (obj_GetPrevSubKey ops (rs_obj s)) (redisKey ops (rs_obj s)),
      DEL (redisKey ops (rs_obj s)), PUBLISH (obj_GetPrevSubKey ops (rs_obj s)) b] (db (rs_redis s))"
    by blast
  then show ?thesis unfolding d published_since_fold by (simp add: delete_messages_def)
qed

end

interpretation mongo: mutator entity_ops entity_tag mongo_ok ms_obj "mongo_modify entity_ops" "mongo_delete entity_ops"
proof unfold_locales
  fix e :: "('m, entity, 'raw) mongo \<times> 'r redis" and view s s'
  assume ok: "mongo_ok e view"
  then obtain db docs where e: "redis_behaves (snd e) db" "view = (\<lambda>s. db (ms_redis s))"
      "mongo_behaves entity_ops entity_tag creator entity_stored (fst e) docs"
    by (auto simp: mongo_ok_def)
  note call = entity.mongo_modify_publishes [of "snd e" db creator entity_stored "fst e" docs s s', OF e(1,3)]
  show "published_since (view s) (view s') = modify_messages entity_ops (ms_obj s)"
    "looks_like entity_ops (ms_obj s') (snd (obj_Resolve entity_ops (ms_obj s)))"
    if "mongo_modify entity_ops e s = Some s'"
    using that call entity.looks_like_modified by (simp_all add: e(2))
  show "published_since (view s) (view s') = delete_messages entity_ops (ms_obj s)"
    if "mongo_delete entity_ops e s = Some s'"
    using that entity.mongo_delete_publishes [OF e(1,3), of s s'] by (simp add: e(2))
qed

interpretation redis: mutator entity_ops entity_tag redis_ok rs_obj "redis_modify entity_ops" "redis_delete entity_ops"
proof unfold_locales
  fix rd :: "'r redis" and view s s'
  assume "redis_ok rd view"
  then obtain db where e: "redis_behaves rd db" "view = (\<lambda>s. db (rs_redis s))" by (auto simp: redis_ok_def)
  show "published_since (view s) (view s') = modify_messages entity_ops (rs_obj s)"
    "looks_like entity_ops (rs_obj s') (snd (obj_Resolve entity_ops (rs_obj s)))"
    if "redis_modify entity_ops rd s = Some s'"
    using entity.redis_modify_publishes [OF e(1) that] by (simp_all add: e(2) looks_like_def)
  show "published_since (view s) (view s') = delete_messages entity_ops (rs_obj s)"
    if "redis_delete entity_ops rd s = Some s'"
    using entity.redis_delete_publishes [OF e(1) that] by (simp add: e(2))
qed

end
