(* ===== verification/Mutator_Props.thy ===== *)
theory Mutator_Props
  imports Mutators Examples
begin

text \<open>The two back ends side by side, through the contract they share.\<close>

section \<open>Properties\<close>

text \<open>
  C25: The back ends are the same to clients: modifying, or deleting, an object through \<open>MongoSynk\<close> and
  through \<open>RedisSynk\<close> publishes the same messages on the same channels in the same order, and leaves
  an object that looks the same. They differ in the tag: a move through \<open>MongoSynk\<close> stores the new key
  in it, one through \<open>RedisSynk\<close> leaves the old value there.
\<close>

theorem backends_agree:
  assumes "mongo_ok e view" "redis_ok rd view'" "ms_obj s = rs_obj t"
  shows "(mongo_modify entity_ops e s = Some s' \<longrightarrow> redis_modify entity_ops rd t = Some t' \<longrightarrow>
      published_since (view s) (view s') = published_since (view' t) (view' t') \<and>
      looks_like entity_ops (ms_obj s') (rs_obj t') \<and>
      TagSub (entity_tag (rs_obj t')) = TagSub (entity_tag (rs_obj t)) \<and>
      TagSub (entity_tag (ms_obj s')) =
        (if obj_GetSubKey entity_ops (ms_obj s) = obj_GetPrevSubKey entity_ops (ms_obj s) then TagSub (entity_tag (ms_obj s))
         else obj_GetSubKey entity_ops (ms_obj s))) \<and>
    (mongo_delete entity_ops e s = Some s' \<longrightarrow> redis_delete entity_ops rd t = Some t' \<longrightarrow>
      published_since (view s) (view s') = published_since (view' t) (view' t'))"
proof (intro conjI impI)
  assume m: "mongo_modify entity_ops e s = Some s'" and r: "redis_modify entity_ops rd t = Some t'"
  show "published_since (view s) (view s') = published_since (view' t) (view' t')"
    unfolding mongo.modify_publishes [OF assms(1) m] redis.modify_publishes [OF assms(2) r] assms(3) by simp
  show "looks_like entity_ops (ms_obj s') (rs_obj t')"
    using mongo.modify_resolves [OF assms(1) m] redis.modify_resolves [OF assms(2) r] assms(3) by (simp add: looks_like_def)
  obtain db where "redis_behaves rd db" using assms(2) by (auto simp: redis_ok_def)
  from entity.redis_modify_publishes(2) [OF this r]
  show "TagSub (entity_tag (rs_obj t')) = TagSub (entity_tag (rs_obj t))" by (simp only: entity.resolve_stored_sub)
  obtain db docs where "redis_behaves (snd e) db" "mongo_behaves entity_ops entity_tag creator entity_stored (fst e) docs"
    using assms(1) by (auto simp: mongo_ok_def)
  then have "ms_obj s' = modified_obj entity_ops (ms_obj s)"
    using entity.mongo_modify_publishes(2) [of "snd e" db creator entity_stored "fst e" docs s s'] m by simp
  then show "TagSub (entity_tag (ms_obj s')) =
      (if obj_GetSubKey entity_ops (ms_obj s) = obj_GetPrevSubKey entity_ops (ms_obj s) then TagSub (entity_tag (ms_obj s))
       else obj_GetSubKey entity_ops (ms_obj s))"
    by (simp only: entity.modified_sub)
next
  assume m: "mongo_delete entity_ops e s = Some s'" and r: "redis_delete entity_ops rd t = Some t'"
  show "published_since (view s) (view s') = published_since (view' t) (view' t')"
    unfolding mongo.delete_publishes [OF assms(1) m] redis.delete_publishes [OF assms(2) r] assms(3) by simp
qed

text \<open>The move of the examples, through the Redis back end.\<close>

definition redis_move :: "(entity, mem_db) rstate" where
  "redis_move = \<lparr>rs_obj = ms_obj demo_move, rs_rand = demo_rand, rs_redis = mem_empty\<rparr>"

lemma redis_move_call: "fst (redisModObject entity_ops mem_redis redis_move) = None"
  by code_simp

lemma backends_agree_witness:
  "\<exists>s' t'. mongo_modify entity_ops (mem_mongo, mem_redis) demo_move = Some s' \<and>
     redis_modify entity_ops mem_redis redis_move = Some t' \<and>
     published_since (mem_view (ms_redis demo_move)) (mem_view (ms_redis s')) =
       published_since (mem_view (rs_redis redis_move)) (mem_view (rs_redis t')) \<and>
     TagSub (entity_tag (ms_obj s')) = ''m:1|0'' \<and> TagSub (entity_tag (rs_obj t')) = ''m:0|0''"
proof -
  obtain s' where s': "mongo_modify entity_ops (mem_mongo, mem_redis) demo_move = Some s'"
    using demo_Modify by (cases "MongoSynk_Modify entity_ops mem_mongo mem_redis demo_move") (simp add: mongo_modify_def)
  obtain t' where t': "redis_modify entity_ops mem_redis redis_move = Some t'"
    using redis_move_call by (cases "redisModObject entity_ops mem_redis redis_move") (simp add: redis_modify_def RedisSynk_Modify_def on_conn_def mem_redis_def)
  have "mongo_ok (mem_mongo, mem_redis) (\<lambda>s. mem_view (ms_redis s))" "redis_ok mem_redis (\<lambda>t. mem_view (rs_redis t))"
    using mem_redis_behaves mem_mongo_behaves by (auto simp: mongo_ok_def redis_ok_def)
  from backends_agree [OF this, of demo_move redis_move s' t'] s' t'
  have "published_since (mem_view (ms_redis demo_move)) (mem_view (ms_redis s')) =
      published_since (mem_view (rs_redis redis_move)) (mem_view (rs_redis t')) \<and>
     TagSub (entity_tag (ms_obj s')) = ''m:1|0'' \<and> TagSub (entity_tag (rs_obj t')) = TagSub (entity_tag (rs_obj redis_move))"
    by (simp add: redis_move_def demo_move_keys)
  moreover have "TagSub (entity_tag (rs_obj redis_move)) = ''m:0|0''"
    by (simp add: redis_move_def demo_move_def demo_human_def Human_SetCX_def)
  ultimately show ?thesis using s' t' by metis
qed

end
