(* ===== verification/Orc_Heap.thy ===== *)
theory Orc_Heap
  imports Object_Props
begin

text \<open>
  The pointers of the diffs. In Go a diff holds addresses: a setter stores the address of its argument,
  \<open>State\<close> and \<open>Init\<close> those of the object's own fields, and \<open>Copy\<close> copies the addresses. \<open>Orc\<close>
  treats them as optional values; here its methods are written over an explicit memory, and shown to
  be what \<open>Orc\<close> says as long as one object is concerned. Between an object and its copy the
  difference shows.
\<close>

section \<open>Memory\<close>

record heap =
  cell :: "nat \<Rightarrow> string"
  limit :: nat  \<comment> \<open>the cells from here on are unused\<close>

definition heap_new :: "string \<Rightarrow> heap \<Rightarrow> nat \<times> heap" where
  "heap_new v h = (limit h, h\<lparr>cell := (cell h)(limit h := v), limit := Suc (limit h)\<rparr>)"

definition heap_put :: "nat \<Rightarrow> string \<Rightarrow> heap \<Rightarrow> heap" where
  "heap_put a v h = h\<lparr>cell := (cell h)(a := v)\<rparr>"

record orc_pointers =
  pID :: "nat option"
  pSubKey :: "nat option"
  pName :: "nat option"

record orc_object =
  aTag :: tag
  aID :: nat
  aSubKey :: nat
  aName :: nat
  adiff :: orc_pointers

section \<open>The methods\<close>

definition nil_pointers :: orc_pointers where
  "nil_pointers = \<lparr>pID = None, pSubKey = None, pName = None\<rparr>"

text \<open>\<open>if v != o.F { o.diff.F = &v } else { o.diff.F = nil }\<close>: the argument moves to the heap.\<close>

definition diff_pointer :: "nat \<Rightarrow> string \<Rightarrow> heap \<Rightarrow> nat option \<times> heap" where
  "diff_pointer a v h = (if v \<noteq> cell h a then (let (p, h') = heap_new v h in (Some p, h')) else (None, h))"

definition heap_SetID :: "string \<Rightarrow> heap \<times> orc_object \<Rightarrow> heap \<times> orc_object" where
  "heap_SetID v s = (let (p, h) = diff_pointer (aID (snd s)) v (fst s)
     in (h, (snd s)\<lparr>adiff := (adiff (snd s))\<lparr>pID := p\<rparr>\<rparr>))"

definition heap_SetSubKey :: "string \<Rightarrow> heap \<times> orc_object \<Rightarrow> heap \<times> orc_object" where
  "heap_SetSubKey v s = (let (p, h) = diff_pointer (aSubKey (snd s)) v (fst s)
     in (h, (snd s)\<lparr>adiff := (adiff (snd s))\<lparr>pSubKey := p\<rparr>\<rparr>))"

definition heap_SetName :: "string \<Rightarrow> heap \<times> orc_object \<Rightarrow> heap \<times> orc_object" where
  "heap_SetName v s = (let (p, h) = diff_pointer (aName (snd s)) v (fst s)
     in (h, (snd s)\<lparr>adiff := (adiff (snd s))\<lparr>pName := p\<rparr>\<rparr>))"

definition heap_State :: "orc_object \<Rightarrow> orc_pointers" where
  "heap_State x = \<lparr>pID = Some (aID x), pSubKey = Some (aSubKey x), pName = Some (aName x)\<rparr>"

definition heap_Init :: "heap \<times> orc_object \<Rightarrow> heap \<times> orc_object" where
  "heap_Init s = (fst s, (snd s)\<lparr>adiff := heap_State (snd s)\<rparr>)"

text \<open>\<open>if o.diff.F != nil { o.F = *o.diff.F }\<close>.\<close>

definition apply_pointer :: "nat \<Rightarrow> nat option \<Rightarrow> heap \<Rightarrow> heap" where
  "apply_pointer a p h = (case p of Some b \<Rightarrow> heap_put a (cell h b) h | None \<Rightarrow> h)"

definition heap_Resolve :: "heap \<times> orc_object \<Rightarrow> orc_pointers \<times> heap \<times> orc_object" where
  "heap_Resolve s =
     (let x = snd s;
          h1 = apply_pointer (aID x) (pID (adiff x)) (fst s);
          h2 = apply_pointer (aSubKey x) (pSubKey (adiff x)) h1;
          h3 = apply_pointer (aName x) (pName (adiff x)) h2;
          x1 = x\<lparr>aTag := bump_version (aTag x)\<rparr>;
          diff = adiff x1;
          x2 = x1\<lparr>adiff := nil_pointers\<rparr>
      in (diff, h3, x2))"

definition heap_Copy :: "heap \<times> orc_object \<Rightarrow> heap \<times> orc_object" where
  "heap_Copy s =
     (let x = snd s;
          (a, h1) = heap_new (cell (fst s) (aID x)) (fst s);
          (b, h2) = heap_new (cell h1 (aSubKey x)) h1;
          (c, h3) = heap_new (cell h2 (aName x)) h2
      in (h3, x\<lparr>aID := a, aSubKey := b, aName := c\<rparr>))"

section \<open>Reading the memory\<close>

definition read_diff :: "heap \<Rightarrow> orc_pointers \<Rightarrow> orc_diff" where
  "read_diff h d = \<lparr>eID = map_option (cell h) (pID d), eSubKey = map_option (cell h) (pSubKey d),
     eName = map_option (cell h) (pName d)\<rparr>"

definition read_orc :: "heap \<times> orc_object \<Rightarrow> orc" where
  "read_orc s = \<lparr>oTag = aTag (snd s), oID = cell (fst s) (aID (snd s)), oSubKey = cell (fst s) (aSubKey (snd s)),
     oName = cell (fst s) (aName (snd s)), odiff = read_diff (fst s) (adiff (snd s))\<rparr>"

text \<open>
  The fields of an object are different cells, and a pointer of its diff is the address of its own
  field or of a cell that is no field of the object.
\<close>

definition own_cells :: "orc_object \<Rightarrow> nat set" where
  "own_cells x = {aID x, aSubKey x, aName x}"

definition pointer_ok :: "heap \<times> orc_object \<Rightarrow> nat \<Rightarrow> nat option \<Rightarrow> bool" where
  "pointer_ok s a p \<longleftrightarrow> (case p of None \<Rightarrow> True | Some b \<Rightarrow> b < limit (fst s) \<and> (b = a \<or> b \<notin> own_cells (snd s)))"

definition object_ok :: "heap \<times> orc_object \<Rightarrow> bool" where
  "object_ok s \<longleftrightarrow> distinct [aID (snd s), aSubKey (snd s), aName (snd s)] \<and>
     (\<forall>a \<in> own_cells (snd s). a < limit (fst s)) \<and>
     pointer_ok s (aID (snd s)) (pID (adiff (snd s))) \<and> pointer_ok s (aSubKey (snd s)) (pSubKey (adiff (snd s))) \<and>
     pointer_ok s (aName (snd s)) (pName (adiff (snd s)))"

datatype heap_op = HSet orc_op | HResolve | HInit

fun heap_do :: "heap_op \<Rightarrow> heap \<times> orc_object \<Rightarrow> heap \<times> orc_object" where
  "heap_do (HSet (SetID v)) s = heap_SetID v s"
| "heap_do (HSet (SetSubKey v)) s = heap_SetSubKey v s"
| "heap_do (HSet (SetName v)) s = heap_SetName v s"
| "heap_do HResolve s = snd (heap_Resolve s)"
| "heap_do HInit s = heap_Init s"

fun value_do :: "heap_op \<Rightarrow> orc \<Rightarrow> orc" where
  "value_do (HSet m) x = orc_do m x"
| "value_do HResolve x = snd (Orc_Resolve x)"
| "value_do HInit x = Orc_Init x"

section \<open>One object\<close>

lemmas heap_defs = heap_new_def heap_put_def diff_pointer_def apply_pointer_def Let_def

lemmas object_defs = object_ok_def pointer_ok_def own_cells_def

lemma heap_SetID_ok:
  assumes "object_ok s"
  shows "object_ok (heap_SetID v s) \<and> read_orc (heap_SetID v s) = Orc_SetID v (read_orc s)"
proof (cases s)
  case (Pair h x)
  with assms show ?thesis
    by (cases "pID (adiff x)"; cases "pSubKey (adiff x)"; cases "pName (adiff x)")
      (auto simp: heap_SetID_def heap_defs object_defs read_orc_def read_diff_def Orc_SetID_def)
qed

lemma heap_SetSubKey_ok:
  assumes "object_ok s"
  shows "object_ok (heap_SetSubKey v s) \<and> read_orc (heap_SetSubKey v s) = Orc_SetSubKey v (read_orc s)"
proof (cases s)
  case (Pair h x)
  with assms show ?thesis
    by (cases "pID (adiff x)"; cases "pSubKey (adiff x)"; cases "pName (adiff x)")
      (auto simp: heap_SetSubKey_def heap_defs object_defs read_orc_def read_diff_def Orc_SetSubKey_def)
qed

lemma heap_SetName_ok:
  assumes "object_ok s"
  shows "object_ok (heap_SetName v s) \<and> read_orc (heap_SetName v s) = Orc_SetName v (read_orc s)"
proof (cases s)
  case (Pair h x)
  with assms show ?thesis
    by (cases "pID (adiff x)"; cases "pSubKey (adiff x)"; cases "pName (adiff x)")
      (auto simp: heap_SetName_def heap_defs object_defs read_orc_def read_diff_def Orc_SetName_def)
qed

lemma heap_Init_ok:
  "object_ok s \<Longrightarrow> object_ok (heap_Init s) \<and> read_orc (heap_Init s) = Orc_Init (read_orc s)"
  by (auto simp: heap_Init_def heap_State_def object_defs read_orc_def read_diff_def Orc_Init_def Orc_State_def)

text \<open>What a field becomes.\<close>

definition deref :: "heap \<Rightarrow> nat \<Rightarrow> nat option \<Rightarrow> string" where
  "deref h a p = (case p of Some b \<Rightarrow> cell h b | None \<Rightarrow> cell h a)"

lemma apply_pointer_cell: "cell (apply_pointer a p h) = (cell h)(a := deref h a p)" "limit (apply_pointer a p h) = limit h"
  by (auto simp: apply_pointer_def heap_put_def deref_def fun_eq_iff split: option.split)

lemma deref_elsewhere:
  assumes "cell h' = (cell h)(b := v)" "a \<noteq> b" "p \<noteq> Some b"
  shows "deref h' a p = deref h a p"
  using assms by (auto simp: deref_def split: option.split)

lemma heap_Resolve_cells:
  assumes "object_ok (h, x)"
  shows "\<exists>h'. heap_Resolve (h, x) = (adiff x, h', x\<lparr>aTag := bump_version (aTag x), adiff := nil_pointers\<rparr>) \<and>
    limit h' = limit h \<and> cell h' = (cell h)(aID x := deref h (aID x) (pID (adiff x)),
      aSubKey x := deref h (aSubKey x) (pSubKey (adiff x)), aName x := deref h (aName x) (pName (adiff x)))"
proof -
  let ?h1 = "apply_pointer (aID x) (pID (adiff x)) h"
  let ?h2 = "apply_pointer (aSubKey x) (pSubKey (adiff x)) ?h1"
  have p: "aID x \<noteq> aSubKey x" "aID x \<noteq> aName x" "aSubKey x \<noteq> aName x"
      "pSubKey (adiff x) \<noteq> Some (aID x)" "pName (adiff x) \<noteq> Some (aID x)" "pName (adiff x) \<noteq> Some (aSubKey x)"
    using assms by (auto simp: object_defs split: option.splits)
  have 1: "deref ?h1 (aSubKey x) (pSubKey (adiff x)) = deref h (aSubKey x) (pSubKey (adiff x))"
      "deref ?h1 (aName x) (pName (adiff x)) = deref h (aName x) (pName (adiff x))"
    by (rule deref_elsewhere [OF apply_pointer_cell(1)]; use p in auto)+
  have 2: "deref ?h2 (aName x) (pName (adiff x)) = deref ?h1 (aName x) (pName (adiff x))"
    by (rule deref_elsewhere [OF apply_pointer_cell(1)]; use p in auto)
  show ?thesis
    by (simp add: heap_Resolve_def Let_def apply_pointer_cell 1 2)
qed

text \<open>A pointer of the diff reads the same afterwards: it is the field's own address, or no field.\<close>

lemma resolved_pointer:
  assumes "pointer_ok (h, x) a p" "a \<in> own_cells x" "cell h' a = deref h a p" "\<forall>b. b \<notin> own_cells x \<longrightarrow> cell h' b = cell h b"
  shows "map_option (cell h') p = map_option (cell h) p"
  using assms by (auto simp: pointer_ok_def deref_def split: option.splits)

lemma heap_Resolve_ok:
  assumes "object_ok s" "heap_Resolve s = (d, s')"
  shows "object_ok s' \<and> read_orc s' = snd (Orc_Resolve (read_orc s)) \<and> read_diff (fst s') d = fst (Orc_Resolve (read_orc s))"
proof (cases s)
  case (Pair h x)
  obtain h' where r: "heap_Resolve (h, x) = (adiff x, h', x\<lparr>aTag := bump_version (aTag x), adiff := nil_pointers\<rparr>)"
    and lim: "limit h' = limit h" and c: "cell h' = (cell h)(aID x := deref h (aID x) (pID (adiff x)),
      aSubKey x := deref h (aSubKey x) (pSubKey (adiff x)), aName x := deref h (aName x) (pName (adiff x)))"
    using heap_Resolve_cells assms(1) Pair by blast
  have ok: "distinct [aID x, aSubKey x, aName x]" "\<forall>a \<in> own_cells x. a < limit h"
      "pointer_ok (h, x) (aID x) (pID (adiff x))" "pointer_ok (h, x) (aSubKey x) (pSubKey (adiff x))"
      "pointer_ok (h, x) (aName x) (pName (adiff x))"
    using assms(1) Pair by (simp_all add: object_ok_def)
  have rest: "\<forall>b. b \<notin> own_cells x \<longrightarrow> cell h' b = cell h b" by (simp add: c own_cells_def)
  have "read_diff h' (adiff x) = read_diff h (adiff x)"
    using resolved_pointer [OF ok(3) _ _ rest] resolved_pointer [OF ok(4) _ _ rest] resolved_pointer [OF ok(5) _ _ rest] ok(1)
    by (simp add: read_diff_def c own_cells_def)
  moreover have "object_ok (h', x\<lparr>aTag := bump_version (aTag x), adiff := nil_pointers\<rparr>)"
    using ok by (simp add: object_ok_def lim own_cells_def pointer_ok_def nil_pointers_def)
  moreover have "read_orc (h', x\<lparr>aTag := bump_version (aTag x), adiff := nil_pointers\<rparr>) = snd (Orc_Resolve (read_orc (h, x)))"
    "fst (Orc_Resolve (read_orc (h, x))) = read_diff h (adiff x)"
    using ok(1) by (auto simp: read_orc_def read_diff_def Orc_Resolve_def Let_def c deref_def nil_pointers_def no_orc_diff_def
        split: option.split)
  ultimately show ?thesis using assms(2) Pair r by auto
qed

lemma heap_do_ok:
  assumes "object_ok s"
  shows "object_ok (heap_do m s) \<and> read_orc (heap_do m s) = value_do m (read_orc s)"
proof (cases m)
  case (HSet k)
  then show ?thesis
    using heap_SetID_ok [OF assms] heap_SetSubKey_ok [OF assms] heap_SetName_ok [OF assms] by (cases k) simp_all
next
  case HResolve
  then show ?thesis using heap_Resolve_ok [OF assms] by (cases "heap_Resolve s") auto
next
  case HInit
  then show ?thesis using heap_Init_ok [OF assms] by simp
qed

lemma heap_run_ok:
  "object_ok s \<Longrightarrow> object_ok (fold heap_do ms s) \<and> read_orc (fold heap_do ms s) = fold value_do ms (read_orc s)"
  by (induction ms arbitrary: s) (simp_all add: heap_do_ok)

section \<open>An object and its copy\<close>

text \<open>Cells that an operation on an object leaves alone.\<close>

lemma heap_do_frame:
  assumes "object_ok s" "a < limit (fst s)" "a \<notin> own_cells (snd s)"
  shows "cell (fst (heap_do m s)) a = cell (fst s) a \<and> limit (fst s) \<le> limit (fst (heap_do m s)) \<and>
    own_cells (snd (heap_do m s)) = own_cells (snd s)"
proof (cases s)
  case (Pair h x)
  show ?thesis
  proof (cases m)
    case (HSet k)
    with assms Pair show ?thesis
      by (cases k) (auto simp: heap_SetID_def heap_SetSubKey_def heap_SetName_def heap_defs own_cells_def)
  next
    case HResolve
    with assms Pair show ?thesis
      by (auto simp: heap_Resolve_def heap_defs own_cells_def split: option.split)
  next
    case HInit
    with assms Pair show ?thesis by (simp add: heap_Init_def own_cells_def)
  qed
qed

lemma heap_run_frame:
  assumes "object_ok s" "a < limit (fst s)" "a \<notin> own_cells (snd s)"
  shows "cell (fst (fold heap_do ms s)) a = cell (fst s) a"
  using assms
proof (induction ms arbitrary: s)
  case (Cons m ms)
  note f = heap_do_frame [OF Cons.prems, of m]
  have "cell (fst (fold heap_do ms (heap_do m s))) a = cell (fst (heap_do m s)) a"
    by (rule Cons.IH) (use f heap_do_ok [OF Cons.prems(1)] Cons.prems in auto)
  with f show ?case by simp
qed simp

text \<open>The diff of an object has no pointer to the object's own fields: \<open>Init\<close> is not pending.\<close>

definition detached :: "orc_object \<Rightarrow> bool" where
  "detached x \<longleftrightarrow> (\<forall>p \<in> {pID (adiff x), pSubKey (adiff x), pName (adiff x)}. \<forall>b \<in> own_cells x. p \<noteq> Some b)"

lemma heap_Copy_cells:
  assumes "object_ok (h, x)"
  shows "\<exists>h'. heap_Copy (h, x) = (h', x\<lparr>aID := limit h, aSubKey := Suc (limit h), aName := Suc (Suc (limit h))\<rparr>) \<and>
    limit h' = Suc (Suc (Suc (limit h))) \<and> (\<forall>a < limit h. cell h' a = cell h a) \<and>
    cell h' (limit h) = cell h (aID x) \<and> cell h' (Suc (limit h)) = cell h (aSubKey x) \<and>
    cell h' (Suc (Suc (limit h))) = cell h (aName x)"
  using assms by (auto simp: heap_Copy_def heap_new_def Let_def object_ok_def own_cells_def)

text \<open>The copy reads as the object, and nothing that is done to the object changes it while it is detached.\<close>

lemma heap_Copy_reads:
  assumes "object_ok (h, x)" "heap_Copy (h, x) = (h1, c)"
  shows "object_ok (h1, x)" "read_orc (h1, c) = read_orc (h, x)" "adiff c = adiff x"
    "own_cells c \<inter> own_cells x = {}" "\<forall>a \<in> own_cells c. a < limit h1"
    "\<forall>b p. p \<in> {pID (adiff x), pSubKey (adiff x), pName (adiff x)} \<longrightarrow> p = Some b \<longrightarrow> b < limit h1"
    "\<forall>a < limit h. cell h1 a = cell h a"
proof -
  obtain h' where copy: "heap_Copy (h, x) = (h', x\<lparr>aID := limit h, aSubKey := Suc (limit h), aName := Suc (Suc (limit h))\<rparr>)"
    and h': "limit h' = Suc (Suc (Suc (limit h)))" "\<forall>a < limit h. cell h' a = cell h a"
      "cell h' (limit h) = cell h (aID x)" "cell h' (Suc (limit h)) = cell h (aSubKey x)"
      "cell h' (Suc (Suc (limit h))) = cell h (aName x)"
    using heap_Copy_cells [OF assms(1)] by blast
  then have [simp]: "h1 = h'" "c = x\<lparr>aID := limit h, aSubKey := Suc (limit h), aName := Suc (Suc (limit h))\<rparr>"
    using assms(2) by simp_all
  have ptr: "b < limit h" if "p \<in> {pID (adiff x), pSubKey (adiff x), pName (adiff x)}" "p = Some b" for p b
  proof -
    have "\<exists>a. pointer_ok (h, x) a p" using assms(1) that(1) by (auto simp: object_ok_def)
    then show ?thesis by (auto simp: pointer_ok_def that(2))
  qed
  then have same: "map_option (cell h') p = map_option (cell h) p" if "p \<in> {pID (adiff x), pSubKey (adiff x), pName (adiff x)}" for p
    using that h'(2) by (cases p) auto
  show "object_ok (h1, x)"
    using assms(1) by (auto simp: object_ok_def pointer_ok_def h'(1) split: option.splits)
  show "read_orc (h1, c) = read_orc (h, x)" using same by (simp add: read_orc_def read_diff_def h')
  show "own_cells c \<inter> own_cells x = {}" "\<forall>a \<in> own_cells c. a < limit h1" "\<forall>a < limit h. cell h1 a = cell h a"
    using assms(1) h' by (auto simp: own_cells_def object_ok_def)
  show "\<forall>b p. p \<in> {pID (adiff x), pSubKey (adiff x), pName (adiff x)} \<longrightarrow> p = Some b \<longrightarrow> b < limit h1"
    using ptr h'(1) by (metis \<open>h1 = h'\<close> less_SucI)
  show "adiff c = adiff x" by simp
qed

lemma heap_Copy_stays:
  assumes "object_ok (h, x)" "heap_Copy (h, x) = (h1, c)" "detached x"
  shows "read_orc (fst (fold heap_do ms (h1, x)), c) = read_orc (h, x)"
proof -
  note copy = heap_Copy_reads [OF assms(1,2)]
  let ?h = "fst (fold heap_do ms (h1, x))"
  have keep: "cell ?h a = cell h1 a" if "a < limit h1" "a \<notin> own_cells x" for a
    using heap_run_frame [OF copy(1), of a ms] that by simp
  have fields: "cell ?h a = cell h1 a" if "a \<in> own_cells c" for a
    by (rule keep) (use that copy(4,5) in auto)
  have ptr: "map_option (cell ?h) p = map_option (cell h1) p" if "p \<in> {pID (adiff x), pSubKey (adiff x), pName (adiff x)}" for p
  proof (cases p)
    case (Some b)
    then have "cell ?h b = cell h1 b" by (intro keep) (use that copy(6) assms(3) in \<open>auto simp: detached_def\<close>)
    with Some show ?thesis by simp
  qed simp
  have "read_orc (?h, c) = read_orc (h1, c)"
    using ptr fields by (simp add: read_orc_def read_diff_def copy(3) own_cells_def)
  then show ?thesis using copy(2) by simp
qed

section \<open>Properties\<close>

text \<open>
  C29: Pointers read as values: whatever sequence of setter calls, \<open>Resolve\<close> and \<open>Init\<close> is run on an
  object in memory, reading its fields and the targets of its diff gives what the same sequence does to
  the value of the object, and so does reading the diff that \<open>Resolve\<close> returns. No setter is ever
  confused by the addresses that \<open>Init\<close> stores.
\<close>

theorem pointers_read_as_values:
  assumes "object_ok s" "heap_Resolve (fold heap_do ms s) = (d, s')"
  shows "read_orc (fold heap_do ms s) = fold value_do ms (read_orc s) \<and>
    read_diff (fst s') d = fst (Orc_Resolve (fold value_do ms (read_orc s))) \<and>
    read_orc s' = snd (Orc_Resolve (fold value_do ms (read_orc s))) \<and> object_ok s'"
  using heap_run_ok [OF assms(1), of ms] heap_Resolve_ok [OF _ assms(2)] by simp

text \<open>An orc in memory: the cells of its three fields.\<close>

definition demo_memory :: "heap \<times> orc_object" where
  "demo_memory = (\<lparr>cell = (\<lambda>a. if a = 2 then ''Bob'' else ''''), limit = 3\<rparr>,
     \<lparr>aTag = empty_tag, aID = 0, aSubKey = 1, aName = 2, adiff = nil_pointers\<rparr>)"

lemma demo_memory_ok: "object_ok demo_memory"
  by (simp add: demo_memory_def object_defs nil_pointers_def)

lemma pointers_read_as_values_witness:
  "oName (read_orc (fold heap_do [HInit, HSet (SetName ''Al''), HResolve, HSet (SetSubKey ''k'')] demo_memory)) = ''Al''"
proof -
  obtain d s' where "heap_Resolve (fold heap_do [HInit, HSet (SetName ''Al''), HResolve, HSet (SetSubKey ''k'')] demo_memory) = (d, s')"
    by (metis surj_pair)
  from pointers_read_as_values [OF demo_memory_ok this] show ?thesis
    by (simp add: demo_memory_def read_orc_def read_diff_def nil_pointers_def Orc_Init_def Orc_State_def Orc_SetName_def
        Orc_Resolve_def Orc_SetSubKey_def Let_def)
qed

text \<open>
  C30: A copy is a snapshot, unless an \<open>Init\<close> is pending. \<open>Copy\<close> duplicates the fields but shares the
  targets of the diff. After setter calls alone these are never written again, so nothing done to the
  object reaches the copy. After \<open>Init\<close> they are the fields of the object: setting and resolving it
  then changes the diff of the copy, which may be waiting in a channel.
\<close>

theorem copy_snapshot:
  assumes "object_ok (h, x)" "heap_Copy (h, x) = (h1, c)"
  shows "read_orc (h1, c) = read_orc (h, x) \<and>
    (detached x \<longrightarrow> read_orc (fst (fold heap_do ms (h1, x)), c) = read_orc (h, x)) \<and>
    (pID (adiff x) = Some (aID x) \<longrightarrow> v \<noteq> cell h (aID x) \<longrightarrow>
      eID (odiff (read_orc (h1, c))) = Some (cell h (aID x)) \<and>
      eID (odiff (read_orc (fst (fold heap_do [HSet (SetID v), HResolve] (h1, x)), c))) = Some v)"
proof (intro conjI impI)
  note copy = heap_Copy_reads [OF assms]
  show "read_orc (h1, c) = read_orc (h, x)" by (rule copy(2))
  show "read_orc (fst (fold heap_do ms (h1, x)), c) = read_orc (h, x)" if "detached x"
    by (rule heap_Copy_stays [OF assms that])
  assume p: "pID (adiff x) = Some (aID x)" and v: "v \<noteq> cell h (aID x)"
  show "eID (odiff (read_orc (h1, c))) = Some (cell h (aID x))"
    unfolding copy(2) by (simp add: read_orc_def read_diff_def p)
  have "cell h1 (aID x) = cell h (aID x)" using assms(1) copy(7) by (simp add: object_ok_def own_cells_def)
  with v have "v \<noteq> oID (read_orc (h1, x))" by (simp add: read_orc_def)
  then have "oID (fold value_do [HSet (SetID v), HResolve] (read_orc (h1, x))) = v"
    by (simp add: Orc_SetID_def Orc_Resolve_def Let_def split: option.split)
  then have "oID (read_orc (fold heap_do [HSet (SetID v), HResolve] (h1, x))) = v"
    using heap_run_ok [OF copy(1)] by metis
  moreover have "aID (snd (fold heap_do [HSet (SetID v), HResolve] (h1, x))) = aID x"
    by (simp add: heap_SetID_def heap_Resolve_def Let_def case_prod_unfold)
  ultimately have "cell (fst (fold heap_do [HSet (SetID v), HResolve] (h1, x))) (aID x) = v"
    by (simp add: read_orc_def)
  then show "eID (odiff (read_orc (fst (fold heap_do [HSet (SetID v), HResolve] (h1, x)), c))) = Some v"
    by (simp add: read_orc_def read_diff_def copy(3) p)
qed

lemma copy_snapshot_witness:
  "\<exists>h1 c. heap_Copy (heap_Init demo_memory) = (h1, c) \<and> eID (odiff (read_orc (h1, c))) = Some '''' \<and>
     eID (odiff (read_orc (fst (fold heap_do [HSet (SetID ''b''), HResolve] (h1, snd (heap_Init demo_memory))), c))) = Some ''b''"
proof -
  obtain h x where s: "heap_Init demo_memory = (h, x)" by fastforce
  then have hx: "h = fst demo_memory" "pID (adiff x) = Some (aID x)" "cell h (aID x) = ''''"
    by (auto simp: heap_Init_def heap_State_def demo_memory_def)
  have ok: "object_ok (h, x)" using heap_Init_ok [OF demo_memory_ok] s by simp
  obtain h1 c where copy: "heap_Copy (h, x) = (h1, c)" by fastforce
  have "''b'' \<noteq> cell h (aID x)" by (simp add: hx(3))
  from copy_snapshot [OF ok copy, of "[]" "''b''", THEN conjunct2, THEN conjunct2, rule_format, OF hx(2) this]
  show ?thesis unfolding s using copy hx(3) by simp
qed

end
