(* ===== verification/Mongo_Props.thy ===== *)
theory Mongo_Props
  imports Examples
begin

text \<open>
  The properties of the database back end, for every object that satisfies the interface, every
  collection and every Redis server that behave as documented.
\<close>

text \<open>
  C14: a \<open>Create\<close> that returns has given the object an identifier, if it had none, and then called its
  \<open>OnCreate\<close>. Of what \<open>OnCreate\<close> left it has resolved the changes: the object keeps that identifier and
  that subscription key, its version is one higher, its state is the resolved one, its clients and its
  document know it under the current key. It has inserted this object under an identifier that was free,
  and has published one add message, on the object's subscription key, that carries its full state.
\<close>

theorem Create_functional:
  assumes "synk_object ops tag_of" "redis_behaves rd db" "mongo_behaves ops tag_of mk stored mg docs"
    and "MongoSynk_Create ops mg rd s = (Ret v, s')"
  defines "x \<equiv> ms_obj s" and "y \<equiv> ms_obj s'"
  defines "init \<equiv> fst (obj_TagInit ops (obj_TypeKey ops x) x (ms_rand s))"
  defines "hooked \<equiv> (case obj_OnCreate ops init of None \<Rightarrow> init | Some z \<Rightarrow> z)"
  shows "v = None \<and> obj_TagGetID ops init = (if obj_TagGetID ops x = '''' then fst (NewID (ms_rand s)) else obj_TagGetID ops x) \<and>
    obj_TagGetID ops y = obj_TagGetID ops hooked \<and> obj_Version ops y = obj_Version ops hooked + 1 \<and>
    obj_State ops y = obj_State ops (snd (obj_Resolve ops hooked)) \<and>
    obj_GetSubKey ops y = obj_GetSubKey ops hooked \<and> obj_GetPrevSubKey ops y = obj_GetSubKey ops hooked \<and>
    sub_agrees ops tag_of y \<and>
    docs (ms_mongo s) (obj_TagGetID ops y) = None \<and>
    docs (ms_mongo s') = (docs (ms_mongo s))(obj_TagGetID ops y \<mapsto> stored y) \<and>
    (\<exists>b. marshal (addMsg_json ops (add_msg_of ops y '''' (obj_TypeKey ops x))) = Inr b \<and>
       db (ms_redis s') = add_published (obj_GetSubKey ops y) b (db (ms_redis s)))"
proof -
  have tagged: "synk_tagged ops tag_of" using assms(1) by (rule synk_object.axioms(1))
  have y: "y = created_obj ops x (ms_rand s)" using Create_Ret [OF assms(2-4)] by (simp add: x_def y_def)
  note frame = synk_object.created_frame [OF assms(1), of x "ms_rand s", folded y init_def, unfolded run_OnCreate_def, folded hooked_def]
  note keys = synk_object.created_keys [OF assms(1), of x "ms_rand s", folded y] synk_object.set_sub_keys(1) [OF assms(1)]
  have "obj_TagGetID ops init = (if obj_TagGetID ops x = '''' then fst (NewID (ms_rand s)) else obj_TagGetID ops x)"
    unfolding init_def by (rule synk_tagged.init_id [OF tagged])
  then show ?thesis
    using Create_Ret [OF assms(2-4), folded x_def y_def, folded y] frame keys by (auto simp: add_msg_of_def)
qed

text \<open>An implementation with an \<open>OnCreate\<close> method: it places a new human at \<open>x = 7\<close>.\<close>

definition hooked_ops :: "(entity, entity_diff) object_ops" where
  "hooked_ops = entity_ops\<lparr>obj_OnCreate := (\<lambda>x. case x of EHuman h \<Rightarrow> Some (EHuman (Human_SetX 7 h)) | EOrc y \<Rightarrow> None)\<rparr>"

lemma hooked_object: "synk_object hooked_ops entity_tag"
  using entity.synk_object_axioms
  by (simp add: hooked_ops_def synk_object_def synk_object_axioms_def synk_tagged_def)

lemma hooked_mongo: "mongo_behaves hooked_ops entity_tag creator entity_stored mem_mongo map_of"
  using mem_mongo_behaves by (simp add: hooked_ops_def mongo_behaves_def reads_as_def)

lemma Create_functional_witness:
  "\<exists>s' d. MongoSynk_Create hooked_ops mem_mongo mem_redis demo_new = (Ret None, s') \<and>
     obj_State hooked_ops (ms_obj s') = DHuman d \<and> dX d = Some 7 \<and> obj_Version hooked_ops (ms_obj s') = 1 \<and>
     map_of (ms_mongo s') (obj_TagGetID hooked_ops (ms_obj s')) = Some (entity_stored (ms_obj s'))"
proof -
  let ?init = "fst (obj_TagInit hooked_ops (obj_TypeKey hooked_ops (ms_obj demo_new)) (ms_obj demo_new) (ms_rand demo_new))"
  let ?hooked = "case obj_OnCreate hooked_ops ?init of None \<Rightarrow> ?init | Some z \<Rightarrow> z"
  have "fst (MongoSynk_Create hooked_ops mem_mongo mem_redis demo_new) = Ret None" by code_simp
  then obtain s' where call: "MongoSynk_Create hooked_ops mem_mongo mem_redis demo_new = (Ret None, s')"
    by (cases "MongoSynk_Create hooked_ops mem_mongo mem_redis demo_new") simp
  have "obj_State hooked_ops (snd (obj_Resolve hooked_ops ?hooked)) =
      DHuman \<lparr>dX = Some 7, dY = Some 0, dCY = Some 0, dCX = Some 0, dCI = Some 0, dMapID = Some ''m''\<rparr>"
    "obj_Version hooked_ops ?hooked + 1 = 1"
    by code_simp+
  with Create_functional [OF hooked_object mem_redis_behaves hooked_mongo call] call show ?thesis by auto
qed

text \<open>
  C13: a \<open>Modify\<close> that returns has replaced the object's document by the resolved object and has
  published the diff with the new version on the key the clients know the object under; if the key
  changed, the message names the new key and a second message, on the new key, carries the full state
  behind a header that names the old key. Afterwards the old key of the object is the new one, and
  the key stored in the document agrees with it when it did so before.
\<close>

theorem Modify_functional:
  assumes "synk_object ops tag_of" "redis_behaves rd db" "mongo_behaves ops tag_of mk stored mg docs"
    and "MongoSynk_Modify ops mg rd s = (Ret v, s')"
  defines "x \<equiv> ms_obj s"
  shows "v = None \<and> docs (ms_mongo s) (obj_TagGetID ops x) \<noteq> None \<and>
    docs (ms_mongo s') = (docs (ms_mongo s))(obj_TagGetID ops x \<mapsto> stored (ms_obj s')) \<and>
    obj_TagGetID ops (ms_obj s') = obj_TagGetID ops x \<and> obj_Version ops (ms_obj s') = obj_Version ops x + 1 \<and>
    obj_State ops (ms_obj s') = obj_State ops (snd (obj_Resolve ops x)) \<and>
    obj_GetSubKey ops (ms_obj s') = obj_GetSubKey ops x \<and> obj_GetPrevSubKey ops (ms_obj s') = obj_GetSubKey ops x \<and>
    (sub_agrees ops tag_of x \<longrightarrow> sub_agrees ops tag_of (ms_obj s')) \<and>
    (\<exists>b. marshal (modMsg_json ops (mod_msg_of ops x)) = Inr b \<and>
      (if obj_GetSubKey ops x = obj_GetPrevSubKey ops x
       then db (ms_redis s') = add_published (obj_GetPrevSubKey ops x) b (db (ms_redis s))
       else \<exists>c. marshal (addMsg_json ops (add_msg_of ops (ms_obj s') (obj_GetPrevSubKey ops x) (obj_TypeKey ops x))) = Inr c \<and>
         db (ms_redis s') = add_published (obj_GetSubKey ops x) (''from '' @ obj_GetPrevSubKey ops x @ c)
           (add_published (obj_GetPrevSubKey ops x) b (db (ms_redis s)))))"
proof -
  note eff = Modify_Ret [OF assms(2-4), folded x_def, unfolded synk_object.moved_add_msg [OF assms(1)]]
  then have x': "ms_obj s' = modified_obj ops x" by blast
  show ?thesis
    unfolding x' synk_object.modified_frame [OF assms(1)] synk_object.modified_keys [OF assms(1)]
    using eff synk_object.modified_agrees [OF assms(1), of x] by blast
qed

lemma Modify_functional_witness:
  "\<exists>s'. MongoSynk_Modify entity_ops mem_mongo mem_redis demo_move = (Ret None, s') \<and>
     map_of (ms_mongo s') ''a!'' = Some (entity_stored (ms_obj s')) \<and> sub_agrees entity_ops entity_tag (ms_obj s')"
  using Modify_functional [OF entity.synk_object_axioms mem_redis_behaves mem_mongo_behaves demo_Modify] demo_Modify demo_move_keys
  by (metis fun_upd_same)

text \<open>
  C15: a \<open>Delete\<close> that returns has removed the object's document, which existed, has published one
  remove message with its type and identifier on the key the clients know it under, and has left the
  object as it was.
\<close>

theorem Delete_functional:
  assumes "redis_behaves rd db" "mongo_behaves ops tag_of mk stored mg docs"
    and "MongoSynk_Delete ops mg rd s = (Ret v, s')"
  shows "v = None \<and> ms_obj s' = ms_obj s \<and> docs (ms_mongo s) (obj_TagGetID ops (ms_obj s)) \<noteq> None \<and>
    docs (ms_mongo s') = (docs (ms_mongo s))(obj_TagGetID ops (ms_obj s) := None) \<and>
    (\<exists>b. marshal (remMsg_json (rem_msg_of ops (ms_obj s))) = Inr b \<and>
       db (ms_redis s') = add_published (obj_GetPrevSubKey ops (ms_obj s)) b (db (ms_redis s)))"
  by (rule Delete_Ret [OF assms])

lemma Delete_functional_witness:
  "\<exists>s'. MongoSynk_Delete entity_ops mem_mongo mem_redis demo_move = (Ret None, s') \<and> map_of (ms_mongo s') ''a!'' = None"
  using Delete_functional [OF mem_redis_behaves mem_mongo_behaves demo_Delete] demo_Delete demo_move_keys(3)
  by (metis fun_upd_same)

text \<open>
  C16: no message without its document. Whatever the three operations return, and also when they
  panic, the published messages have changed only if the write to the collection that they announce
  has taken effect.
\<close>

theorem write_before_publish:
  assumes "mongo_behaves ops tag_of mk stored mg docs"
  shows "(ms_redis (snd (MongoSynk_Create ops mg rd s)) \<noteq> ms_redis s \<longrightarrow>
      docs (ms_mongo (snd (MongoSynk_Create ops mg rd s))) =
        (docs (ms_mongo s))(obj_TagGetID ops (created_obj ops (ms_obj s) (ms_rand s)) \<mapsto> stored (created_obj ops (ms_obj s) (ms_rand s)))) \<and>
    (ms_redis (snd (MongoSynk_Modify ops mg rd s)) \<noteq> ms_redis s \<longrightarrow>
      docs (ms_mongo (snd (MongoSynk_Modify ops mg rd s))) =
        (docs (ms_mongo s))(obj_TagGetID ops (ms_obj s) \<mapsto> stored (modified_obj ops (ms_obj s)))) \<and>
    (ms_redis (snd (MongoSynk_Delete ops mg rd s)) \<noteq> ms_redis s \<longrightarrow>
      docs (ms_mongo (snd (MongoSynk_Delete ops mg rd s))) = (docs (ms_mongo s))(obj_TagGetID ops (ms_obj s) := None))"
  using Create_write_first [OF assms] Modify_write_first [OF assms] Delete_write_first [OF assms] by blast

lemma write_before_publish_witness:
  "map_of (ms_mongo (snd (MongoSynk_Delete entity_ops mem_mongo mem_redis demo_move))) ''a!'' = None"
proof -
  have "ms_redis (snd (MongoSynk_Delete entity_ops mem_mongo mem_redis demo_move)) \<noteq> ms_redis demo_move"
    by code_simp
  with write_before_publish [OF mem_mongo_behaves, of mem_redis demo_move] demo_move_keys(3) show ?thesis
    by (metis fun_upd_same)
qed

text \<open>
  C17: the collection stays well-formed (every document under its own identifier, with the stored
  subscription key its clients know) through every operation, whether it returns or panics, before or
  after its write took effect; and the object a \<open>Create\<close> or \<open>Modify\<close> leaves behind is in agreement with
  its stored key, which \<open>Modify\<close> needs of the object it is given.
\<close>

theorem collection_invariant:
  assumes "stored_object ops tag_of stored" "mongo_behaves ops tag_of mk stored mg docs" "mongo_atomic ops stored mg docs"
    and "coll_ok ops tag_of (docs (ms_mongo s))"
  shows "(MongoSynk_Create ops mg rd s = (res, s') \<longrightarrow>
      coll_ok ops tag_of (docs (ms_mongo s')) \<and> sub_agrees ops tag_of (ms_obj s')) \<and>
    (MongoSynk_Modify ops mg rd s = (res, s') \<longrightarrow> sub_agrees ops tag_of (ms_obj s) \<longrightarrow>
      coll_ok ops tag_of (docs (ms_mongo s')) \<and> sub_agrees ops tag_of (ms_obj s')) \<and>
    (MongoSynk_Delete ops mg rd s = (res, s') \<longrightarrow> coll_ok ops tag_of (docs (ms_mongo s')))"
  using stored_object.Create_keeps_coll [OF assms, of rd] stored_object.Modify_keeps_coll [OF assms, of rd]
    stored_object.Delete_keeps_coll [OF assms, of rd]
  by auto

text \<open>A server that cannot be reached: \<open>Modify\<close> writes the document and then panics in \<open>Get\<close> of the pool.\<close>

definition lost_redis :: "mem_db redis" where
  "lost_redis = mem_redis\<lparr>rd_Get := (\<lambda>d. (Some ''Failed to connect to redis: timeout'', d))\<rparr>"

lemma collection_invariant_witness:
  "panics (fst (MongoSynk_Modify entity_ops mem_mongo lost_redis demo_move)) \<and>
   coll_ok entity_ops entity_tag (map_of (ms_mongo (snd (MongoSynk_Modify entity_ops mem_mongo lost_redis demo_move))))"
proof -
  have "panics (fst (MongoSynk_Modify entity_ops mem_mongo lost_redis demo_move))" by code_simp
  moreover obtain res s' where "MongoSynk_Modify entity_ops mem_mongo lost_redis demo_move = (res, s')" by fastforce
  ultimately show ?thesis
    using collection_invariant [OF entity_db.stored_object_axioms mem_mongo_behaves mem_mongo_atomic demo_coll_ok] demo_move_keys(4)
    by auto
qed

text \<open>
  C18: a \<open>Load\<close> that returns reports no error, changes nothing, and gives exactly the stored objects
  whose stored subscription key is among the requested ones and whose type has a constructor, each
  once.
\<close>

theorem Load_exact:
  assumes "mongo_behaves ops tag_of mk stored mg docs" "creator_ok ops mk"
    and "\<forall>i x. docs m i = Some x \<longrightarrow> TagType (tag_of x) = obj_TypeKey ops x"
    and "MongoSynk_Load mk mg keys m = (Ret (xs, e), m')"
  shows "e = None \<and> docs m' = docs m \<and>
    (\<exists>ids. distinct ids \<and> xs = map (\<lambda>i. the (docs m i)) ids \<and>
       set ids = {i \<in> ids_with_sub tag_of (docs m) keys. mk (TagType (tag_of (the (docs m i)))) \<noteq> None})"
  by (rule Load_Ret [OF assms])

lemma Load_exact_witness:
  "\<exists>xs. MongoSynk_Load creator mem_mongo [''m:0|0'', ''m:5|5''] (ms_mongo demo_move) = (Ret (xs, None), ms_mongo demo_move) \<and>
     set xs = {EHuman demo_human}"
proof -
  have typed: "\<forall>i x. map_of (ms_mongo demo_move) i = Some x \<longrightarrow> TagType (entity_tag x) = obj_TypeKey entity_ops x"
  proof -
    have "TagType (entity_tag (EHuman demo_human)) = obj_TypeKey entity_ops (EHuman demo_human)" by code_simp
    then show ?thesis by (simp add: demo_move_def)
  qed
  obtain xs where load: "MongoSynk_Load creator mem_mongo [''m:0|0'', ''m:5|5''] (ms_mongo demo_move) = (Ret (xs, None), ms_mongo demo_move)"
    by (simp add: MongoSynk_Load_def mem_mongo_def epanic_def del: creator.simps)
  obtain ids where ids: "xs = map (\<lambda>i. the (map_of (ms_mongo demo_move) i)) ids"
    "set ids = {i \<in> ids_with_sub entity_tag (map_of (ms_mongo demo_move)) [''m:0|0'', ''m:5|5''].
       creator (TagType (entity_tag (the (map_of (ms_mongo demo_move) i)))) \<noteq> None}"
    using Load_exact [OF mem_mongo_behaves entity_creator_ok typed load] by blast
  have "ids_with_sub entity_tag (map_of (ms_mongo demo_move)) [''m:0|0'', ''m:5|5''] = {''a!''}"
    by (auto simp: ids_with_sub_def demo_move_def demo_human_def)
  with ids have "set ids = {''a!''}" by (simp add: demo_move_def demo_human_def)
  with ids(1) load show ?thesis by (simp add: demo_move_def)
qed

end
