(* ===== verification/Pipe.thy ===== *)
theory Pipe
  imports Redis_Synk Channels Node
begin

text \<open>
  \<open>Pipe.go\<close>: the deprecated way to mutate objects without waiting for the database. Two goroutines
  serve the two channels of a pipe: one panics on the first mutation it receives, the other sends
  commands to Redis until one fails, and then panics.
\<close>

section \<open>The pipe\<close>

record toRedis =
  commandName :: string
  args :: "string list"

text \<open>
  \<open>MutateRedisChan\<close> is unbuffered: a send hands its value to the receiving goroutine. A nil connection
  is \<open>None\<close>.
\<close>

record ('s, 'c, 'o) pipe =
  Pool :: "'c redis_pool"
  Mongo :: 's
  MutateRedisChan :: "'o redis_msg chan"
  toRedisChan :: "toRedis chan"
  toRedisConn :: "'c option"

text \<open>A new pipe dials MongoDB, which may panic; its pool does not dial before a connection is needed.\<close>

definition NewSynk :: "('s, 'c, 'm, 'a) drivers \<Rightarrow> config \<Rightarrow> ('s, 'c, 'o) pipe go" where
  "NewSynk dr cfg =
     (case DialMongo dr cfg of
        Panic p \<Rightarrow> Panic p
      | Ret session \<Rightarrow> Ret \<lparr>Pool = DialRedisPool dr cfg, Mongo = session, MutateRedisChan = make_chan 0,
          toRedisChan = make_chan 1000, toRedisConn = None\<rparr>)"

text \<open>The goroutine that receives mutations: \<open>for range arc.MutateRedisChan { panic(...) }\<close>.\<close>

fun mutate_loop :: "'o redis_msg list \<Rightarrow> unit run" where
  "mutate_loop [] = Blocked"
| "mutate_loop (m # ms) = Panicked ''Mutate redisChan is not currently supported''"

text \<open>
  The goroutine that sends commands, for the values received until the channel is closed;
  \<open>conn_do\<close> is \<open>Do(val.commandName, val.args...)\<close> of its connection.
\<close>

fun to_redis_loop :: "(string \<Rightarrow> string list \<Rightarrow> 'r \<Rightarrow> (error + redis_reply) \<times> 'r) \<Rightarrow> toRedis list \<Rightarrow> 'r \<Rightarrow> unit run \<times> 'r" where
  "to_redis_loop conn_do [] r = (Panicked ''synk: NewSynk: handler.toRedisChan closed!'', r)"
| "to_redis_loop conn_do (val # vals) r =
     (case conn_do (commandName val) (args val) r of
        (Inl err, r') \<Rightarrow> (Panicked ''synk: NewSynk: handler.toRedisChan closed!'', r')
      | (Inr _, r') \<Rightarrow> to_redis_loop conn_do vals r')"

text \<open>
  It first takes its connection from the pool of the new pipe, which has no idle one and dials; \<open>conn_do\<close>
  runs a command over a connection.
\<close>

definition to_redis_goroutine :: "('c \<Rightarrow> string \<Rightarrow> string list \<Rightarrow> 'r \<Rightarrow> (error + redis_reply) \<times> 'r) \<Rightarrow> toRedis list \<Rightarrow>
    ('s, 'c, 'o) pipe \<Rightarrow> 'r \<Rightarrow> unit run \<times> ('s, 'c, 'o) pipe \<times> 'r" where
  "to_redis_goroutine conn_do vals p r =
     (case pool_Dial (Pool p) () of
        Panic q \<Rightarrow> (Panicked q, p, r)
      | Ret conn \<Rightarrow> (let (res, r') = to_redis_loop (conn_do conn) vals r in (res, p\<lparr>toRedisConn := Some conn\<rparr>, r')))"

section \<open>Its methods\<close>

text \<open>Each mutation gives the object it leaves and what it sends to \<open>MutateRedisChan\<close>.\<close>

definition Pipe_Create :: "('o, 'd) object_ops \<Rightarrow> 'o \<Rightarrow> rand \<Rightarrow> 'o redis_msg list \<times> 'o \<times> rand" where
  "Pipe_Create ops obj r =
     (let (obj1, r1) = obj_TagInit ops (obj_TypeKey ops obj) obj r;
          obj2 = snd (obj_Resolve ops obj1);
          objCopy = obj_Init ops (obj_Copy ops obj2)
      in ([NewObj objCopy], obj2, r1))"

definition Pipe_Delete :: "('o, 'd) object_ops \<Rightarrow> 'o \<Rightarrow> 'o redis_msg list \<times> 'o" where
  "Pipe_Delete ops obj = ([DelObj (obj_Copy ops obj)], obj)"

definition Pipe_Modify :: "('o, 'd) object_ops \<Rightarrow> 'o \<Rightarrow> 'o redis_msg list \<times> 'o" where
  "Pipe_Modify ops obj =
     (if obj_Changed ops obj then ([ModObj (obj_Copy ops obj)], snd (obj_Resolve ops obj)) else ([], obj))"

definition Pipe_Publish :: "string list \<Rightarrow> ('s, 'c, 'o) pipe \<Rightarrow> unit run \<times> ('s, 'c, 'o) pipe" where
  "Pipe_Publish as p =
     (let (res, c) = chan_send \<lparr>commandName = ''PUBLISH'', args = as\<rparr> (toRedisChan p) in (res, p\<lparr>toRedisChan := c\<rparr>))"

section \<open>Publications\<close>

fun publish_all :: "string list list \<Rightarrow> ('s, 'c, 'o) pipe \<Rightarrow> unit run \<times> ('s, 'c, 'o) pipe" where
  "publish_all [] p = (Returned (), p)"
| "publish_all (as # ass) p =
     (case Pipe_Publish as p of (Returned _, p') \<Rightarrow> publish_all ass p' | res \<Rightarrow> res)"

lemma publish_all_buf:
  "\<not> ch_closed (toRedisChan p) \<Longrightarrow> length (ch_buf (toRedisChan p)) + length ass \<le> ch_cap (toRedisChan p) \<Longrightarrow>
   \<exists>p'. publish_all ass p = (Returned (), p') \<and> Pool p' = Pool p \<and>
     ch_buf (toRedisChan p') = ch_buf (toRedisChan p) @ map (\<lambda>as. \<lparr>commandName = ''PUBLISH'', args = as\<rparr>) ass"
proof (induction ass arbitrary: p)
  case (Cons as ass)
  let ?p = "p\<lparr>toRedisChan := (toRedisChan p)\<lparr>ch_buf := ch_buf (toRedisChan p) @ [\<lparr>commandName = ''PUBLISH'', args = as\<rparr>]\<rparr>\<rparr>"
  have "Pipe_Publish as p = (Returned (), ?p)" using Cons.prems by (simp add: Pipe_Publish_def chan_send_def)
  with Cons.IH [of ?p] Cons.prems show ?case by simp
qed simp

lemma to_redis_loop_ok:
  "(\<And>c as q. \<exists>rep. conn_do c as q = (Inr rep, exec c as q)) \<Longrightarrow>
   snd (to_redis_loop conn_do vals r) = fold (\<lambda>v. exec (commandName v) (args v)) vals r"
proof (induction vals arbitrary: r)
  case (Cons val vals)
  from Cons.prems obtain rep where "conn_do (commandName val) (args val) r = (Inr rep, exec (commandName val) (args val) r)" by blast
  with Cons.IH [OF Cons.prems] show ?case by simp
qed simp

text \<open>
  C40: the messages of up to a thousand publications through a new pipe are all accepted without
  blocking and reach Redis as \<open>PUBLISH\<close> commands in the order of the calls, as long as no command
  fails; if Redis cannot be dialled, the sending goroutine panics and nothing is sent. Any mutation of a
  changed or new object through the pipe ends in a panic of its goroutine.
\<close>

theorem pipe_in_order:
  assumes "length ass \<le> 1000" "NewSynk dr cfg = Ret p0"
    and "\<And>conn c as q. \<exists>rep. conn_do conn c as q = (Inr rep, exec c as q)"
  shows "\<exists>p. publish_all ass p0 = (Returned (), p) \<and>
    (case redis_Dial dr (RedisAddr cfg) of
       Inl e \<Rightarrow> to_redis_goroutine conn_do (ch_buf (toRedisChan p)) p r = (Panicked (''Failed to connect to redis: '' @ e), p, r)
     | Inr conn \<Rightarrow> snd (snd (to_redis_goroutine conn_do (ch_buf (toRedisChan p)) p r)) = fold (\<lambda>as. exec ''PUBLISH'' as) ass r) \<and>
    mutate_loop (fst (Pipe_Create ops obj rnd)) = Panicked ''Mutate redisChan is not currently supported'' \<and>
    mutate_loop (fst (Pipe_Delete ops obj)) = Panicked ''Mutate redisChan is not currently supported'' \<and>
    (mutate_loop (fst (Pipe_Modify ops obj)) \<noteq> Blocked \<longleftrightarrow> obj_Changed ops obj)"
proof -
  have p0: "toRedisChan p0 = make_chan 1000" "Pool p0 = DialRedisPool dr cfg"
    using assms(2) by (auto simp: NewSynk_def split: go.splits)
  obtain p where p: "publish_all ass p0 = (Returned (), p)" and pool: "Pool p = DialRedisPool dr cfg"
    and buf: "ch_buf (toRedisChan p) = map (\<lambda>as. \<lparr>commandName = ''PUBLISH'', args = as\<rparr>) ass"
    using publish_all_buf [of p0 ass] assms(1) p0 by (auto simp: make_chan_def)
  have "snd (to_redis_loop (conn_do conn) (ch_buf (toRedisChan p)) r) = fold (\<lambda>as. exec ''PUBLISH'' as) ass r" for conn
    by (simp add: buf to_redis_loop_ok [where exec = exec, OF assms(3)] fold_map comp_def)
  with p show ?thesis
    by (intro exI [of _ p]) (simp add: Pipe_Create_def Pipe_Delete_def Pipe_Modify_def to_redis_goroutine_def pool
        DialRedisPool_def case_prod_unfold Let_def split: sum.split)
qed

definition demo_pipe :: "(unit, unit, orc) pipe" where
  "demo_pipe = \<lparr>Pool = DialRedisPool demo_drivers (init_config (config_vars (\<lambda>_. ''''))), Mongo = (), MutateRedisChan = make_chan 0,
     toRedisChan = make_chan 1000, toRedisConn = None\<rparr>"

lemma demo_pipe_new: "NewSynk demo_drivers (init_config (config_vars (\<lambda>_. ''''))) = Ret demo_pipe"
  by (simp add: NewSynk_def DialMongo_def demo_drivers_def demo_pipe_def)

lemma pipe_in_order_witness:
  "\<exists>p. publish_all [[''a'', ''1''], [''b'', ''2'']] demo_pipe = (Returned (), p) \<and>
     snd (snd (to_redis_goroutine (\<lambda>_ c as q. (Inr (RInt 0), q @ as)) (ch_buf (toRedisChan p)) p [])) = [''a'', ''1'', ''b'', ''2'']"
proof -
  have "length [[''a'', ''1''], [''b'', ''2'']] \<le> 1000"
    "\<exists>rep. (\<lambda>(conn :: unit) (c :: string) as q. (Inr (RInt 0) :: error + redis_reply, q @ as)) conn c as q = (Inr rep, q @ as)"
    for conn c and as q :: "string list"
    by simp_all
  from pipe_in_order [where exec = "\<lambda>_ as q. q @ as", OF this(1) demo_pipe_new this(2), where r = "[]" and ops = Orc_ops and obj = new_orc
      and rnd = "\<lparr>draws = \<lambda>i. i, drawn = 0\<rparr>"]
  obtain p where "publish_all [[''a'', ''1''], [''b'', ''2'']] demo_pipe = (Returned (), p)"
    "snd (snd (to_redis_goroutine (\<lambda>_ c as q. (Inr (RInt 0), q @ as)) (ch_buf (toRedisChan p)) p [])) =
       fold (\<lambda>as q. q @ as) [[''a'', ''1''], [''b'', ''2'']] []"
    by (auto simp: demo_drivers_def)
  moreover have "fold (\<lambda>as q. q @ as) [[''a'', ''1''], [''b'', ''2'']] [] = [''a'', ''1'', ''b'', ''2'']" by simp
  ultimately show ?thesis by metis
qed

end
