(* ===== verification/Spec2Isabelle.thy ===== *)
theory Spec2Isabelle
  imports Life_Refines Live Concurrent Race_Single Human_Test Access Versions Timing Race_Props Mutator_Props Orc_Heap Client_Close Lifecycle Client_Pool Client_Props Redis_Props Mongo_Props Object_Props Node Pipe Config
begin

text \<open>
  A model of \<open>synk\<close>, a Go library that keeps the objects shown in browsers in step with a database.
  An object has fields and a subscription key computed from them. Changing it through a setter
  collects a diff; \<open>Modify\<close> resolves the diff, writes the object to MongoDB and publishes the diff
  over Redis on the channel named by the key; every server process forwards the messages of a channel
  to the browsers that subscribed to it, over their WebSockets. An object whose key changes moves:
  browsers that knew it get the diff, browsers that only know the new key get the full state.

  The theories, in the order of their imports:

  \<^item> \<open>Prelude\<close>: Go strings, outcomes and number formatting; \<open>Json\<close>, \<open>JsonLemmas\<close>,
    \<open>JsonRoundtrip\<close>, \<open>JsonDecode\<close>: the part of \<open>encoding/json\<close> the program uses (the
    encoder with its escapes, the parser, decoding into struct fields), with the round trip.
  \<^item> \<open>Ids\<close> (\<open>ID.go\<close>), \<open>Tags\<close> (\<open>Tag.go\<close>), \<open>Objects\<close> (the interfaces \<open>Object\<close> and
    \<open>Initializer\<close> of \<open>Interfaces.go\<close>): the record \<open>object_ops\<close> carries the methods of an
    implementation, and the locales \<open>synk_tagged\<close> and \<open>synk_object\<close> what the library relies on.
  \<^item> \<open>Human\<close>, \<open>Orc\<close>, \<open>Entities\<close> (\<open>stest/char.go\<close>, \<open>stest/setters.go\<close>, and \<open>creator\<close> of
    \<open>stest/char_test.go\<close>): the two implementations in the repository; they interpret the locales.
    \<open>Object_Props\<close>: setters, diffs, keys and JSON of these objects. \<open>Orc_Heap\<close>: the methods of
    \<open>Orc\<close> over an explicit memory, a refinement that justifies the values used for the pointers of
    the diffs elsewhere, and what \<open>Copy\<close> shares.
  \<^item> \<open>Services\<close>: Redis and MongoDB as parameters. \<open>redis_behaves\<close> and \<open>mongo_behaves\<close> are the
    documented behaviour of the commands and queries used, \<open>mongo_atomic\<close> that a write of the collection
    takes effect or not; \<open>mem_redis\<close> and \<open>mem_mongo\<close> are executable servers that satisfy them, for the
    witnesses. Taking a connection of the pool (\<open>rd_Get\<close>, \<open>with_conn\<close>) may panic, because the \<open>Dial\<close> function
    of \<open>DialRedisPool\<close> does.
  \<^item> \<open>Messages\<close> (\<open>Message.go\<close> and the message types of \<open>MongoSynk.go\<close>), \<open>Mongo_Synk\<close>
    (\<open>MongoSynk.go\<close>) with \<open>Mongo_Lemmas\<close> and \<open>Mongo_Props\<close>: what each operation leaves in the
    database, in the object and on the channels, on every path, panics included.
  \<^item> \<open>Redis_Synk\<close> (\<open>RedisSynk.go\<close>, \<open>RedisScripts.go\<close>, \<open>getID\<close>) with \<open>Redis_Lemmas\<close> and
    \<open>Redis_Props\<close>: the older back end, with the two Lua scripts as atomic sequences of commands.
  \<^item> \<open>Mutators\<close>, \<open>Mutator_Props\<close>: what clients hear of a modification or a deletion, as a locale
    that both back ends interpret.
  \<^item> \<open>Config\<close> (variables and \<open>init\<close> of \<open>Interfaces.go\<close>, with what it prints), \<open>Node\<close> (\<open>Node.go\<close>):
    dialling, mutators, loaders and the registered constructors, which may be nil; the drivers are
    parameters.
  \<^item> \<open>Interfaces\<close>: the interfaces \<open>AccessPoint\<close>, \<open>Mutator\<close> and \<open>Loader\<close> of \<open>Interfaces.go\<close> as records of
    methods, with the values that \<open>MongoSynk\<close>, \<open>RedisSynk\<close> and \<open>Node\<close> are. Their contracts are locales:
    \<open>loader\<close> (\<open>Loaders\<close>: what a browser gets of a published value), \<open>object_store\<close> (\<open>Stores\<close>: what is
    written is read back, as far as the back end keeps it) and \<open>access_point\<close> (\<open>Access\<close>: one constructor
    of each kind). \<open>Human_Test\<close> (\<open>stest/char_test.go\<close>): the test of the repository, run against either
    back end.
  \<^item> \<open>Channels\<close>: Go channels as values, and the outcome of an operation that may block.
    \<open>Client\<close> (\<open>Client.go\<close>) with \<open>Client_Lemmas\<close> and \<open>Client_Props\<close>: what reaches the browser.
    Handlers of the application are trees of calls to the client's interface. \<open>Client_Close\<close>: the
    reading goroutine, and \<open>Close\<close> as the main loop defers it. \<open>Timing\<close>: the timeouts, the write
    deadlines, and how long the main loop can be held up by writing.
  \<^item> \<open>Client_Pool\<close> (\<open>ClientPool.go\<close>, \<open>Handler.go\<close>) and \<open>Lifecycle\<close>: the goroutine of the pool,
    and all goroutines of one connection as an interleaving step relation with its invariant, with any
    number of calls of \<open>Receive\<close> and of \<open>WriteToWebSocket\<close> in progress. Whether \<open>RemoveAgent\<close> of package
    \<open>pubsub\<close> waits for a running \<open>Receive\<close> is not documented: it is the parameter \<open>waits\<close>, and the
    properties hold for both values and say where they differ.
    \<open>Life_Refines\<close>: the functions of \<open>Client\<close> and \<open>Client_Pool\<close>, interleaved in any order on one
    connection, refine that relation, so what it says holds of the functions. \<open>Receive\<close>, the reading
    goroutine and \<open>Close\<close> are split at the points where they can wait (\<open>Receive_message\<close>, \<open>read_next\<close>,
    \<open>Close_socket\<close>, \<open>Close_agents\<close>, \<open>Close_done\<close>; \<open>Receive_parts\<close>, \<open>read_iteration_parts\<close> and
    \<open>Close_passes\<close> tie the parts to the whole), a pass of the main loop and \<open>OnConnect\<close> are one step;
    that the client is registered is read off the state of the agents.
  \<^item> \<open>Pipe\<close> (\<open>Pipe.go\<close>): the deprecated pipe.
  \<^item> \<open>Replica\<close>, \<open>World\<close>: the abstract specification. A browser is a map from identifiers to views
    that interprets the messages; the refinement says that it always shows exactly the stored objects
    of its keys, first for each operation (\<open>stored_object\<close>), then for all histories of setter calls,
    operations and subscription changes that run one after the other.
  \<^item> \<open>Versions\<close>: the 64-bit version of an object over a series of modifications.
  \<^item> \<open>Concurrent\<close>: any number of calls on different objects at the same time, each of which writes its
    document and then publishes, interleaved with the deliveries to a client and its main loop. The
    invariant adds up, per object, what the browser has, what is queued and what is to be published.
  \<^item> \<open>Race\<close>, \<open>Race_Props\<close>: a \<open>Modify\<close> and an \<open>updateSubscription\<close> at the same time. The effects of
    each call keep their order (write, then publish; change the client's map, then the agents, then
    load) and interleave with each other and with the main loop, which rests during the request. The
    steps are the effects of the functions in the order of the source, written as a relation. The
    invariant follows one object through the queue of the client; it shows that the replica is exact
    again at the end, and in which case it is not. \<open>Race_Single\<close>: the same for a creation and a deletion.
  \<^item> \<open>Actions\<close>, \<open>Live\<close>: the two together, any number of calls on different objects and any number of
    subscription requests that add keys, one after the other, as the main loop runs them. \<open>Actions\<close>: what
    a message does to the view of one object, and when applying it again or late changes nothing.
    \<open>Live\<close>: the step relation, its invariant, and that the browser is exact for every object but those
    that moved, or were created again under a used identifier, around a request.

  State is passed explicitly: an operation takes the object, the random source, the collection and the
  Redis server and returns them, also when it panics. Errors are \<open>error option\<close>, panics \<open>Panic\<close>,
  and \<open>run\<close> adds the outcome that a goroutine blocks. \<open>int\<close> and \<open>uint\<close> are 64-bit words, so
  versions wrap around. A nil pointer field of a diff is \<open>None\<close>, another one the value it points to.

  Bounds: the JSON parser counts nesting with fuel, the length of the input, and every value it reads
  takes at least one byte; the buffers have the source's capacities (64 for a client, 1000 for the
  pipe), and the bound 70 of \<open>close_terminates\<close> is the incoming buffer plus the remaining steps.

  Not modelled: logging, the ticker of the pings (a ping may happen at any moment) and time outside the
  writes to a browser, the data race of \<open>Receive\<close> with \<open>updateSubscription\<close> on the map of subscriptions,
  how \<open>math/rand\<close> turns a seed into draws, several calls on one object at once, a subscription request that removes keys while
  other calls run (the removal of keys is modelled in \<open>updateSubscription\<close> and in \<open>World\<close>), the TCP and
  WebSocket protocols, and the bodies of \<open>mgo\<close>, \<open>redigo\<close>, \<open>gorilla/websocket\<close> and \<open>pubsub\<close>, which are
  not in the repository and are parameters.
\<close>

end
